(* ===== verification/Prelude.thy ===== *)
theory Prelude
  imports Complex_Main "HOL-Library.Word" "HOL-Library.Log_Nat" "HOL-Library.Code_Target_Numeral"
begin

text \<open>
  What every component theory shares: how a C++ call can fail, the conversions between
  integer widths, the character classes and decimal conversions of the C and C++ standard
  libraries (\<open>isspace\<close>, \<open>std::to_string\<close>, \<open>std::stoi\<close> and its relatives) and generic list
  lemmas. Strings are HOL's \<open>string\<close> (lists of bytes), as \<open>std::string\<close> is.
\<close>

named_theorems outcome_simps \<open>evaluation of calls that may fail\<close>
named_theorems text_simps \<open>digits, decimal numbers and white space\<close>

section \<open>Calls that may fail\<close>

text \<open>
  A C++ call returns, throws one of the standard exceptions the program can meet, or runs
  into undefined behaviour (a read past the end, a division by zero). A \<open>std::terminate\<close> and
  the end of the process by a signal are values of their own.
\<close>

datatype fault =
    Invalid_Argument
  | Out_Of_Range
  | Runtime_Error string
  | Undefined_Behaviour
  | Terminate
  | Killed

type_synonym 'a outcome = "fault + 'a"

section \<open>Integer conversions\<close>

text \<open>\<open>static_cast\<close> to a signed or unsigned type of a given width (two's complement).\<close>

definition as_int32 :: "int \<Rightarrow> int" where
  "as_int32 z = signed_take_bit 31 z"

definition as_uint64 :: "int \<Rightarrow> nat" where
  "as_uint64 z = nat (z mod 2 ^ 64)"

lemma as_int32_range: "- (2 ^ 31) \<le> as_int32 z \<and> as_int32 z < 2 ^ 31"
proof -
  have "- (2 ^ 31) \<le> signed_take_bit 31 z" by (rule signed_take_bit_int_greater_eq_minus_exp)
  moreover have "signed_take_bit 31 z < 2 ^ 31" by (rule signed_take_bit_int_less_exp)
  ultimately show ?thesis by (simp only: as_int32_def)
qed

lemma as_int32_id: "- (2 ^ 31) \<le> z \<Longrightarrow> z < 2 ^ 31 \<Longrightarrow> as_int32 z = z"
  by (simp add: as_int32_def signed_take_bit_int_eq_self)

section \<open>Characters\<close>

text \<open>
  \<open>is_digit\<close> is the one of \<open>gov_rule.cpp\<close>; the C library's decimal conversions accept the
  same ten characters. \<open>is_space\<close> is \<open>isspace\<close> in the C locale.
\<close>

definition is_digit :: "char \<Rightarrow> bool" where
  "is_digit c \<longleftrightarrow> 48 \<le> (of_char c :: nat) \<and> (of_char c :: nat) \<le> 57"

definition is_space :: "char \<Rightarrow> bool" where
  "is_space c \<longleftrightarrow> (of_char c :: nat) = 32 \<or> (9 \<le> (of_char c :: nat) \<and> (of_char c :: nat) \<le> 13)"

definition digit_val :: "char \<Rightarrow> nat" where
  "digit_val c = of_char c - 48"

definition digit_char :: "nat \<Rightarrow> char" where
  "digit_char d = char_of (48 + d)"

lemma of_char_digit_char [text_simps]: "d < 10 \<Longrightarrow> (of_char (digit_char d) :: nat) = 48 + d"
  by (simp add: digit_char_def)

lemma is_digit_digit_char [text_simps]: "d < 10 \<Longrightarrow> is_digit (digit_char d)"
  by (simp add: is_digit_def of_char_digit_char)

lemma digit_val_digit_char [text_simps]: "d < 10 \<Longrightarrow> digit_val (digit_char d) = d"
  by (simp add: digit_val_def of_char_digit_char)

lemma digit_not_space: "is_digit c \<Longrightarrow> \<not> is_space c"
  by (simp add: is_digit_def is_space_def)

section \<open>Decimal numbers\<close>

definition dec_value :: "string \<Rightarrow> nat" where
  "dec_value ds = foldl (\<lambda>n c. 10 * n + digit_val c) 0 ds"

fun show_nat :: "nat \<Rightarrow> string" where
  "show_nat n = (if n < 10 then [digit_char n] else show_nat (n div 10) @ [digit_char (n mod 10)])"

declare show_nat.simps [simp del]

definition show_int :: "int \<Rightarrow> string" where
  "show_int z = (if z < 0 then CHR ''-'' # show_nat (nat (- z)) else show_nat (nat z))"

lemma dec_value_Nil [simp]: "dec_value [] = 0"
  by (simp add: dec_value_def)

lemma dec_value_snoc [simp]: "dec_value (ds @ [c]) = 10 * dec_value ds + digit_val c"
  by (simp add: dec_value_def)

lemma show_nat_digits: "\<forall>c \<in> set (show_nat n). is_digit c"
proof (induction n rule: show_nat.induct)
  case (1 n)
  then show ?case
    by (cases "n < 10") (auto simp: show_nat.simps [of n] text_simps)
qed

lemma show_nat_nonempty [simp]: "show_nat n \<noteq> []"
  by (simp add: show_nat.simps [of n])

lemma dec_value_show_nat [text_simps]: "dec_value (show_nat n) = n"
proof (induction n rule: show_nat.induct)
  case (1 n)
  show ?case
  proof (cases "n < 10")
    case True
    then show ?thesis
      by (simp add: show_nat.simps [of n] dec_value_def text_simps)
  next
    case False
    with 1 have "dec_value (show_nat (n div 10)) = n div 10" by simp
    with False show ?thesis
      by (simp add: show_nat.simps [of n] text_simps)
  qed
qed

lemma show_nat_inject: "show_nat m = show_nat n \<Longrightarrow> m = n"
  by (metis dec_value_show_nat)

lemma takeWhile_digits_append [text_simps]:
  "(\<forall>c \<in> set ds. is_digit c) \<Longrightarrow> (r = [] \<or> \<not> is_digit (hd r)) \<Longrightarrow> takeWhile is_digit (ds @ r) = ds"
  by (induction ds) (auto, cases r, auto)

section \<open>\<open>std::stoi\<close> and its relatives\<close>

text \<open>
  \<open>strtol\<close> in base 10: leading white space and one sign are skipped, the longest run of
  digits is converted and the rest is ignored. The \<open>std::sto*\<close> wrappers throw
  \<open>invalid_argument\<close> when there is no digit and \<open>out_of_range\<close> when the value does not fit.
\<close>

definition sto_split :: "string \<Rightarrow> bool \<times> string" where
  "sto_split s = (let r = dropWhile is_space s in
     case r of
       [] \<Rightarrow> (False, [])
     | c # cs \<Rightarrow> if c = CHR ''-'' then (True, takeWhile is_digit cs)
                 else if c = CHR ''+'' then (False, takeWhile is_digit cs)
                 else (False, takeWhile is_digit r))"

definition sto_signed :: "int \<Rightarrow> int \<Rightarrow> string \<Rightarrow> int outcome" where
  "sto_signed lo hi s = (let (neg, ds) = sto_split s in
     if ds = [] then Inl Invalid_Argument
     else let v = (if neg then - int (dec_value ds) else int (dec_value ds)) in
       if v < lo \<or> hi < v then Inl Out_Of_Range else Inr v)"

definition stoi :: "string \<Rightarrow> int outcome" where
  "stoi = sto_signed (- (2 ^ 31)) (2 ^ 31 - 1)"

definition stoll :: "string \<Rightarrow> int outcome" where
  "stoll = sto_signed (- (2 ^ 63)) (2 ^ 63 - 1)"

text \<open>\<open>strtoull\<close> accepts a minus sign and negates in the unsigned type.\<close>

definition stoull :: "string \<Rightarrow> nat outcome" where
  "stoull s = (let (neg, ds) = sto_split s in
     if ds = [] then Inl Invalid_Argument
     else if 2 ^ 64 \<le> dec_value ds then Inl Out_Of_Range
     else Inr (if neg then as_uint64 (- int (dec_value ds)) else dec_value ds))"

lemma sto_split_digits:
  assumes "ds \<noteq> []" and "\<forall>c \<in> set ds. is_digit c"
  shows "sto_split ds = (False, ds)"
proof (cases ds)
  case Nil
  with assms show ?thesis by simp
next
  case (Cons c cs)
  have c: "is_digit c" using assms Cons by simp
  have "takeWhile is_digit ds = ds"
    using assms(2) by simp
  moreover have "c \<noteq> CHR ''-''" "c \<noteq> CHR ''+''"
    using c by (auto simp: is_digit_def)
  moreover have "dropWhile is_space ds = ds"
    using Cons digit_not_space [OF c] by simp
  ultimately show ?thesis
    using Cons by (simp add: sto_split_def)
qed

lemma sto_split_minus:
  assumes "\<forall>c \<in> set ds. is_digit c"
  shows "sto_split (CHR ''-'' # ds) = (True, ds)"
  using assms by (simp add: sto_split_def is_space_def)

lemma stoull_digits [outcome_simps]:
  "ds \<noteq> [] \<Longrightarrow> \<forall>c \<in> set ds. is_digit c \<Longrightarrow>
   stoull ds = (if 2 ^ 64 \<le> dec_value ds then Inl Out_Of_Range else Inr (dec_value ds))"
  by (simp add: stoull_def sto_split_digits)

lemma stoll_digits [outcome_simps]:
  "ds \<noteq> [] \<Longrightarrow> \<forall>c \<in> set ds. is_digit c \<Longrightarrow>
   stoll ds = (if 2 ^ 63 \<le> dec_value ds then Inl Out_Of_Range else Inr (int (dec_value ds)))"
  by (auto simp: stoll_def sto_signed_def sto_split_digits)

lemma stoll_minus_digits [outcome_simps]:
  "ds \<noteq> [] \<Longrightarrow> \<forall>c \<in> set ds. is_digit c \<Longrightarrow>
   stoll (CHR ''-'' # ds) =
     (if 2 ^ 63 < dec_value ds then Inl Out_Of_Range else Inr (- int (dec_value ds)))"
  by (auto simp: stoll_def sto_signed_def sto_split_minus)

lemma stoi_show_nat: "n < 2 ^ 31 \<Longrightarrow> stoi (show_nat n) = Inr (int n)"
  using show_nat_digits [of n]
  by (simp add: stoi_def sto_signed_def sto_split_digits dec_value_show_nat)

section \<open>Lists\<close>

definition take_last :: "nat \<Rightarrow> 'a list \<Rightarrow> 'a list" where
  "take_last n xs = drop (length xs - n) xs"

lemma length_take_last [simp]: "length (take_last n xs) = min n (length xs)"
  by (simp add: take_last_def)

lemma take_last_all [simp]: "length xs \<le> n \<Longrightarrow> take_last n xs = xs"
  by (simp add: take_last_def)

lemma take_last_snoc: "take_last (Suc n) (xs @ [x]) = take_last n xs @ [x]"
  by (simp add: take_last_def)

lemma take_last_take_last [simp]: "take_last m (take_last n xs) = take_last (min m n) xs"
proof -
  have "length xs - ((length xs - n) + m) + (length xs - n) = length xs - min m n" by arith
  then show ?thesis by (simp add: take_last_def)
qed

lemma take_last_append_take_last:
  "take_last n (take_last n xs @ ys) = take_last n (xs @ ys)"
proof (cases "length xs \<le> n")
  case True
  then show ?thesis by simp
next
  case False
  then have "length xs + length ys - n = length ys + (length xs - n)"
    and "length ys - n + n - length ys = n - length ys \<or> n \<le> length ys" by arith+
  with False show ?thesis by (simp add: take_last_def)
qed

lemma take_last_nth: "i < min n (length xs) \<Longrightarrow> take_last n xs ! i = xs ! (length xs - min n (length xs) + i)"
  by (auto simp: take_last_def min_def)

lemma length_dropWhile_le_trans: "length s \<le> n \<Longrightarrow> length (dropWhile P s) \<le> n"
  using length_dropWhile_le order_trans by blast

section \<open>Comma-separated texts\<close>

fun join :: "string list \<Rightarrow> string" where
  "join [] = []"
| "join [x] = x"
| "join (x # y # xs) = x @ CHR '','' # join (y # xs)"

section \<open>Lines and C strings\<close>

text \<open>\<open>std::getline\<close> with a delimiter until it fails; a delimiter at the end opens no further line.\<close>

function getlines :: "char \<Rightarrow> string \<Rightarrow> string list" where
  "getlines d s = (if s = [] then []
     else takeWhile (\<lambda>c. c \<noteq> d) s # getlines d (drop 1 (dropWhile (\<lambda>c. c \<noteq> d) s)))"
  by pat_completeness auto
termination
proof (relation "measure (\<lambda>(d, s). length s)")
  fix d :: char and s :: string assume "s \<noteq> []"
  then show "((d, drop 1 (dropWhile (\<lambda>c. c \<noteq> d) s)), d, s) \<in> measure (\<lambda>(d, s). length s)"
    using length_dropWhile_le [of "\<lambda>c. c \<noteq> d" s] by (cases s) auto
qed simp

declare getlines.simps [simp del]

lemma getlines_Nil [simp]: "getlines d [] = []"
  by (simp add: getlines.simps [of d "[]"])

lemma getlines_last:
  assumes "d \<notin> set p" and "p \<noteq> []"
  shows "getlines d p = [p]"
proof -
  have "takeWhile (\<lambda>c. c \<noteq> d) p = p" and rest: "dropWhile (\<lambda>c. c \<noteq> d) p = []" using assms(1) by auto
  then show ?thesis
    using assms(2) getlines.simps [of d p] unfolding rest by simp
qed

lemma getlines_line:
  assumes "d \<notin> set p"
  shows "getlines d (p @ d # r) = p # getlines d r"
proof -
  have "takeWhile (\<lambda>c. c \<noteq> d) (p @ d # r) = p" "dropWhile (\<lambda>c. c \<noteq> d) (p @ d # r) = d # r"
    using assms by (simp_all add: takeWhile_append dropWhile_append)
  then show ?thesis using getlines.simps [of d "p @ d # r"] by simp
qed

lemma getlines_join:
  "list_all (\<lambda>p. p \<noteq> [] \<and> CHR '','' \<notin> set p) ps \<Longrightarrow> getlines (CHR '','') (join ps) = ps"
proof (induction ps rule: induct_list012)
  case (2 p)
  then show ?case using getlines_last [of "CHR '',''" p] by simp
next
  case (3 p q ps)
  then show ?case using getlines_line [of "CHR '',''" p "join (q # ps)"] by simp
qed simp

text \<open>The text that a pointer to characters denotes: what comes before the first NUL.\<close>

definition c_str :: "string \<Rightarrow> string" where
  "c_str s = takeWhile (\<lambda>c. c \<noteq> CHR 0x00) s"

lemma c_str_id: "CHR 0x00 \<notin> set s \<Longrightarrow> c_str s = s"
  unfolding c_str_def by (rule takeWhile_eq_all_conv [THEN iffD2]) auto

end
