(* ===== verification/Ring_Buffer.thy ===== *)
theory Ring_Buffer
  imports Prelude
begin

text \<open>
  \<open>RingBuffer<T>\<close> of \<open>include/heidi-kernel/ring_buffer.h\<close>: a fixed array with a head and a
  tail index and a \<open>full\<close> flag. The \<open>event_log\<close> contract (the log holds the last
  \<open>cap\<close> items pushed) is what \<open>StatusSocket\<close> relies on when it replays events to a new
  subscriber; the ring buffer is shown to provide it.
\<close>

section \<open>The code\<close>

record 'a ring =
  capacity :: nat
  buffer :: "'a list"
  head :: nat
  tail :: nat
  full :: bool

text \<open>The vector of \<open>capacity\<close> elements is value-initialised: \<open>d\<close> is \<open>T{}\<close>.\<close>

definition ring_new :: "'a \<Rightarrow> nat \<Rightarrow> 'a ring" where
  "ring_new d cap = \<lparr>capacity = cap, buffer = replicate cap d, head = 0, tail = 0, full = False\<rparr>"

definition ring_size :: "'a ring \<Rightarrow> nat" where
  "ring_size r =
     (if full r then capacity r
      else if tail r \<le> head r then head r - tail r
      else capacity r + head r - tail r)"

text \<open>With capacity 0 the write to \<open>buffer_[head_]\<close> is out of range.\<close>

definition ring_push :: "'a \<Rightarrow> 'a ring \<Rightarrow> 'a ring outcome" where
  "ring_push x r =
     (if length (buffer r) \<le> head r \<or> capacity r = 0 then Inl Undefined_Behaviour
      else let h = (head r + 1) mod capacity r;
               t = (if full r then (tail r + 1) mod capacity r else tail r)
           in Inr (r\<lparr>buffer := (buffer r)[head r := x], head := h, tail := t,
                     full := (if h = t then True else full r)\<rparr>))"

definition ring_last_n :: "'a ring \<Rightarrow> nat \<Rightarrow> 'a list" where
  "ring_last_n r n =
     (let to_fetch = min n (ring_size r) in
      map (\<lambda>i. buffer r ! ((head r + capacity r - to_fetch + i) mod capacity r)) [0..<to_fetch])"

section \<open>Invariant and contents\<close>

definition ring_inv :: "'a ring \<Rightarrow> bool" where
  "ring_inv r \<longleftrightarrow> 0 < capacity r \<and> length (buffer r) = capacity r \<and>
     head r < capacity r \<and> tail r < capacity r \<and> (full r \<longrightarrow> head r = tail r)"

text \<open>The abstraction: the stored items from the oldest to the newest.\<close>

definition ring_contents :: "'a ring \<Rightarrow> 'a list" where
  "ring_contents r = map (\<lambda>i. buffer r ! ((tail r + i) mod capacity r)) [0..<ring_size r]"

lemma ring_size_le: "ring_inv r \<Longrightarrow> ring_size r \<le> capacity r"
  by (auto simp: ring_inv_def ring_size_def)

lemma ring_head_tail: "ring_inv r \<Longrightarrow> head r = (tail r + ring_size r) mod capacity r"
  by (auto simp: ring_inv_def ring_size_def)

lemma ring_new_inv: "0 < cap \<Longrightarrow> ring_inv (ring_new d cap)"
  by (simp add: ring_inv_def ring_new_def)

lemma ring_new_contents: "ring_contents (ring_new d cap) = []"
  by (simp add: ring_contents_def ring_size_def ring_new_def)

lemma ring_length_contents: "length (ring_contents r) = ring_size r"
  by (simp add: ring_contents_def)

lemma ring_push_ok:
  assumes "ring_inv r"
  shows "\<exists>r'. ring_push x r = Inr r' \<and> ring_inv r' \<and> capacity r' = capacity r"
  using assms by (auto simp: ring_push_def ring_inv_def Let_def)


lemma mod_offset_neq:
  fixes i j t n :: nat
  assumes "i < j" and "j < i + n"
  shows "(t + i) mod n \<noteq> (t + j) mod n"
proof
  assume "(t + i) mod n = (t + j) mod n"
  then have "n dvd (t + j) - (t + i)"
    using assms by (metis mod_eq_dvd_iff_nat add_le_cancel_left less_imp_le_nat)
  then have "n dvd j - i" by simp
  with assms show False by (auto dest!: dvd_imp_le)
qed

lemma ring_size_push:
  assumes "ring_inv r" and "ring_push x r = Inr r'"
  shows "ring_size r' = min (capacity r) (Suc (ring_size r))"
  using assms
  by (auto simp: ring_push_def ring_inv_def ring_size_def Let_def mod_Suc split: if_splits)

text \<open>
  The refinement: pushing appends to the contents and keeps the last \<open>capacity\<close> items.
\<close>

lemma ring_push_room:
  assumes inv: "ring_inv r" and push: "ring_push x r = Inr r'" and room: "\<not> full r"
  shows "ring_contents r' = take_last (capacity r) (ring_contents r @ [x])"
proof -
  let ?n = "capacity r" and ?s = "ring_size r"
  have s: "?s < ?n"
    using inv room by (auto simp: ring_inv_def ring_size_def)
  have r': "tail r' = tail r" "capacity r' = ?n" "buffer r' = (buffer r)[head r := x]"
    using push room by (auto simp: ring_push_def Let_def split: if_splits)
  have "ring_size r' = Suc ?s"
    using ring_size_push [OF inv push] s by simp
  moreover have "(buffer r)[head r := x] ! ((tail r + i) mod ?n) = buffer r ! ((tail r + i) mod ?n)"
    if "i < ?s" for i
    using mod_offset_neq [of i ?s ?n "tail r"] that s inv by (simp add: ring_head_tail)
  moreover have "(buffer r)[head r := x] ! ((tail r + ?s) mod ?n) = x"
    using inv by (simp add: ring_head_tail [symmetric]) (simp add: ring_inv_def)
  ultimately have "ring_contents r' = ring_contents r @ [x]"
    by (simp add: ring_contents_def r')
  with s show ?thesis by (simp add: ring_length_contents)
qed

lemma ring_push_full:
  assumes inv: "ring_inv r" and push: "ring_push x r = Inr r'" and filled: "full r"
  shows "ring_contents r' = take_last (capacity r) (ring_contents r @ [x])"
proof -
  let ?n = "capacity r"
  have n: "0 < ?n" and t: "tail r = head r" "head r < ?n" "length (buffer r) = ?n"
    using inv filled by (auto simp: ring_inv_def)
  have r': "tail r' = (tail r + 1) mod ?n" "capacity r' = ?n" "buffer r' = (buffer r)[head r := x]"
    using push filled by (auto simp: ring_push_def Let_def split: if_splits)
  have sz: "ring_size r = ?n" "ring_size r' = ?n"
    using ring_size_push [OF inv push] filled by (simp_all add: ring_size_def)
  show ?thesis
  proof (rule nth_equalityI)
    show "length (ring_contents r') = length (take_last ?n (ring_contents r @ [x]))"
      by (simp add: ring_length_contents sz)
  next
    fix i assume "i < length (ring_contents r')"
    then have i: "i < ?n" by (simp add: ring_length_contents sz)
    have l: "ring_contents r' ! i = (buffer r)[head r := x] ! ((tail r + Suc i) mod ?n)"
      using i by (simp add: ring_contents_def sz r' mod_simps)
    have rhs: "take_last ?n (ring_contents r @ [x]) ! i = (ring_contents r @ [x]) ! Suc i"
      using i by (simp add: take_last_nth ring_length_contents sz)
    show "ring_contents r' ! i = take_last ?n (ring_contents r @ [x]) ! i"
    proof (cases "Suc i = ?n")
      case True
      then show ?thesis
        using t by (simp add: l rhs nth_append ring_length_contents sz)
    next
      case False
      then have "Suc i < ?n" using i by simp
      then show ?thesis
        using mod_offset_neq [of 0 "Suc i" ?n "tail r"] t
        by (simp add: l rhs nth_append ring_length_contents sz) (simp add: ring_contents_def sz)
    qed
  qed
qed

lemma ring_push_contents:
  assumes "ring_inv r" and "ring_push x r = Inr r'"
  shows "ring_contents r' = take_last (capacity r) (ring_contents r @ [x])"
  using ring_push_room [OF assms] ring_push_full [OF assms] by blast

text \<open>Reading back: \<open>last_n\<close> returns the newest \<open>n\<close> items, oldest first.\<close>

lemma ring_last_n_eq:
  assumes inv: "ring_inv r"
  shows "ring_last_n r n = take_last n (ring_contents r)"
proof (rule nth_equalityI)
  show "length (ring_last_n r n) = length (take_last n (ring_contents r))"
    by (simp add: ring_last_n_def ring_length_contents Let_def)
next
  fix i assume "i < length (ring_last_n r n)"
  then have i: "i < min n (ring_size r)" by (simp add: ring_last_n_def Let_def)
  let ?f = "min n (ring_size r)" and ?n = "capacity r" and ?s = "ring_size r"
  have fs: "?f \<le> ?s" "?s \<le> ?n" using ring_size_le [OF inv] by auto
  have "(head r + ?n - ?f + i) mod ?n = (tail r + (?s - ?f + i)) mod ?n"
  proof -
    have "(head r + ?n - ?f + i) mod ?n = (head r + (?n - ?f + i)) mod ?n"
      using fs by (simp add: add.assoc)
    also have "\<dots> = (tail r + ?s + (?n - ?f + i)) mod ?n"
      using ring_head_tail [OF inv] by (simp add: mod_simps)
    also have "tail r + ?s + (?n - ?f + i) = tail r + (?s - ?f + i) + ?n"
      using fs by simp
    finally show ?thesis by (simp only: mod_add_self2)
  qed
  moreover have "ring_last_n r n ! i = buffer r ! ((head r + ?n - ?f + i) mod ?n)"
    using i by (simp add: ring_last_n_def Let_def)
  moreover have "take_last n (ring_contents r) ! i = buffer r ! ((tail r + (?s - ?f + i)) mod ?n)"
  proof -
    have b: "?s - ?f + i < ?s" using i fs by arith
    have "take_last n (ring_contents r) ! i = ring_contents r ! (?s - ?f + i)"
      using i by (simp only: take_last_nth ring_length_contents)
    also have "\<dots> = buffer r ! ((tail r + (?s - ?f + i)) mod ?n)"
      using b by (simp only: ring_contents_def) (simp only: nth_map_upt diff_zero add_0)
    finally show ?thesis .
  qed
  ultimately show "ring_last_n r n ! i = take_last n (ring_contents r) ! i"
    by simp
qed

section \<open>The contract of an event log\<close>

text \<open>
  What a client of the buffer relies on: a push never fails and the log reads as the last
  \<open>cap\<close> items pushed.
\<close>

locale event_log =
  fixes push :: "'a \<Rightarrow> 'q \<Rightarrow> 'q outcome"
    and contents :: "'q \<Rightarrow> 'a list"
    and last_n :: "'q \<Rightarrow> nat \<Rightarrow> 'a list"
    and cap :: "'q \<Rightarrow> nat"
    and inv :: "'q \<Rightarrow> bool"
  assumes push_total: "inv q \<Longrightarrow> \<exists>q'. push x q = Inr q'"
    and push_inv: "inv q \<Longrightarrow> push x q = Inr q' \<Longrightarrow> inv q'"
    and push_cap: "inv q \<Longrightarrow> push x q = Inr q' \<Longrightarrow> cap q' = cap q"
    and push_contents:
      "inv q \<Longrightarrow> push x q = Inr q' \<Longrightarrow> contents q' = take_last (cap q) (contents q @ [x])"
    and last_n_contents: "inv q \<Longrightarrow> last_n q n = take_last n (contents q)"
begin

primrec push_all :: "'a list \<Rightarrow> 'q \<Rightarrow> 'q outcome" where
  "push_all [] q = Inr q"
| "push_all (x # xs) q = (case push x q of Inl e \<Rightarrow> Inl e | Inr q' \<Rightarrow> push_all xs q')"

lemma push_all_total: "inv q \<Longrightarrow> \<exists>q'. push_all xs q = Inr q' \<and> inv q' \<and> cap q' = cap q"
proof (induction xs arbitrary: q)
  case Nil
  then show ?case by simp
next
  case (Cons x xs)
  then obtain q' where q': "push x q = Inr q'" using push_total by blast
  with Cons.prems have "inv q'" "cap q' = cap q" by (auto intro: push_inv push_cap)
  with Cons.IH [of q'] q' show ?case by simp
qed

lemma push_all_contents:
  "inv q \<Longrightarrow> length (contents q) \<le> cap q \<Longrightarrow> push_all xs q = Inr q' \<Longrightarrow>
   contents q' = take_last (cap q) (contents q @ xs)"
proof (induction xs arbitrary: q)
  case Nil
  then show ?case by simp
next
  case (Cons x xs)
  then obtain p where p: "push x q = Inr p" and pa: "push_all xs p = Inr q'"
    by (auto split: sum.splits)
  have ip: "inv p" and cp: "cap p = cap q" and con: "contents p = take_last (cap q) (contents q @ [x])"
    using Cons.prems p push_inv push_cap push_contents by blast+
  have "contents q' = take_last (cap q) (take_last (cap q) (contents q @ [x]) @ xs)"
    using Cons.IH [OF ip _ pa] by (simp add: cp con)
  also have "\<dots> = take_last (cap q) (contents q @ x # xs)"
    by (simp add: take_last_append_take_last)
  finally show ?case .
qed

end

interpretation ring: event_log ring_push ring_contents ring_last_n capacity ring_inv
  by unfold_locales
    (metis ring_push_ok, metis ring_push_ok sum.inject(2), metis ring_push_ok sum.inject(2),
     rule ring_push_contents, assumption+, rule ring_last_n_eq)

section \<open>Pushing a sequence of items\<close>

primrec ring_push_all :: "'a list \<Rightarrow> 'a ring \<Rightarrow> 'a ring outcome" where
  "ring_push_all [] r = Inr r"
| "ring_push_all (x # xs) r =
     (case ring_push x r of Inl e \<Rightarrow> Inl e | Inr r' \<Rightarrow> ring_push_all xs r')"

lemma ring_push_all_eq: "ring_push_all xs r = ring.push_all xs r"
  by (induction xs arbitrary: r) (auto split: sum.splits)

text \<open>
  after any sequence of pushes into a fresh buffer, \<open>last_n\<close> returns the newest
  \<open>min n capacity\<close> items in the order they were pushed, and no push fails.
\<close>

theorem ring_last_n_of_pushes:
  assumes "0 < cap"
  shows "\<exists>r. ring_push_all xs (ring_new d cap) = Inr r \<and> ring_last_n r n = take_last (min n cap) xs"
proof -
  have inv: "ring_inv (ring_new d cap)" using assms by (rule ring_new_inv)
  then obtain r where r: "ring.push_all xs (ring_new d cap) = Inr r" and "ring_inv r"
    using ring.push_all_total by blast
  moreover have "ring_contents r = take_last cap xs"
    using ring.push_all_contents [OF inv _ r] by (simp add: ring_new_contents) (simp add: ring_new_def)
  ultimately show ?thesis
    by (auto simp: ring_push_all_eq ring_last_n_eq)
qed

theorem ring_last_n_of_pushes_witness:
  "\<exists>r. ring_push_all [1, 2, 3, 4 :: nat] (ring_new 0 3) = Inr r \<and> ring_last_n r 100 = [2, 3, 4]"
  using ring_last_n_of_pushes [of 3 "[1, 2, 3, 4 :: nat]" 0 100] by (simp add: take_last_def)

end
