(* ===== verification/Binary64.thy ===== *)
theory Binary64
  imports Prelude
begin

text \<open>
  C++ \<open>double\<close> as the program uses it: IEEE-754 binary64 values (not-a-number, the
  infinities, rational numbers), the comparisons, multiplication, division and the
  conversion from \<open>uint64_t\<close>, each rounded to nearest, ties to even, with 53 significant
  bits, gradual underflow and overflow to infinity. The sign of zero is not represented:
  no comparison of the program can tell the two zeros apart. What the components need of
  rounding is the \<open>rounding\<close> contract, provided by \<open>round64\<close>.
\<close>

section \<open>Values and comparisons\<close>

datatype double = NaN | Inf bool | Fin rat

text \<open>\<open>Inf True\<close> is minus infinity. Every comparison with NaN is false.\<close>

fun d_le :: "double \<Rightarrow> double \<Rightarrow> bool" where
  "d_le NaN _ = False"
| "d_le _ NaN = False"
| "d_le (Inf s) (Inf t) = (s \<or> \<not> t)"
| "d_le (Inf s) (Fin _) = s"
| "d_le (Fin _) (Inf t) = (\<not> t)"
| "d_le (Fin a) (Fin b) = (a \<le> b)"

definition d_lt :: "double \<Rightarrow> double \<Rightarrow> bool" where
  "d_lt a b \<longleftrightarrow> d_le a b \<and> \<not> d_le b a"

abbreviation d_ge :: "double \<Rightarrow> double \<Rightarrow> bool" where
  "d_ge a b \<equiv> d_le b a"

abbreviation d_gt :: "double \<Rightarrow> double \<Rightarrow> bool" where
  "d_gt a b \<equiv> d_lt b a"

definition isnan :: "double \<Rightarrow> bool" where
  "isnan a \<longleftrightarrow> a = NaN"

lemma d_lt_Fin [simp]: "d_lt (Fin a) (Fin b) = (a < b)"
  by (auto simp: d_lt_def)

lemma d_le_trans: "d_le a b \<Longrightarrow> d_le b c \<Longrightarrow> d_le a c"
  by (cases a; cases b; cases c) auto

lemma d_le_total: "a \<noteq> NaN \<Longrightarrow> b \<noteq> NaN \<Longrightarrow> d_le a b \<or> d_le b a"
  by (cases a; cases b) auto

lemma d_lt_iff: "d_lt a b \<longleftrightarrow> a \<noteq> NaN \<and> b \<noteq> NaN \<and> \<not> d_le b a"
  by (cases a; cases b) (auto simp: d_lt_def)

section \<open>Rounding\<close>

text \<open>Round a rational to the nearest integer, ties to even.\<close>

definition round_even :: "rat \<Rightarrow> int" where
  "round_even x = (let f = \<lfloor>x\<rfloor>; r = x - of_int f in
     if r < 1 / 2 then f else if 1 / 2 < r then f + 1 else if even f then f else f + 1)"

text \<open>
  The exponent of the last of the 53 bits of a positive rational, not below the exponent
  \<open>-1074\<close> of the smallest positive double.
\<close>

definition ulp_exp :: "rat \<Rightarrow> int" where
  "ulp_exp q = (let (n, d) = quotient_of q;
                    e = bitlen n - bitlen d - 53;
                    e' = (if 2 ^ 53 * 2 powi e \<le> q then e + 1 else e)
                in max e' (- 1074))"

definition round_pos :: "rat \<Rightarrow> rat" where
  "round_pos q = of_int (round_even (q / 2 powi ulp_exp q)) * 2 powi ulp_exp q"

definition round64 :: "rat \<Rightarrow> double" where
  "round64 q =
     (if q = 0 then Fin 0
      else let v = round_pos \<bar>q\<bar> in
        if 2 ^ 1024 \<le> v then Inf (q < 0) else Fin (if q < 0 then - v else v))"

definition d_of_u64 :: "nat \<Rightarrow> double" where
  "d_of_u64 n = round64 (of_nat n)"

fun d_neg :: "double \<Rightarrow> bool" where
  "d_neg NaN = False"
| "d_neg (Inf s) = s"
| "d_neg (Fin a) = (a < 0)"

fun d_mul :: "double \<Rightarrow> double \<Rightarrow> double" where
  "d_mul (Fin a) (Fin b) = round64 (a * b)"
| "d_mul NaN _ = NaN"
| "d_mul _ NaN = NaN"
| "d_mul (Inf s) b = (if b = Fin 0 then NaN else Inf (s \<noteq> d_neg b))"
| "d_mul a (Inf t) = (if a = Fin 0 then NaN else Inf (d_neg a \<noteq> t))"

fun d_div :: "double \<Rightarrow> double \<Rightarrow> double" where
  "d_div (Fin a) (Fin b) =
     (if b = 0 then (if a = 0 then NaN else Inf (a < 0)) else round64 (a / b))"
| "d_div NaN _ = NaN"
| "d_div _ NaN = NaN"
| "d_div (Inf s) (Inf t) = NaN"
| "d_div (Inf s) (Fin b) = Inf (s \<noteq> (b < 0))"
| "d_div (Fin a) (Inf t) = Fin 0"

section \<open>Rounding is monotone and exact on small integers\<close>

lemma round_even_bounds: "x - 1 / 2 \<le> of_int (round_even x) \<and> of_int (round_even x) \<le> x + 1 / 2"
  by (auto simp: round_even_def Let_def; linarith)

lemma round_even_int [simp]: "round_even (of_int k) = k"
  by (simp add: round_even_def)

lemma round_even_mono:
  assumes "x \<le> y"
  shows "round_even x \<le> round_even y"
proof (cases "\<lfloor>x\<rfloor> = \<lfloor>y\<rfloor>")
  case True
  with assms show ?thesis by (auto simp: round_even_def Let_def)
next
  case False
  then have "\<lfloor>x\<rfloor> < \<lfloor>y\<rfloor>" using floor_mono [OF assms] by simp
  moreover have "round_even x \<le> \<lfloor>x\<rfloor> + 1" and "\<lfloor>y\<rfloor> \<le> round_even y"
    by (auto simp: round_even_def Let_def)
  ultimately show ?thesis by simp
qed


text \<open>Powers of two as rationals.\<close>

abbreviation p2 :: "int \<Rightarrow> rat" where
  "p2 e \<equiv> 2 powi e"

lemma p2_pos [simp]: "0 < p2 e"
  by (rule zero_less_power_int) simp

lemma p2_add: "p2 (a + b) = p2 a * p2 b"
  by (simp add: power_int_add)

lemma p2_mono: "a \<le> b \<Longrightarrow> p2 a \<le> p2 b"
  by (rule power_int_increasing) simp_all

lemma p2_le_iff: "p2 a \<le> p2 b \<longleftrightarrow> a \<le> b"
  using power_int_strict_increasing [of b a "2 :: rat"] p2_mono [of a b] by force

lemma p2_nat: "0 \<le> e \<Longrightarrow> p2 e = of_int (2 ^ nat e)"
  by (simp add: power_int_def)

lemma quotient_bitlen:
  assumes "0 < q" and "quotient_of q = (n, d)"
  shows "p2 (bitlen n - bitlen d - 1) < q \<and> q < p2 (bitlen n - bitlen d + 1)"
proof -
  have d: "0 < d" using assms(2) by (rule quotient_of_denom_pos)
  have q: "q = of_int n / of_int d" using assms(2) by (rule quotient_of_div)
  have n: "0 < n" using assms(1) d by (simp add: q zero_less_divide_iff)
  have pos: "1 \<le> bitlen n" "1 \<le> bitlen d"
    using n d bitlen_nonneg [of n] bitlen_nonneg [of d] bitlen_eq_zero_iff [of n] bitlen_eq_zero_iff [of d]
    by linarith+
  have bn: "p2 (bitlen n - 1) \<le> of_int n" "of_int n < p2 (bitlen n)"
    using bitlen_bounds [OF n] pos by (simp_all add: p2_nat del: of_int_power)
  have bd: "p2 (bitlen d - 1) \<le> of_int d" "of_int d < p2 (bitlen d)"
    using bitlen_bounds [OF d] pos by (simp_all add: p2_nat del: of_int_power)
  have dq: "0 < (of_int d :: rat)" using d by simp
  have "p2 (bitlen n - bitlen d - 1) * of_int d < p2 (bitlen n - bitlen d - 1) * p2 (bitlen d)"
    using bd(2) by (simp add: mult_strict_left_mono)
  also have "\<dots> = p2 (bitlen n - 1)" by (simp add: p2_add [symmetric])
  also note bn(1)
  finally have lo: "p2 (bitlen n - bitlen d - 1) * of_int d < of_int n" .
  note bn(2)
  also have "p2 (bitlen n) = p2 (bitlen n - bitlen d + 1) * p2 (bitlen d - 1)"
    by (simp add: p2_add [symmetric])
  also have "\<dots> \<le> p2 (bitlen n - bitlen d + 1) * of_int d"
    using bd(1) by (simp add: mult_left_mono less_imp_le)
  finally have "of_int n < p2 (bitlen n - bitlen d + 1) * of_int d" .
  with lo dq show ?thesis by (simp add: q pos_less_divide_eq pos_divide_less_eq)
qed

lemma ulp_exp_bounds:
  assumes "0 < q"
  shows "q < p2 (ulp_exp q + 53)" and "ulp_exp q = - 1074 \<or> p2 (ulp_exp q + 52) \<le> q"
    and "- 1074 \<le> ulp_exp q"
proof -
  obtain n d where nd: "quotient_of q = (n, d)" by (cases "quotient_of q")
  define e where "e = bitlen n - bitlen d - 53"
  define e' where "e' = (if p2 (e + 53) \<le> q then e + 1 else e)"
  have "2 ^ 53 * p2 e = p2 (e + 53)" by (simp add: p2_add)
  then have u: "ulp_exp q = max e' (- 1074)"
    by (simp add: ulp_exp_def nd e'_def Let_def flip: e_def)
  have "p2 (e + 52) < q" "q < p2 (e + 54)"
    using quotient_bitlen [OF assms nd] by (simp_all add: e_def algebra_simps)
  then have e': "p2 (e' + 52) \<le> q" "q < p2 (e' + 53)"
    by (auto simp: e'_def add.commute add.left_commute)
  then show "q < p2 (ulp_exp q + 53)"
    using p2_mono [of "e' + 53" "ulp_exp q + 53"] by (simp add: u)
  show "ulp_exp q = - 1074 \<or> p2 (ulp_exp q + 52) \<le> q"
    using e'(1) by (auto simp: u max_def)
  show "- 1074 \<le> ulp_exp q" by (simp add: u)
qed

lemma ulp_exp_mono:
  assumes "0 < p" and "p \<le> q"
  shows "ulp_exp p \<le> ulp_exp q"
proof (rule ccontr)
  assume "\<not> ?thesis"
  then have lt: "ulp_exp q + 1 \<le> ulp_exp p" by simp
  with ulp_exp_bounds(3) [of q] assms have "ulp_exp p \<noteq> - 1074" by simp
  then have "p2 (ulp_exp p + 52) \<le> p" using ulp_exp_bounds(2) assms(1) by blast
  moreover have "p2 (ulp_exp q + 53) \<le> p2 (ulp_exp p + 52)" using lt by (intro p2_mono) simp
  moreover have "q < p2 (ulp_exp q + 53)" using assms by (intro ulp_exp_bounds) simp
  ultimately show False using assms(2) by simp
qed

lemma round_pos_lower:
  assumes "0 < q" and "p2 (ulp_exp q + 52) \<le> q"
  shows "p2 (ulp_exp q + 52) \<le> round_pos q"
proof -
  have "of_int (2 ^ 52) \<le> q / p2 (ulp_exp q)"
    using assms(2) by (simp add: p2_add pos_le_divide_eq mult.commute)
  then have "2 ^ 52 \<le> round_even (q / p2 (ulp_exp q))"
    using round_even_mono [of "of_int (2 ^ 52)"] by (simp only: round_even_int)
  then have "of_int (2 ^ 52) \<le> (of_int (round_even (q / p2 (ulp_exp q))) :: rat)"
    by (simp only: of_int_le_iff)
  then show ?thesis
    by (simp add: round_pos_def p2_add mult.commute)
qed

lemma round_pos_upper:
  assumes "0 < q"
  shows "round_pos q \<le> p2 (ulp_exp q + 53)"
proof -
  have "q / p2 (ulp_exp q) \<le> of_int (2 ^ 53)"
    using ulp_exp_bounds(1) [OF assms] by (simp add: p2_add pos_divide_le_eq mult.commute)
  then have "round_even (q / p2 (ulp_exp q)) \<le> 2 ^ 53"
    using round_even_mono [of _ "of_int (2 ^ 53)"] by (simp only: round_even_int)
  then have "(of_int (round_even (q / p2 (ulp_exp q))) :: rat) \<le> of_int (2 ^ 53)"
    by (simp only: of_int_le_iff)
  then show ?thesis
    by (simp add: round_pos_def p2_add mult.commute)
qed

lemma round_pos_mono:
  assumes "0 < p" and "p \<le> q"
  shows "round_pos p \<le> round_pos q"
proof (cases "ulp_exp p = ulp_exp q")
  case True
  have "p / p2 (ulp_exp p) \<le> q / p2 (ulp_exp q)"
    using assms True by (simp add: divide_right_mono less_imp_le)
  then show ?thesis
    using True by (simp add: round_pos_def round_even_mono)
next
  case False
  with ulp_exp_mono [OF assms] have lt: "ulp_exp p + 1 \<le> ulp_exp q" by simp
  have q: "0 < q" using assms by simp
  have "ulp_exp q \<noteq> - 1074" using lt ulp_exp_bounds(3) [OF assms(1)] by simp
  then have "p2 (ulp_exp q + 52) \<le> round_pos q"
    using ulp_exp_bounds(2) [OF q] round_pos_lower [OF q] by blast
  moreover have "p2 (ulp_exp p + 53) \<le> p2 (ulp_exp q + 52)" using lt by (intro p2_mono) simp
  ultimately show ?thesis using round_pos_upper [OF assms(1)] by simp
qed


lemma round_pos_int:
  assumes "0 < k" and "k \<le> 2 ^ 53"
  shows "round_pos (of_int k) = of_int k"
proof -
  let ?q = "of_int k :: rat" and ?e = "ulp_exp (of_int k)"
  have q: "0 < ?q" using assms by simp
  have "?e = - 1074 \<or> p2 (?e + 52) \<le> p2 53"
    using ulp_exp_bounds(2) [OF q] assms(2) by (force simp: p2_nat)
  then have e: "?e \<le> 1" by (simp only: p2_le_iff) linarith
  show ?thesis
  proof (cases "?e \<le> 0")
    case True
    have "?q / p2 ?e = ?q * p2 (- ?e)" by (simp add: power_int_minus divide_inverse)
    also have "\<dots> = of_int (k * 2 ^ nat (- ?e))" using True by (simp add: p2_nat)
    finally have "round_pos ?q = of_int (k * 2 ^ nat (- ?e)) * p2 ?e"
      by (simp only: round_pos_def round_even_int)
    also have "\<dots> = ?q * (p2 (- ?e) * p2 ?e)" using True by (simp add: p2_nat)
    also have "p2 (- ?e) * p2 ?e = 1" by (simp add: p2_add [symmetric])
    finally show ?thesis by simp
  next
    case False
    with e have e1: "?e = 1" by simp
    then have "p2 53 \<le> ?q" using ulp_exp_bounds(2) [OF q] by simp
    then have "k = 2 ^ 53" using assms(2) by (simp add: p2_nat)
    moreover have "?q / 2 = of_int (2 ^ 52)" using \<open>k = 2 ^ 53\<close> by simp
    then have "round_even (?q / 2) = 2 ^ 52" by (simp only: round_even_int)
    moreover have "round_pos ?q = of_int (round_even (?q / 2)) * 2"
      by (simp only: round_pos_def e1 power_int_1_right)
    ultimately show ?thesis by simp
  qed
qed

lemma round_pos_nonneg: "0 < q \<Longrightarrow> 0 \<le> round_pos q"
proof -
  assume "0 < q"
  then have "round_even (of_int 0) \<le> round_even (q / p2 (ulp_exp q))"
    by (intro round_even_mono) (simp add: less_imp_le)
  then show ?thesis by (simp add: round_pos_def del: of_int_0)
qed

lemma round64_mono_nonneg:
  assumes "0 \<le> p" and "p \<le> q"
  shows "d_le (round64 p) (round64 q)"
  using assms round_pos_mono [of p q] round_pos_nonneg [of q]
  by (auto simp: round64_def Let_def)

lemma round64_int:
  assumes "0 \<le> k" and "k \<le> 2 ^ 53"
  shows "round64 (of_int k) = Fin (of_int k)"
proof -
  have "(of_int k :: rat) \<le> of_int (2 ^ 53)" using assms(2) by (simp only: of_int_le_iff)
  also have "\<dots> < 2 ^ 1024" by simp
  finally show ?thesis
    using assms round_pos_int [of k] by (auto simp: round64_def Let_def)
qed

lemma round64_finite:
  assumes "0 \<le> q" and "q < p2 1000"
  shows "\<exists>v. round64 q = Fin v \<and> 0 \<le> v"
proof (cases "q = 0")
  case True
  then show ?thesis by (simp add: round64_def)
next
  case False
  with assms have q: "0 < q" by simp
  have "ulp_exp q + 53 \<le> 1001"
  proof (cases "ulp_exp q = - 1074")
    case False
    then have "p2 (ulp_exp q + 52) \<le> p2 1000"
      using ulp_exp_bounds(2) [OF q] assms(2) by simp
    then have "ulp_exp q + 52 \<le> 1000" by (simp only: p2_le_iff)
    then show ?thesis by simp
  qed simp
  then have "p2 (ulp_exp q + 53) \<le> p2 1001" by (intro p2_mono)
  moreover have "p2 1001 < p2 1024" by (simp only: not_le [symmetric] p2_le_iff)
  ultimately have "round_pos q < 2 ^ 1024"
    using round_pos_upper [OF q] by simp
  then show ?thesis using q round_pos_nonneg [OF q] by (auto simp: round64_def Let_def)
qed


section \<open>The contract of rounding\<close>

text \<open>
  What the components rely on when they compute percentages: conversion, multiplication by
  100 and division are monotone, exact on integers up to \<open>2 ^ 53\<close> and finite on the
  magnitudes that occur.
\<close>

locale rounding =
  fixes rnd :: "rat \<Rightarrow> double"
  assumes rnd_mono: "0 \<le> p \<Longrightarrow> p \<le> q \<Longrightarrow> d_le (rnd p) (rnd q)"
    and rnd_int: "0 \<le> k \<Longrightarrow> k \<le> 2 ^ 53 \<Longrightarrow> rnd (of_int k) = Fin (of_int k)"
    and rnd_finite: "0 \<le> q \<Longrightarrow> q < p2 1000 \<Longrightarrow> \<exists>v. rnd q = Fin v \<and> 0 \<le> v"
begin

lemma rnd_ge_int:
  assumes "0 \<le> k" and "k \<le> 2 ^ 53" and "of_int k \<le> q"
  shows "d_ge (rnd q) (Fin (of_int k))"
  using rnd_mono [of "of_int k" q] assms by (simp add: rnd_int)

lemma rnd_le_int:
  assumes "0 \<le> k" and "k \<le> 2 ^ 53" and "0 \<le> q" and "q \<le> of_int k"
  shows "d_le (rnd q) (Fin (of_int k))"
  using rnd_mono [of q "of_int k"] assms by (simp add: rnd_int)

lemma rnd_small:
  assumes "0 \<le> q" and "q \<le> of_int k" and "k \<le> 2 ^ 53"
  obtains v where "rnd q = Fin v" and "0 \<le> v" and "v \<le> of_int k"
proof -
  have k: "0 \<le> k" using assms(1,2) by (metis of_int_0_le_iff order_trans)
  have "q \<le> of_int (2 ^ 53)" using assms(2,3) by (meson of_int_le_iff order_trans)
  also have "\<dots> = p2 53" by simp
  also have "\<dots> < p2 1000" by (simp only: not_le [symmetric] p2_le_iff)
  finally obtain v where v: "rnd q = Fin v" "0 \<le> v" using rnd_finite assms(1) by blast
  moreover have "v \<le> of_int k" using rnd_le_int [OF k assms(3,1,2)] v by simp
  ultimately show ?thesis using that by blast
qed

end

interpretation b64: rounding round64
  by unfold_locales (rule round64_mono_nonneg, assumption+, rule round64_int, assumption+,
    rule round64_finite)

lemma d_of_u64_int: "n \<le> 2 ^ 53 \<Longrightarrow> d_of_u64 n = Fin (of_nat n)"
  using b64.rnd_int [of "int n"] by (simp add: d_of_u64_def)

lemma d_of_u64_finite:
  assumes "n < 2 ^ 64"
  shows "\<exists>v. d_of_u64 n = Fin v \<and> 0 \<le> v"
proof -
  have "(of_nat n :: rat) < of_nat (2 ^ 64)" using assms by (simp only: of_nat_less_iff)
  also have "\<dots> = p2 64" by simp
  also have "\<dots> < p2 1000" by (simp only: not_le [symmetric] p2_le_iff)
  finally show ?thesis unfolding d_of_u64_def by (intro b64.rnd_finite) simp_all
qed

lemma d_of_u64_pos:
  assumes "0 < n" and "n < 2 ^ 64"
  shows "\<exists>v. d_of_u64 n = Fin v \<and> 1 \<le> v"
proof -
  have "d_ge (d_of_u64 n) (Fin (of_int 1))"
    unfolding d_of_u64_def using assms(1) by (intro b64.rnd_ge_int) simp_all
  with d_of_u64_finite [OF assms(2)] show ?thesis by auto
qed

lemma d_of_u64_mono: "m \<le> n \<Longrightarrow> d_le (d_of_u64 m) (d_of_u64 n)"
  by (simp add: d_of_u64_def b64.rnd_mono)

end
