(* ===== verification/Resource_Governor.thy ===== *)
theory Resource_Governor
  imports Binary64
begin

text \<open>
  \<open>ResourceGovernor\<close> (\<open>src/governor/resource_governor.cpp\<close>,
  \<open>include/heidi-kernel/resource_governor.h\<close>): the pure admission decision over CPU load,
  memory load and job counts, and the validated replacement of the policy. The class holds
  one field, the policy, so the object is its policy here.
\<close>

section \<open>Data\<close>

datatype GovernorDecision = START_NOW | HOLD_QUEUE | REJECT_QUEUE_FULL

datatype BlockReason = BR_NONE | CPU_HIGH | MEM_HIGH | QUEUE_FULL | RUNNING_LIMIT

record GovernorResult =
  decision :: GovernorDecision
  reason :: BlockReason
  retry_after_ms :: nat

record GovernorPolicy =
  max_running_jobs :: int
  max_queue_depth :: int
  cpu_high_watermark_pct :: double
  mem_high_watermark_pct :: double
  cooldown_ms :: nat
  min_start_gap_ms :: nat

definition default_policy :: GovernorPolicy where
  "default_policy = \<lparr>max_running_jobs = 10, max_queue_depth = 100,
     cpu_high_watermark_pct = Fin 85, mem_high_watermark_pct = Fin 90,
     cooldown_ms = 1000, min_start_gap_ms = 100\<rparr>"

record PolicyValidationError =
  err_field :: string
  err_message :: string

record PolicyUpdateResult =
  upd_success :: bool
  effective_policy :: GovernorPolicy
  upd_errors :: "PolicyValidationError list"

section \<open>Operations\<close>

definition decide :: "GovernorPolicy \<Rightarrow> double \<Rightarrow> double \<Rightarrow> int \<Rightarrow> int \<Rightarrow> GovernorResult" where
  "decide policy cpu_pct mem_pct running_jobs queued_jobs =
     (if max_queue_depth policy \<le> queued_jobs then
        \<lparr>decision = REJECT_QUEUE_FULL, reason = QUEUE_FULL, retry_after_ms = cooldown_ms policy\<rparr>
      else if max_running_jobs policy \<le> running_jobs then
        \<lparr>decision = HOLD_QUEUE, reason = RUNNING_LIMIT, retry_after_ms = min_start_gap_ms policy\<rparr>
      else if d_ge cpu_pct (cpu_high_watermark_pct policy) then
        \<lparr>decision = HOLD_QUEUE, reason = CPU_HIGH, retry_after_ms = cooldown_ms policy\<rparr>
      else if d_ge mem_pct (mem_high_watermark_pct policy) then
        \<lparr>decision = HOLD_QUEUE, reason = MEM_HIGH, retry_after_ms = cooldown_ms policy\<rparr>
      else
        \<lparr>decision = START_NOW, reason = BR_NONE, retry_after_ms = 0\<rparr>)"

definition update_policy :: "GovernorPolicy \<Rightarrow> GovernorPolicy \<Rightarrow> GovernorPolicy" where
  "update_policy _ policy = policy"

definition pct_out_of_range :: "double \<Rightarrow> bool" where
  "pct_out_of_range d \<longleftrightarrow> isnan d \<or> d_lt d (Fin 0) \<or> d_gt d (Fin 100)"

text \<open>The new object and the result; \<open>old\<close> is the policy held before the call.\<close>

definition validate_and_update ::
  "GovernorPolicy \<Rightarrow> GovernorPolicy \<Rightarrow> GovernorPolicy \<times> PolicyUpdateResult" where
  "validate_and_update old policy =
     (let e1 = (if max_running_jobs policy < 1 \<or> 1000 < max_running_jobs policy
                then [\<lparr>err_field = ''max_running_jobs'', err_message = ''must be between 1 and 1000''\<rparr>]
                else []);
          e2 = (if max_queue_depth policy < 1 \<or> 10000 < max_queue_depth policy
                then [\<lparr>err_field = ''max_queue_depth'', err_message = ''must be between 1 and 10000''\<rparr>]
                else []);
          e3 = (if pct_out_of_range (cpu_high_watermark_pct policy)
                then [\<lparr>err_field = ''cpu_high_watermark_pct'', err_message = ''must be between 0 and 100''\<rparr>]
                else []);
          e4 = (if pct_out_of_range (mem_high_watermark_pct policy)
                then [\<lparr>err_field = ''mem_high_watermark_pct'', err_message = ''must be between 0 and 100''\<rparr>]
                else []);
          errs = e1 @ e2 @ e3 @ e4
      in if errs = [] then (policy, \<lparr>upd_success = True, effective_policy = policy, upd_errors = []\<rparr>)
         else (old, \<lparr>upd_success = False, effective_policy = old, upd_errors = errs\<rparr>))"

section \<open>The decision\<close>

text \<open>The abstract contract: the limits that are exceeded, in the order of the rules.\<close>

definition exceeded :: "GovernorPolicy \<Rightarrow> double \<Rightarrow> double \<Rightarrow> int \<Rightarrow> int \<Rightarrow> BlockReason list" where
  "exceeded p cpu mem r q =
     filter (\<lambda>b. case b of
         QUEUE_FULL \<Rightarrow> max_queue_depth p \<le> q
       | RUNNING_LIMIT \<Rightarrow> max_running_jobs p \<le> r
       | CPU_HIGH \<Rightarrow> d_ge cpu (cpu_high_watermark_pct p)
       | MEM_HIGH \<Rightarrow> d_ge mem (mem_high_watermark_pct p)
       | BR_NONE \<Rightarrow> False)
     [QUEUE_FULL, RUNNING_LIMIT, CPU_HIGH, MEM_HIGH]"

definition response :: "GovernorPolicy \<Rightarrow> BlockReason \<Rightarrow> GovernorDecision \<times> nat" where
  "response p b = (case b of
       QUEUE_FULL \<Rightarrow> (REJECT_QUEUE_FULL, cooldown_ms p)
     | RUNNING_LIMIT \<Rightarrow> (HOLD_QUEUE, min_start_gap_ms p)
     | CPU_HIGH \<Rightarrow> (HOLD_QUEUE, cooldown_ms p)
     | MEM_HIGH \<Rightarrow> (HOLD_QUEUE, cooldown_ms p)
     | BR_NONE \<Rightarrow> (START_NOW, 0))"

lemma decide_START_NOW:
  "decision (decide p cpu mem r q) = START_NOW \<longleftrightarrow>
     q < max_queue_depth p \<and> r < max_running_jobs p \<and>
     \<not> d_ge cpu (cpu_high_watermark_pct p) \<and> \<not> d_ge mem (mem_high_watermark_pct p)"
  by (auto simp: decide_def)

lemma decide_REJECT:
  "decision (decide p cpu mem r q) = REJECT_QUEUE_FULL \<longleftrightarrow> max_queue_depth p \<le> q"
  by (auto simp: decide_def)

lemma decide_MEM_HIGH:
  "q < max_queue_depth p \<Longrightarrow> r < max_running_jobs p \<Longrightarrow> \<not> d_ge cpu (cpu_high_watermark_pct p) \<Longrightarrow>
   d_ge mem (mem_high_watermark_pct p) \<Longrightarrow>
   decision (decide p cpu mem r q) = HOLD_QUEUE \<and> reason (decide p cpu mem r q) = MEM_HIGH"
  by (auto simp: decide_def)

text \<open>
  the decision is the response to the first exceeded limit, in the order queue depth,
  running jobs, CPU, memory, and a start when no limit is exceeded.
\<close>

theorem decide_first_exceeded:
  "decide p cpu mem r q =
     (let b = (case exceeded p cpu mem r q of [] \<Rightarrow> BR_NONE | b # _ \<Rightarrow> b)
      in \<lparr>decision = fst (response p b), reason = b, retry_after_ms = snd (response p b)\<rparr>)"
  by (auto simp: decide_def exceeded_def response_def)

text \<open>
  admission is monotone: when a start is allowed under some load, it is allowed under
  any load that is nowhere higher (an unordered NaN reading is excluded by the comparisons).
\<close>

theorem decide_monotone:
  assumes "decision (decide p cpu mem r q) = START_NOW"
    and "d_le cpu' cpu" and "d_le mem' mem" and "r' \<le> r" and "q' \<le> q"
  shows "decision (decide p cpu' mem' r' q') = START_NOW"
  using assms d_le_trans unfolding decide_START_NOW by (metis le_less_trans)

theorem decide_monotone_witness:
  "decision (decide default_policy (Fin 10) (Fin 20) 2 50) = START_NOW"
  by (rule decide_monotone [of default_policy "Fin 80" "Fin 89" 9 99])
    (simp_all add: decide_def default_policy_def)

section \<open>Policy updates\<close>

definition pct_valid :: "double \<Rightarrow> bool" where
  "pct_valid d \<longleftrightarrow> (\<exists>v. d = Fin v \<and> 0 \<le> v \<and> v \<le> 100)"

definition policy_valid :: "GovernorPolicy \<Rightarrow> bool" where
  "policy_valid p \<longleftrightarrow> 1 \<le> max_running_jobs p \<and> max_running_jobs p \<le> 1000 \<and>
     1 \<le> max_queue_depth p \<and> max_queue_depth p \<le> 10000 \<and>
     pct_valid (cpu_high_watermark_pct p) \<and> pct_valid (mem_high_watermark_pct p)"

lemma pct_out_of_range_iff: "pct_out_of_range d \<longleftrightarrow> \<not> pct_valid d"
  by (cases d) (auto simp: pct_out_of_range_def pct_valid_def isnan_def d_lt_def)

lemma default_policy_valid: "policy_valid default_policy"
  by (simp add: policy_valid_def default_policy_def pct_valid_def)

lemma validate_success_iff: "upd_success (snd (validate_and_update old p)) \<longleftrightarrow> policy_valid p"
  by (auto simp: validate_and_update_def Let_def policy_valid_def pct_out_of_range_iff)

lemma validate_installs:
  "fst (validate_and_update old p) = (if policy_valid p then p else old)"
  by (auto simp: validate_and_update_def Let_def policy_valid_def pct_out_of_range_iff)

definition bad_fields :: "GovernorPolicy \<Rightarrow> string set" where
  "bad_fields p =
     {f. (f = ''max_running_jobs'' \<and> max_running_jobs p \<notin> {1..1000}) \<or>
         (f = ''max_queue_depth'' \<and> max_queue_depth p \<notin> {1..10000}) \<or>
         (f = ''cpu_high_watermark_pct'' \<and> \<not> pct_valid (cpu_high_watermark_pct p)) \<or>
         (f = ''mem_high_watermark_pct'' \<and> \<not> pct_valid (mem_high_watermark_pct p))}"

text \<open>
  an update is all or nothing: it is installed and reported as effective exactly when
  every field is in range (NaN is not); otherwise the policy in force stays, is reported as
  effective, and the errors name exactly the fields out of range.
\<close>

theorem validate_and_update_spec:
  "case validate_and_update old p of (new, res) \<Rightarrow>
     effective_policy res = new \<and>
     (upd_success res \<longleftrightarrow> policy_valid p) \<and>
     new = (if policy_valid p then p else old) \<and>
     err_field ` set (upd_errors res) = bad_fields p \<and>
     distinct (map err_field (upd_errors res))"
  unfolding validate_and_update_def Let_def policy_valid_def pct_out_of_range_iff bad_fields_def
  by (auto simp: not_less)

text \<open>
  whatever sequence of candidate policies is submitted, the policy in force is valid,
  starting from the default one.
\<close>

theorem policy_in_force_valid:
  "policy_valid (foldl (\<lambda>cur p. fst (validate_and_update cur p)) default_policy ps)"
proof (induction ps rule: rev_induct)
  case Nil
  then show ?case by (simp add: default_policy_valid)
next
  case (snoc p ps)
  then show ?case
    by (simp add: validate_installs)
qed

end
