(* ===== verification/Gov_Rule.thy ===== *)
theory Gov_Rule
  imports Prelude
begin

text \<open>
  The \<open>GOV_APPLY\<close> message and its parser (\<open>include/heidi-kernel/gov_rule.h\<close>,
  \<open>src/governor/gov_rule.cpp\<close>). A \<open>std::string_view\<close> that the parser advances is the rest
  of the text; a failed parse of a value is \<open>None\<close>. The loops over the fields of an object
  take fuel, and the length of the text is shown to be enough. Reads that C++ leaves
  undefined and the exception of \<open>std::stoll\<close>/\<open>std::stoull\<close> are values of the result.
\<close>

section \<open>Data\<close>

definition kMaxPayloadSize :: nat where "kMaxPayloadSize = 512"

datatype AckCode =
    ACK
  | NACK_INVALID_PAYLOAD
  | NACK_INVALID_PID
  | NACK_INVALID_RANGE
  | NACK_PARSE_ERROR
  | NACK_UNKNOWN_FIELD
  | NACK_QUEUE_FULL
  | NACK_PROCESS_DEAD

record CpuPolicy =
  affinity :: "string option"
  nice :: "int option"
  max_pct :: "nat option"

record MemPolicy =
  max_bytes :: "nat option"

record PidsPolicy =
  pids_max :: "nat option"

record RlimPolicy =
  nofile_soft :: "nat option"
  nofile_hard :: "nat option"
  core_soft :: "nat option"
  core_hard :: "nat option"

record GovApplyMsg =
  msg_pid :: int
  msg_cpu :: "CpuPolicy option"
  msg_mem :: "MemPolicy option"
  msg_pids :: "PidsPolicy option"
  msg_rlim :: "RlimPolicy option"
  msg_oom_score_adj :: "int option"

definition empty_msg :: GovApplyMsg where
  "empty_msg = \<lparr>msg_pid = 0, msg_cpu = None, msg_mem = None, msg_pids = None, msg_rlim = None,
     msg_oom_score_adj = None\<rparr>"

definition empty_cpu :: CpuPolicy where
  "empty_cpu = \<lparr>affinity = None, nice = None, max_pct = None\<rparr>"

definition empty_rlim :: RlimPolicy where
  "empty_rlim = \<lparr>nofile_soft = None, nofile_hard = None, core_soft = None, core_hard = None\<rparr>"

record ParseResult =
  success :: bool
  ack :: AckCode
  msg :: GovApplyMsg
  error_detail :: string

fun ack_to_string :: "AckCode \<Rightarrow> string" where
  "ack_to_string ACK = ''ACK''"
| "ack_to_string NACK_INVALID_PAYLOAD = ''NACK_INVALID_PAYLOAD''"
| "ack_to_string NACK_INVALID_PID = ''NACK_INVALID_PID''"
| "ack_to_string NACK_INVALID_RANGE = ''NACK_INVALID_RANGE''"
| "ack_to_string NACK_PARSE_ERROR = ''NACK_PARSE_ERROR''"
| "ack_to_string NACK_UNKNOWN_FIELD = ''NACK_UNKNOWN_FIELD''"
| "ack_to_string NACK_QUEUE_FULL = ''NACK_QUEUE_FULL''"
| "ack_to_string NACK_PROCESS_DEAD = ''NACK_PROCESS_DEAD''"

text \<open>
  What a parsing step gives: a value, a rejection (with the policy built so far, which the
  caller still sees), an undefined read or an uncaught exception, or no result within the fuel.
\<close>

datatype ('a, 'p) parse = Ok 'a | Nack AckCode string 'p | Crash fault | Diverge

section \<open>Lexical helpers\<close>

definition is_whitespace :: "char \<Rightarrow> bool" where
  "is_whitespace c \<longleftrightarrow> c = CHR '' '' \<or> c = CHR 0x09 \<or> c = CHR 0x0A \<or> c = CHR 0x0D"

definition skip_whitespace :: "string \<Rightarrow> string" where
  "skip_whitespace s = dropWhile is_whitespace s"

definition trim :: "string \<Rightarrow> string" where
  "trim s = dropWhile is_whitespace (rev (dropWhile is_whitespace (rev s)))"

text \<open>
  The scan for the closing quote: an escaped character is skipped with its backslash, a
  backslash that ends the text is not an escape. The text before the quote and the rest.
\<close>

fun scan_quoted :: "string \<Rightarrow> (string \<times> string) option" where
  "scan_quoted [] = None"
| "scan_quoted (c # cs) =
     (if c = CHR 0x22 then Some ([], cs)
      else if c = CHR 0x5C then
        (case cs of
           [] \<Rightarrow> None
         | d # ds \<Rightarrow> (case scan_quoted ds of None \<Rightarrow> None | Some (k, r) \<Rightarrow> Some (c # d # k, r)))
      else (case scan_quoted cs of None \<Rightarrow> None | Some (k, r) \<Rightarrow> Some (c # k, r)))"

definition parse_string_value :: "string \<Rightarrow> (string \<times> string) option" where
  "parse_string_value s = (let s = skip_whitespace s in
     case s of [] \<Rightarrow> None | c # cs \<Rightarrow> if c \<noteq> CHR 0x22 then None else scan_quoted cs)"

definition parse_key :: "string \<Rightarrow> (string \<times> string) option" where
  "parse_key s = (let s = skip_whitespace s in
     case s of [] \<Rightarrow> None | c # cs \<Rightarrow> if c \<noteq> CHR 0x22 then None else scan_quoted cs)"

definition consume_colon :: "string \<Rightarrow> string option" where
  "consume_colon s = (let s = skip_whitespace s in
     case s of [] \<Rightarrow> None | c # cs \<Rightarrow> if c = CHR '':'' then Some cs else None)"

section \<open>Numbers\<close>

text \<open>\<open>Inl\<close> is the exception of \<open>std::stoll\<close>, \<open>Inr None\<close> a value that does not parse.\<close>

definition parse_int_value :: "string \<Rightarrow> (int \<times> string) option outcome" where
  "parse_int_value s =
     (let s = skip_whitespace s;
          start = (if s \<noteq> [] \<and> hd s = CHR ''-'' then 1 else 0);
          digits = takeWhile is_digit (drop start s)
      in if digits = [] then Inr None
         else (case stoll (take start s @ digits) of
                 Inl e \<Rightarrow> Inl e
               | Inr v \<Rightarrow> Inr (Some (v, drop (start + length digits) s))))"

definition parse_uint_value :: "string \<Rightarrow> (nat \<times> string) option outcome" where
  "parse_uint_value s =
     (let s = skip_whitespace s;
          digits = takeWhile is_digit s
      in if digits = [] then Inr None
         else (case stoull digits of
                 Inl e \<Rightarrow> Inl e
               | Inr v \<Rightarrow> Inr (Some (v, drop (length digits) s))))"

definition parse_uint8_value :: "string \<Rightarrow> (nat \<times> string) option outcome" where
  "parse_uint8_value s = (case parse_uint_value s of
       Inl e \<Rightarrow> Inl e
     | Inr None \<Rightarrow> Inr None
     | Inr (Some (v, r)) \<Rightarrow> if 255 < v then Inr None else Inr (Some (v, r)))"

definition parse_int8_value :: "string \<Rightarrow> (int \<times> string) option outcome" where
  "parse_int8_value s = (case parse_int_value s of
       Inl e \<Rightarrow> Inl e
     | Inr None \<Rightarrow> Inr None
     | Inr (Some (v, r)) \<Rightarrow> if v < - 128 \<or> 127 < v then Inr None else Inr (Some (v, r)))"

section \<open>Objects\<close>

text \<open>
  The brace matching that cuts an object value out of the text; quotes are not looked at,
  and the text may end before the braces balance. \<open>match_braces\<close> starts behind the first
  brace at depth 1.
\<close>

fun match_braces :: "nat \<Rightarrow> string \<Rightarrow> string \<times> string" where
  "match_braces d [] = ([], [])"
| "match_braces d (c # cs) =
     (if d = 0 then ([], c # cs)
      else let d' = (if c = CHR ''{'' then d + 1 else if c = CHR ''}'' then d - 1 else d);
               (a, b) = match_braces d' cs
           in (c # a, b))"

definition split_object :: "string \<Rightarrow> string \<times> string" where
  "split_object s = (case s of [] \<Rightarrow> ([], [])
     | c # cs \<Rightarrow> let (a, b) = match_braces 1 cs in (c # a, b))"

text \<open>
  Cutting off the braces: \<open>remove_suffix(1)\<close> on the empty view that is left of a lone brace is
  undefined (\<open>None\<close>).
\<close>

definition strip_braces :: "string \<Rightarrow> string option" where
  "strip_braces obj = (let t = tl (trim obj) in
     if t = [] then None else Some (trim (butlast t)))"

text \<open>Behind a field: an optional comma.\<close>

definition next_field :: "string \<Rightarrow> string" where
  "next_field s = (let s = skip_whitespace s in
     case s of [] \<Rightarrow> [] | c # cs \<Rightarrow> if c = CHR '','' then trim cs else s)"

text \<open>
  The loop over the fields of an object, shared by the message and its four sub-objects,
  whose copies in the source differ in the handled keys and the texts of the errors.
\<close>

type_synonym 'p handler = "string \<Rightarrow> string \<Rightarrow> 'p \<Rightarrow> ('p \<times> string, 'p) parse"

fun parse_fields ::
  "nat \<Rightarrow> 'p handler \<Rightarrow> string \<Rightarrow> string \<Rightarrow> string \<Rightarrow> 'p \<Rightarrow> ('p, 'p) parse" where
  "parse_fields fuel field bad_key no_colon [] p = Ok p"
| "parse_fields 0 field bad_key no_colon s p = Diverge"
| "parse_fields (Suc fuel) field bad_key no_colon s p =
     (case parse_key s of
        None \<Rightarrow> Nack NACK_PARSE_ERROR bad_key p
      | Some (key, s1) \<Rightarrow>
          (case consume_colon s1 of
             None \<Rightarrow> Nack NACK_PARSE_ERROR no_colon p
           | Some s2 \<Rightarrow>
               (case field key s2 p of
                  Ok (p', s3) \<Rightarrow> parse_fields fuel field bad_key no_colon (next_field s3) p'
                | Nack a e q \<Rightarrow> Nack a e q
                | Crash f \<Rightarrow> Crash f
                | Diverge \<Rightarrow> Diverge)))"

definition parse_object :: "string \<Rightarrow> 'p handler \<Rightarrow> string \<Rightarrow> 'p \<Rightarrow> ('p \<times> string, 'p) parse" where
  "parse_object name field s p =
     (if s = [] \<or> hd s \<noteq> CHR ''{'' then Nack NACK_PARSE_ERROR (name @ '' must be an object'') p
      else let (obj, rest) = split_object s in
        (case strip_braces obj of
           None \<Rightarrow> Crash Undefined_Behaviour
         | Some body \<Rightarrow>
             (case parse_fields (length body) field (''failed to parse '' @ name @ '' sub-key'')
                     (''missing colon in '' @ name @ '' object'') body p of
                Ok p' \<Rightarrow> Ok (p', rest)
              | Nack a e q \<Rightarrow> Nack a e q
              | Crash f \<Rightarrow> Crash f
              | Diverge \<Rightarrow> Diverge)))"

text \<open>Storing a parsed value: the exception escapes, a failed parse is a rejection.\<close>

definition store :: "'v option outcome \<Rightarrow> AckCode \<Rightarrow> string \<Rightarrow> 'p \<Rightarrow> ('v \<Rightarrow> ('p \<times> string, 'p) parse) \<Rightarrow>
    ('p \<times> string, 'p) parse" where
  "store r a e p k = (case r of Inl f \<Rightarrow> Crash f | Inr None \<Rightarrow> Nack a e p | Inr (Some v) \<Rightarrow> k v)"


section \<open>The fields of the policies\<close>

definition cpu_field :: "CpuPolicy handler" where
  "cpu_field key s p =
     (if key = ''affinity'' then
        store (Inr (parse_string_value s)) NACK_PARSE_ERROR ''failed to parse affinity value'' p
          (\<lambda>(v, r). Ok (p\<lparr>affinity := Some v\<rparr>, r))
      else if key = ''nice'' then
        store (parse_int8_value s) NACK_INVALID_RANGE ''nice value out of range (-128 to 127)'' p
          (\<lambda>(v, r). Ok (p\<lparr>nice := Some v\<rparr>, r))
      else if key = ''max_pct'' then
        store (parse_uint8_value s) NACK_INVALID_RANGE ''max_pct value out of range (0-255)'' p
          (\<lambda>(v, r). Ok (p\<lparr>max_pct := Some v\<rparr>, r))
      else Nack NACK_UNKNOWN_FIELD (''unknown cpu field: '' @ key) p)"

definition mem_field :: "MemPolicy handler" where
  "mem_field key s p =
     (if key = ''max_bytes'' then
        store (parse_uint_value s) NACK_PARSE_ERROR ''failed to parse max_bytes value'' p
          (\<lambda>(v, r). Ok (p\<lparr>max_bytes := Some v\<rparr>, r))
      else Nack NACK_UNKNOWN_FIELD (''unknown mem field: '' @ key) p)"

definition pids_field :: "PidsPolicy handler" where
  "pids_field key s p =
     (if key = ''max'' then
        store (parse_uint_value s) NACK_PARSE_ERROR ''failed to parse pids max value'' p
          (\<lambda>(v, r). if 0xFFFFFFFF < v then Nack NACK_INVALID_RANGE ''pids max out of range'' p
                    else Ok (p\<lparr>pids_max := Some v\<rparr>, r))
      else Nack NACK_UNKNOWN_FIELD (''unknown pids field: '' @ key) p)"

definition rlim_field :: "RlimPolicy handler" where
  "rlim_field key s p =
     (if key = ''nofile_soft'' then
        store (parse_uint_value s) NACK_PARSE_ERROR ''failed to parse nofile_soft value'' p
          (\<lambda>(v, r). Ok (p\<lparr>nofile_soft := Some v\<rparr>, r))
      else if key = ''nofile_hard'' then
        store (parse_uint_value s) NACK_PARSE_ERROR ''failed to parse nofile_hard value'' p
          (\<lambda>(v, r). Ok (p\<lparr>nofile_hard := Some v\<rparr>, r))
      else if key = ''core_soft'' then
        store (parse_uint_value s) NACK_PARSE_ERROR ''failed to parse core_soft value'' p
          (\<lambda>(v, r). Ok (p\<lparr>core_soft := Some v\<rparr>, r))
      else if key = ''core_hard'' then
        store (parse_uint_value s) NACK_PARSE_ERROR ''failed to parse core_hard value'' p
          (\<lambda>(v, r). Ok (p\<lparr>core_hard := Some v\<rparr>, r))
      else Nack NACK_UNKNOWN_FIELD (''unknown rlim field: '' @ key) p)"

definition parse_cpu :: "string \<Rightarrow> (CpuPolicy \<times> string, CpuPolicy) parse" where
  "parse_cpu s = parse_object ''cpu'' cpu_field s empty_cpu"

definition parse_mem :: "string \<Rightarrow> (MemPolicy \<times> string, MemPolicy) parse" where
  "parse_mem s = parse_object ''mem'' mem_field s \<lparr>max_bytes = None\<rparr>"

definition parse_pids :: "string \<Rightarrow> (PidsPolicy \<times> string, PidsPolicy) parse" where
  "parse_pids s = parse_object ''pids'' pids_field s \<lparr>pids_max = None\<rparr>"

definition parse_rlim :: "string \<Rightarrow> (RlimPolicy \<times> string, RlimPolicy) parse" where
  "parse_rlim s = parse_object ''rlim'' rlim_field s empty_rlim"

section \<open>The message\<close>

text \<open>The message under construction and the flag \<open>has_pid\<close>.\<close>

record gov_state =
  st_msg :: GovApplyMsg
  has_pid :: bool

text \<open>A sub-object's result becomes the message's: its rejection leaves the message as it was.\<close>

definition embed :: "('q \<times> string, 'q) parse \<Rightarrow> 'p \<Rightarrow> ('q \<Rightarrow> 'p) \<Rightarrow> ('p \<times> string, 'p) parse" where
  "embed res p f = (case res of Ok (q, r) \<Rightarrow> Ok (f q, r) | Nack a e _ \<Rightarrow> Nack a e p
     | Crash x \<Rightarrow> Crash x | Diverge \<Rightarrow> Diverge)"

definition oom_field :: "string \<Rightarrow> gov_state \<Rightarrow> (gov_state \<times> string, gov_state) parse" where
  "oom_field s st =
     store (parse_int_value s) NACK_PARSE_ERROR ''failed to parse oom_score_adj value'' st
       (\<lambda>(v, r). if v < - 1000 \<or> 1000 < v
                 then Nack NACK_INVALID_RANGE ''oom_score_adj out of range (-1000 to 1000)'' st
                 else Ok (st\<lparr>st_msg := (st_msg st)\<lparr>msg_oom_score_adj := Some v\<rparr>\<rparr>, r))"

definition gov_field :: "gov_state handler" where
  "gov_field key s st =
     (let m = st_msg st in
      if key = ''pid'' then
        store (parse_int_value s) NACK_PARSE_ERROR ''failed to parse pid value'' st
          (\<lambda>(v, r). if v \<le> 0 then Nack NACK_INVALID_PID ''pid must be positive'' st
                    else Ok (st\<lparr>st_msg := m\<lparr>msg_pid := as_int32 v\<rparr>, has_pid := True\<rparr>, r))
      else if key = ''cpu'' then
        embed (parse_cpu s) st (\<lambda>c. st\<lparr>st_msg := m\<lparr>msg_cpu := Some c\<rparr>\<rparr>)
      else if key = ''mem'' then
        embed (parse_mem s) st (\<lambda>c. st\<lparr>st_msg := m\<lparr>msg_mem := Some c\<rparr>\<rparr>)
      else if key = ''pids'' then
        embed (parse_pids s) st (\<lambda>c. st\<lparr>st_msg := m\<lparr>msg_pids := Some c\<rparr>\<rparr>)
      else if key = ''rlim'' then
        embed (parse_rlim s) st (\<lambda>c. st\<lparr>st_msg := m\<lparr>msg_rlim := Some c\<rparr>\<rparr>)
      else if key = ''oom_score_adj'' then oom_field s st
      else Nack NACK_UNKNOWN_FIELD (''unknown field: '' @ key) st)"

definition reject :: "AckCode \<Rightarrow> string \<Rightarrow> GovApplyMsg \<Rightarrow> ParseResult" where
  "reject a e m = \<lparr>success = False, ack = a, msg = m, error_detail = e\<rparr>"

datatype call_result = Returned ParseResult | Crashed fault | Never_Returns

definition init_state :: gov_state where
  "init_state = \<lparr>st_msg = empty_msg, has_pid = False\<rparr>"

definition finish :: "(gov_state, gov_state) parse \<Rightarrow> call_result" where
  "finish res = (case res of
       Ok st \<Rightarrow>
         if \<not> has_pid st
         then Returned (reject NACK_INVALID_PAYLOAD ''missing required field: pid'' (st_msg st))
         else Returned \<lparr>success = True, ack = ACK, msg = st_msg st, error_detail = []\<rparr>
     | Nack a e st \<Rightarrow> Returned (reject a e (st_msg st))
     | Crash f \<Rightarrow> Crashed f
     | Diverge \<Rightarrow> Never_Returns)"

definition parse_gov_apply :: "string \<Rightarrow> call_result" where
  "parse_gov_apply payload =
     (if kMaxPayloadSize < length payload then
        Returned (reject NACK_INVALID_PAYLOAD ''payload exceeds 512 bytes'' empty_msg)
      else if payload = [] then
        Returned (reject NACK_INVALID_PAYLOAD ''empty payload'' empty_msg)
      else let s = trim payload in
        if s = [] then Crashed Undefined_Behaviour
        else if hd s \<noteq> CHR ''{'' \<or> last s \<noteq> CHR ''}'' then
          Returned (reject NACK_PARSE_ERROR ''expected JSON object'' empty_msg)
        else let body = trim (butlast (tl s)) in
          finish (parse_fields (length body) gov_field ''failed to parse key''
                    ''missing colon after key'' body init_state))"

end
