(* ===== verification/Gov_Rule_Laws.thy ===== *)
theory Gov_Rule_Laws
  imports Gov_Rule
begin

text \<open>
  The parser of \<open>gov_rule.cpp\<close> terminates and what it accepts is well formed. The loop over
  the fields is proved once, against the contract of a field handler; the handlers of the
  message and of its four sub-objects are shown to meet it.
\<close>

section \<open>Every step leaves a shorter text\<close>

named_theorems shrinks \<open>parsing steps do not lengthen the text\<close>

lemma length_skip_whitespace: "length (skip_whitespace s) \<le> length s"
  by (simp add: skip_whitespace_def length_dropWhile_le)

lemma length_trim: "length (trim s) \<le> length s"
  unfolding trim_def by (metis length_dropWhile_le length_rev order_trans)

lemma scan_quoted_shrinks: "scan_quoted s = Some (k, r) \<Longrightarrow> length r < length s"
  by (induction s arbitrary: k rule: scan_quoted.induct)
    (fastforce split: if_splits option.splits list.splits)+

lemma parse_key_shrinks [shrinks]: "parse_key s = Some (k, r) \<Longrightarrow> length r < length s"
  using length_skip_whitespace [of s]
  by (auto simp: parse_key_def Let_def split: list.splits if_splits dest!: scan_quoted_shrinks)

lemma parse_string_value_shrinks [shrinks]:
  "parse_string_value s = Some (k, r) \<Longrightarrow> length r \<le> length s"
  using length_skip_whitespace [of s]
  by (auto simp: parse_string_value_def Let_def split: list.splits if_splits dest!: scan_quoted_shrinks)

lemma consume_colon_shrinks [shrinks]: "consume_colon s = Some r \<Longrightarrow> length r < length s"
  using length_skip_whitespace [of s]
  by (auto simp: consume_colon_def Let_def split: list.splits if_splits)

lemma parse_int_value_shrinks [shrinks]:
  "parse_int_value s = Inr (Some (v, r)) \<Longrightarrow> length r \<le> length s"
  using length_skip_whitespace [of s]
  by (auto simp: parse_int_value_def Let_def split: sum.splits if_splits)

lemma parse_uint_value_shrinks [shrinks]:
  "parse_uint_value s = Inr (Some (v, r)) \<Longrightarrow> length r \<le> length s"
  using length_skip_whitespace [of s]
  by (auto simp: parse_uint_value_def Let_def split: sum.splits if_splits)

lemma parse_int8_value_shrinks [shrinks]:
  "parse_int8_value s = Inr (Some (v, r)) \<Longrightarrow> length r \<le> length s"
  by (auto simp: parse_int8_value_def split: sum.splits option.splits if_splits dest: shrinks)

lemma parse_uint8_value_shrinks [shrinks]:
  "parse_uint8_value s = Inr (Some (v, r)) \<Longrightarrow> length r \<le> length s"
  by (auto simp: parse_uint8_value_def split: sum.splits option.splits if_splits dest: shrinks)

lemma length_next_field: "length (next_field s) \<le> length s"
  using length_skip_whitespace [of s] length_trim
  by (auto simp: next_field_def Let_def split: list.splits)
    (meson le_SucI order_trans Suc_leD)

lemma match_braces_append: "match_braces d s = (a, b) \<Longrightarrow> a @ b = s"
  by (induction d s arbitrary: a rule: match_braces.induct)
    (auto simp: Let_def split: if_splits prod.splits)

lemma split_object_append: "split_object s = (obj, rest) \<Longrightarrow> obj @ rest = s"
  by (auto simp: split_object_def split: list.splits prod.splits dest: match_braces_append)

section \<open>The contract of a field handler\<close>

locale field_handler =
  fixes field :: "'p handler" and ok :: "'p \<Rightarrow> bool"
  assumes rest: "field k s p = Ok (p', s') \<Longrightarrow> length s' \<le> length s"
    and ends: "field k s p \<noteq> Diverge"
    and keeps: "ok p \<Longrightarrow> field k s p = Ok (p', s') \<Longrightarrow> ok p'"
    and keeps_nack: "ok p \<Longrightarrow> field k s p = Nack a e q \<Longrightarrow> ok q"
begin

text \<open>Fuel equal to the length of the text is enough.\<close>

lemma fields_end: "length s \<le> fuel \<Longrightarrow> parse_fields fuel field bk nc s p \<noteq> Diverge"
proof (induction fuel arbitrary: s p)
  case 0
  then show ?case by simp
next
  case (Suc fuel)
  show ?case
  proof (cases s)
    case (Cons c cs)
    have "length (next_field s3) \<le> fuel"
      if "parse_key s = Some (k, s1)" "consume_colon s1 = Some s2" "field k s2 p = Ok (p', s3)"
      for k s1 s2 s3 p'
      using parse_key_shrinks [OF that(1)] consume_colon_shrinks [OF that(2)] rest [OF that(3)]
        length_next_field [of s3] Suc.prems by linarith
    then show ?thesis
      using Suc.IH ends Cons by (auto split: option.splits parse.splits)
  qed simp
qed

lemma fields_ok: "ok p \<Longrightarrow> parse_fields fuel field bk nc s p = Ok p' \<Longrightarrow> ok p'"
proof (induction fuel arbitrary: s p)
  case 0
  then show ?case by (cases s) auto
next
  case (Suc fuel)
  show ?case
  proof (cases s)
    case (Cons c cs)
    with Suc.prems(2) obtain k s2 s3 p1 where "field k s2 p = Ok (p1, s3)"
      and "parse_fields fuel field bk nc (next_field s3) p1 = Ok p'"
      by (auto split: option.splits parse.splits)
    then show ?thesis using Suc.IH keeps Suc.prems(1) by blast
  qed (use Suc.prems in simp)
qed

lemma fields_ok_nack: "ok p \<Longrightarrow> parse_fields fuel field bk nc s p = Nack a e q \<Longrightarrow> ok q"
proof (induction fuel arbitrary: s p)
  case 0
  then show ?case by (cases s) auto
next
  case (Suc fuel)
  show ?case
  proof (cases s)
    case (Cons c cs)
    with Suc.prems(2) consider (here) "ok q"
      | (later) k s2 s3 p1 where "field k s2 p = Ok (p1, s3)"
          and "parse_fields fuel field bk nc (next_field s3) p1 = Nack a e q"
      using Suc.prems(1) keeps_nack by (auto split: option.splits parse.splits)
    then show ?thesis using Suc.IH keeps Suc.prems(1) by cases blast+
  qed (use Suc.prems in simp)
qed

lemma object_end: "parse_object name field s p \<noteq> Diverge"
  using fields_end by (auto simp: parse_object_def Let_def split: prod.splits option.splits parse.splits)

lemma object_ok: "ok p \<Longrightarrow> parse_object name field s p = Ok (p', r) \<Longrightarrow> ok p'"
  by (auto simp: parse_object_def Let_def split: if_splits prod.splits option.splits parse.splits
      dest: fields_ok)

lemma object_rest: "parse_object name field s p = Ok (p', r) \<Longrightarrow> length r \<le> length s"
  by (auto simp: parse_object_def Let_def split: if_splits prod.splits option.splits parse.splits
      dest!: split_object_append)

end

section \<open>Well-formed policies\<close>

definition wf_cpu :: "CpuPolicy \<Rightarrow> bool" where
  "wf_cpu p \<longleftrightarrow> pred_option (\<lambda>v. - 128 \<le> v \<and> v \<le> 127) (nice p) \<and> pred_option (\<lambda>v. v \<le> 255) (max_pct p)"

definition wf_mem :: "MemPolicy \<Rightarrow> bool" where
  "wf_mem p \<longleftrightarrow> pred_option (\<lambda>v. v < 2 ^ 64) (max_bytes p)"

definition wf_pids :: "PidsPolicy \<Rightarrow> bool" where
  "wf_pids p \<longleftrightarrow> pred_option (\<lambda>v. v < 2 ^ 32) (pids_max p)"

definition wf_rlim :: "RlimPolicy \<Rightarrow> bool" where
  "wf_rlim p \<longleftrightarrow> pred_option (\<lambda>v. v < 2 ^ 64) (nofile_soft p) \<and> pred_option (\<lambda>v. v < 2 ^ 64) (nofile_hard p) \<and>
     pred_option (\<lambda>v. v < 2 ^ 64) (core_soft p) \<and> pred_option (\<lambda>v. v < 2 ^ 64) (core_hard p)"

text \<open>
  Every field of a message fits the C++ type that holds it; for the OOM score this is narrowed to the range that
  \<open>docs/GOVERNOR.md\<close> gives. Its range for nice, -20 to 19, is not checked by the parser, and neither is the pid after it was
  narrowed to 32 bits.
\<close>

definition wf_msg :: "GovApplyMsg \<Rightarrow> bool" where
  "wf_msg m \<longleftrightarrow> - (2 ^ 31) \<le> msg_pid m \<and> msg_pid m < 2 ^ 31 \<and> pred_option wf_cpu (msg_cpu m) \<and>
     pred_option wf_mem (msg_mem m) \<and> pred_option wf_pids (msg_pids m) \<and>
     pred_option wf_rlim (msg_rlim m) \<and>
     pred_option (\<lambda>v. - 1000 \<le> v \<and> v \<le> 1000) (msg_oom_score_adj m)"

lemmas wf_defs = wf_cpu_def wf_mem_def wf_pids_def wf_rlim_def wf_msg_def

lemma stoull_range: "stoull s = Inr v \<Longrightarrow> v < 2 ^ 64"
  by (auto simp: stoull_def as_uint64_def Let_def split: prod.splits if_splits)

lemma parse_uint_value_range: "parse_uint_value s = Inr (Some (v, r)) \<Longrightarrow> v < 2 ^ 64"
  by (auto simp: parse_uint_value_def Let_def split: if_splits sum.splits dest: stoull_range)

lemma parse_int8_value_range: "parse_int8_value s = Inr (Some (v, r)) \<Longrightarrow> - 128 \<le> v \<and> v \<le> 127"
  by (auto simp: parse_int8_value_def split: sum.splits option.splits if_splits)

lemma parse_uint8_value_range: "parse_uint8_value s = Inr (Some (v, r)) \<Longrightarrow> v \<le> 255"
  by (auto simp: parse_uint8_value_def split: sum.splits option.splits if_splits)

lemmas value_ranges = parse_uint_value_range parse_int8_value_range parse_uint8_value_range


lemma store_cases:
  "store r a e p k = res \<Longrightarrow>
     (\<exists>v. r = Inr (Some v) \<and> res = k v) \<or> res = Nack a e p \<or> (\<exists>f. res = Crash f)"
  by (auto simp: store_def split: sum.splits option.splits)

lemma store_Ok: "store r a e p k = Ok x \<Longrightarrow> \<exists>v. r = Inr (Some v) \<and> k v = Ok x"
  by (auto simp: store_def split: sum.splits option.splits)

lemma store_Nack: "store r a e p k = Nack a' e' q \<Longrightarrow> q = p \<or> (\<exists>v. r = Inr (Some v) \<and> k v = Nack a' e' q)"
  by (auto simp: store_def split: sum.splits option.splits)

lemma store_Diverge: "store r a e p k = Diverge \<Longrightarrow> \<exists>v. r = Inr (Some v) \<and> k v = Diverge"
  by (auto simp: store_def split: sum.splits option.splits)

lemmas store_dests = store_Ok store_Nack store_Diverge

section \<open>The handlers of the program meet the contract\<close>

interpretation cpu: field_handler cpu_field wf_cpu
  by unfold_locales
    (auto simp: cpu_field_def wf_cpu_def split: if_splits dest!: store_dests dest: shrinks value_ranges)

interpretation mem: field_handler mem_field wf_mem
  by unfold_locales
    (auto simp: mem_field_def wf_mem_def split: if_splits dest!: store_dests dest: shrinks value_ranges)

interpretation pids: field_handler pids_field wf_pids
  by unfold_locales
    (auto simp: pids_field_def wf_pids_def split: if_splits dest!: store_dests dest: shrinks value_ranges)

interpretation rlim: field_handler rlim_field wf_rlim
  by unfold_locales
    (auto simp: rlim_field_def wf_rlim_def split: if_splits dest!: store_dests dest: shrinks value_ranges)


section \<open>The whole message\<close>

definition wf_state :: "gov_state \<Rightarrow> bool" where
  "wf_state st \<longleftrightarrow> wf_msg (st_msg st)"

lemma embed_Ok: "embed res p f = Ok (p', r) \<Longrightarrow> \<exists>q. res = Ok (q, r) \<and> p' = f q"
  by (auto simp: embed_def split: parse.splits)

lemma embed_Nack: "embed res p f = Nack a e p' \<Longrightarrow> p' = p"
  by (auto simp: embed_def split: parse.splits)

lemma embed_ends: "res \<noteq> Diverge \<Longrightarrow> embed res p f \<noteq> Diverge"
  by (auto simp: embed_def split: parse.splits)

lemma store_ends: "(\<And>v. k v \<noteq> Diverge) \<Longrightarrow> store r a e p k \<noteq> Diverge"
  by (auto simp: store_def split: sum.splits option.splits)

lemma sub_objects_end:
  "parse_cpu s \<noteq> Diverge" "parse_mem s \<noteq> Diverge" "parse_pids s \<noteq> Diverge" "parse_rlim s \<noteq> Diverge"
  by (simp_all add: parse_cpu_def parse_mem_def parse_pids_def parse_rlim_def
      cpu.object_end mem.object_end pids.object_end rlim.object_end)

lemma sub_objects_rest [shrinks]:
  "parse_cpu s = Ok (c, r) \<Longrightarrow> length r \<le> length s"
  "parse_mem s = Ok (m, r) \<Longrightarrow> length r \<le> length s"
  "parse_pids s = Ok (p, r) \<Longrightarrow> length r \<le> length s"
  "parse_rlim s = Ok (l, r) \<Longrightarrow> length r \<le> length s"
  unfolding parse_cpu_def parse_mem_def parse_pids_def parse_rlim_def
  by (erule cpu.object_rest mem.object_rest pids.object_rest rlim.object_rest)+

lemma sub_objects_wf:
  "parse_cpu s = Ok (c, r) \<Longrightarrow> wf_cpu c"
  "parse_mem s = Ok (m, r) \<Longrightarrow> wf_mem m"
  "parse_pids s = Ok (p, r) \<Longrightarrow> wf_pids p"
  "parse_rlim s = Ok (l, r) \<Longrightarrow> wf_rlim l"
  by (auto simp: parse_cpu_def parse_mem_def parse_pids_def parse_rlim_def wf_defs empty_cpu_def empty_rlim_def
      dest!: cpu.object_ok [rotated] mem.object_ok [rotated] pids.object_ok [rotated] rlim.object_ok [rotated])

lemma gov_field_wf:
  assumes "wf_state st" and "gov_field k s st = Ok (st', s')"
  shows "wf_state st'"
  using assms as_int32_range
  by (auto simp: gov_field_def oom_field_def Let_def wf_state_def wf_msg_def split: if_splits
      dest!: store_dests embed_Ok dest: sub_objects_wf)

lemma gov_field_nack: "gov_field k s st = Nack a e q \<Longrightarrow> q = st"
  by (auto simp: gov_field_def oom_field_def Let_def split: if_splits dest!: store_dests dest: embed_Nack)

lemma gov_field_ends: "gov_field k s st \<noteq> Diverge"
  unfolding gov_field_def oom_field_def Let_def
  by (simp add: embed_ends sub_objects_end store_ends split: prod.splits)

lemma gov_field_rest: "gov_field k s st = Ok (st', s') \<Longrightarrow> length s' \<le> length s"
  by (auto simp: gov_field_def oom_field_def Let_def split: if_splits dest!: store_dests embed_Ok dest: shrinks)

interpretation gov: field_handler gov_field wf_state
  by unfold_locales
    (auto intro: gov_field_wf dest: gov_field_rest gov_field_nack simp: gov_field_ends)

text \<open>A message carries a positive id that was narrowed, once a \<open>pid\<close> field was seen.\<close>

definition narrowed :: "int \<Rightarrow> bool" where
  "narrowed i \<longleftrightarrow> (\<exists>v. 0 < v \<and> v < 2 ^ 63 \<and> i = as_int32 v)"

lemma narrowedI: "0 < v \<Longrightarrow> v < 2 ^ 63 \<Longrightarrow> narrowed (as_int32 v)"
  by (auto simp: narrowed_def)

definition pid_state :: "gov_state \<Rightarrow> bool" where
  "pid_state st \<longleftrightarrow> (has_pid st \<longrightarrow> narrowed (msg_pid (st_msg st)))"

lemma parse_int_value_range:
  "parse_int_value s = Inr (Some (v, r)) \<Longrightarrow> - (2 ^ 63) \<le> v \<and> v < 2 ^ 63"
  by (auto simp: parse_int_value_def stoll_def sto_signed_def Let_def
      split: if_splits sum.splits prod.splits)

lemma gov_field_pid:
  "pid_state st \<Longrightarrow> gov_field k s st = Ok (st', s') \<Longrightarrow> pid_state st'"
  by (auto simp: gov_field_def oom_field_def Let_def pid_state_def split: if_splits
      dest!: store_dests embed_Ok parse_int_value_range intro!: narrowedI)

interpretation gov_pid: field_handler gov_field pid_state
  by unfold_locales
    (auto dest: gov_field_rest gov_field_pid gov_field_nack simp: gov_field_ends)

lemma parse_gov_apply_body:
  assumes "parse_gov_apply payload = Returned r" and "success r"
  obtains st fuel s where "parse_fields fuel gov_field ''failed to parse key'' ''missing colon after key'' s init_state = Ok st"
    and "has_pid st" and "msg r = st_msg st" and "ack r = ACK" and "length payload \<le> kMaxPayloadSize"
  using assms
  by (auto simp: parse_gov_apply_def finish_def reject_def Let_def split: if_splits parse.splits)

lemma init_state_ok: "wf_state init_state" "pid_state init_state"
  by (auto simp: wf_state_def pid_state_def init_state_def empty_msg_def wf_msg_def)

section \<open>Properties\<close>

text \<open>
  C11: \<open>parse_gov_apply\<close> always returns or faults: the fuel of the model, the length of the
  text that is parsed, never runs out, for any payload.
\<close>

theorem parse_gov_apply_terminates: "parse_gov_apply payload \<noteq> Never_Returns"
  using gov.fields_end
  by (auto simp: parse_gov_apply_def finish_def Let_def split: parse.splits)

text \<open>
  C6: what the parser accepts is well formed: the payload is at most 512 bytes, every value fits the C++ type of its
  field, the OOM score is from -1000 to 1000, and the process id is the 32-bit narrowing of a positive 64-bit
  number. Nothing better holds of nice than that it fits \<open>int8_t\<close> (\<open>nice_beyond_docs\<close>), nor of the process id than
  that it is such a narrowing: it may be zero or negative (\<open>pid_narrowed_to_zero\<close>).
\<close>

theorem accepted_message_wf:
  assumes "parse_gov_apply payload = Returned r" and "success r"
  shows "length payload \<le> 512 \<and> wf_msg (msg r) \<and> ack r = ACK \<and>
    (\<exists>v. 0 < v \<and> v < 2 ^ 63 \<and> msg_pid (msg r) = as_int32 v)"
proof -
  obtain st fuel s
    where st: "parse_fields fuel gov_field ''failed to parse key'' ''missing colon after key'' s init_state = Ok st"
      and "has_pid st" "msg r = st_msg st" "ack r = ACK" "length payload \<le> kMaxPayloadSize"
    using assms by (rule parse_gov_apply_body)
  then show ?thesis
    using gov.fields_ok [OF init_state_ok(1) st] gov_pid.fields_ok [OF init_state_ok(2) st]
    by (simp add: wf_state_def pid_state_def narrowed_def kMaxPayloadSize_def)
qed

lemma nice_beyond_docs:
  "\<exists>r. parse_gov_apply ''{\"pid\":7,\"cpu\":{\"nice\":100}}'' = Returned r \<and> success r \<and>
     map_option nice (msg_cpu (msg r)) = Some (Some 100)"
proof -
  have "parse_gov_apply ''{\"pid\":7,\"cpu\":{\"nice\":100}}'' =
    Returned \<lparr>success = True, ack = ACK,
      msg = \<lparr>msg_pid = 7, msg_cpu = Some \<lparr>affinity = None, nice = Some 100, max_pct = None\<rparr>, msg_mem = None,
        msg_pids = None, msg_rlim = None, msg_oom_score_adj = None\<rparr>, error_detail = []\<rparr>"
    by code_simp
  then show ?thesis by simp
qed

lemma pid_narrowed_to_zero:
  "\<exists>r. parse_gov_apply ''{\"pid\":4294967296}'' = Returned r \<and> success r \<and> msg_pid (msg r) = 0"
proof -
  have "parse_gov_apply ''{\"pid\":4294967296}'' = Returned \<lparr>success = True, ack = ACK, msg = empty_msg, error_detail = []\<rparr>"
    by code_simp
  then show ?thesis by (simp add: empty_msg_def)
qed

theorem accepted_message_wf_witness:
  "wf_msg \<lparr>msg_pid = 7, msg_cpu = Some \<lparr>affinity = None, nice = Some (- 5), max_pct = None\<rparr>, msg_mem = None,
     msg_pids = None, msg_rlim = None, msg_oom_score_adj = None\<rparr>"
proof -
  let ?m = "\<lparr>msg_pid = 7, msg_cpu = Some \<lparr>affinity = None, nice = Some (- 5), max_pct = None\<rparr>, msg_mem = None,
     msg_pids = None, msg_rlim = None, msg_oom_score_adj = None\<rparr>"
  have "parse_gov_apply ''{\"pid\":7,\"cpu\":{\"nice\":-5}}'' =
    Returned \<lparr>success = True, ack = ACK, msg = ?m, error_detail = []\<rparr>"
    by code_simp
  from accepted_message_wf [OF this] show ?thesis by simp
qed

end
