(* ===== verification/Gov_Rule_Roundtrip.thy ===== *)
theory Gov_Rule_Roundtrip
  imports Gov_Rule_Laws
begin

text \<open>
  The parser of \<open>gov_rule.cpp\<close> reads back what a client writes: a message rendered as
  compact JSON in the documented field order parses to itself. The narrowing of the process
  id and the treatment of unbalanced objects are shown on the texts that exhibit them.
\<close>

section \<open>Rendering\<close>

definition show_field :: "string \<Rightarrow> string \<Rightarrow> string" where
  "show_field k v = CHR 0x22 # k @ CHR 0x22 # CHR '':'' # v"

definition opt_field :: "string \<Rightarrow> ('v \<Rightarrow> string) \<Rightarrow> 'v option \<Rightarrow> string list" where
  "opt_field k sh v = (case v of None \<Rightarrow> [] | Some x \<Rightarrow> [show_field k (sh x)])"

definition braces :: "string list \<Rightarrow> string" where
  "braces fs = CHR ''{'' # join fs @ ''}''"

definition quote :: "string \<Rightarrow> string" where
  "quote v = CHR 0x22 # v @ [CHR 0x22]"

definition render_cpu :: "CpuPolicy \<Rightarrow> string" where
  "render_cpu c = braces (opt_field ''affinity'' quote (affinity c) @
     opt_field ''nice'' show_int (nice c) @ opt_field ''max_pct'' show_nat (max_pct c))"

definition render_mem :: "MemPolicy \<Rightarrow> string" where
  "render_mem c = braces (opt_field ''max_bytes'' show_nat (max_bytes c))"

definition render_pids :: "PidsPolicy \<Rightarrow> string" where
  "render_pids c = braces (opt_field ''max'' show_nat (pids_max c))"

definition render_rlim :: "RlimPolicy \<Rightarrow> string" where
  "render_rlim c = braces (opt_field ''nofile_soft'' show_nat (nofile_soft c) @
     opt_field ''nofile_hard'' show_nat (nofile_hard c) @
     opt_field ''core_soft'' show_nat (core_soft c) @ opt_field ''core_hard'' show_nat (core_hard c))"

definition render_msg :: "GovApplyMsg \<Rightarrow> string" where
  "render_msg m = braces (show_field ''pid'' (show_int (msg_pid m)) #
     opt_field ''cpu'' render_cpu (msg_cpu m) @ opt_field ''mem'' render_mem (msg_mem m) @
     opt_field ''pids'' render_pids (msg_pids m) @ opt_field ''rlim'' render_rlim (msg_rlim m) @
     opt_field ''oom_score_adj'' show_int (msg_oom_score_adj m))"

text \<open>A text that can stand between quotes without an escape, free of braces.\<close>

definition plain :: "string \<Rightarrow> bool" where
  "plain s \<longleftrightarrow> (\<forall>c \<in> set s. c \<noteq> CHR 0x22 \<and> c \<noteq> CHR 0x5C \<and> c \<noteq> CHR ''{'' \<and> c \<noteq> CHR ''}'')"

definition renderable :: "GovApplyMsg \<Rightarrow> bool" where
  "renderable m \<longleftrightarrow> wf_msg m \<and> 0 < msg_pid m \<and>
     pred_option (\<lambda>c. pred_option plain (affinity c)) (msg_cpu m)"

section \<open>Lexical facts\<close>

lemma trim_id: "s \<noteq> [] \<Longrightarrow> \<not> is_whitespace (hd s) \<Longrightarrow> \<not> is_whitespace (last s) \<Longrightarrow> trim s = s"
  using dropWhile_eq_self_iff [of is_whitespace "rev s"] dropWhile_eq_self_iff [of is_whitespace s]
  by (simp add: trim_def hd_rev)

lemma trim_Nil [simp]: "trim [] = []"
  by (simp add: trim_def)

lemma digit_not_whitespace: "is_digit c \<Longrightarrow> \<not> is_whitespace c"
  by (auto simp: is_digit_def is_whitespace_def)

lemma skip_whitespace_id: "s = [] \<or> \<not> is_whitespace (hd s) \<Longrightarrow> skip_whitespace s = s"
  by (cases s) (auto simp: skip_whitespace_def)

lemma scan_quoted_plain: "plain k \<Longrightarrow> scan_quoted (k @ CHR 0x22 # r) = Some (k, r)"
  by (induction k) (auto simp: plain_def)

lemma parse_key_show_field:
  "plain k \<Longrightarrow> parse_key (CHR 0x22 # k @ CHR 0x22 # r) = Some (k, r)"
  by (simp add: parse_key_def skip_whitespace_id is_whitespace_def scan_quoted_plain)

lemma consume_colon_colon [simp]: "consume_colon (CHR '':'' # r) = Some r"
  by (simp add: consume_colon_def skip_whitespace_id is_whitespace_def)

text \<open>What may follow a value: the end of the object or a comma.\<close>

definition follow :: "string \<Rightarrow> bool" where
  "follow r \<longleftrightarrow> r = [] \<or> hd r = CHR '',''"

lemma follow_not_digit: "follow r \<Longrightarrow> r = [] \<or> \<not> is_digit (hd r)"
  by (auto simp: follow_def is_digit_def)

lemma parse_string_value_quote:
  "plain v \<Longrightarrow> parse_string_value (quote v @ r) = Some (v, r)"
  by (simp add: parse_string_value_def quote_def skip_whitespace_id is_whitespace_def scan_quoted_plain)

lemma hd_show_nat: "is_digit (hd (show_nat n))"
  using show_nat_digits [of n] by (cases "show_nat n") auto

lemma last_show_nat: "is_digit (last (show_nat n))"
  using show_nat_digits [of n] last_in_set [of "show_nat n"] by simp

lemma skip_show_nat: "skip_whitespace (show_nat n @ r) = show_nat n @ r"
  using hd_show_nat [of n] by (intro skip_whitespace_id) (simp add: digit_not_whitespace)

lemma take_digits_follow: "follow r \<Longrightarrow> takeWhile is_digit r = []"
  using follow_not_digit [of r] by (cases r) auto

lemma parse_uint_value_show:
  "follow r \<Longrightarrow> n < 2 ^ 64 \<Longrightarrow> parse_uint_value (show_nat n @ r) = Inr (Some (n, r))"
  using show_nat_digits [of n]
  by (simp add: parse_uint_value_def skip_show_nat take_digits_follow Let_def stoull_digits dec_value_show_nat)

lemma hd_show_nat_minus: "hd (show_nat n @ r) \<noteq> CHR ''-''"
  using hd_show_nat [of n] by (auto simp: is_digit_def)

lemma parse_int_value_show_nat:
  "follow r \<Longrightarrow> n < 2 ^ 63 \<Longrightarrow> parse_int_value (show_nat n @ r) = Inr (Some (int n, r))"
  using show_nat_digits [of n] hd_show_nat_minus [of n r]
  by (simp add: parse_int_value_def skip_show_nat take_digits_follow Let_def stoll_digits dec_value_show_nat)

lemma parse_int_value_overflow:
  "follow r \<Longrightarrow> 2 ^ 63 \<le> n \<Longrightarrow> parse_int_value (show_nat n @ r) = Inl Out_Of_Range"
  using show_nat_digits [of n] hd_show_nat_minus [of n r]
  by (simp add: parse_int_value_def skip_show_nat take_digits_follow Let_def stoll_digits dec_value_show_nat)

lemma parse_int_value_show:
  assumes "follow r" and "- (2 ^ 63) \<le> v" and "v < 2 ^ 63"
  shows "parse_int_value (show_int v @ r) = Inr (Some (v, r))"
proof (cases "v < 0")
  case False
  then show ?thesis
    using parse_int_value_show_nat [of r "nat v"] assms by (simp add: show_int_def)
next
  case True
  have "skip_whitespace (CHR ''-'' # show_nat (nat (- v)) @ r) = CHR ''-'' # show_nat (nat (- v)) @ r"
    by (simp add: skip_whitespace_id is_whitespace_def)
  then show ?thesis
    using True assms show_nat_digits [of "nat (- v)"]
    by (simp add: parse_int_value_def show_int_def take_digits_follow Let_def stoll_minus_digits
        dec_value_show_nat)
qed

lemma parse_int8_value_show:
  "follow r \<Longrightarrow> - 128 \<le> v \<Longrightarrow> v \<le> 127 \<Longrightarrow> parse_int8_value (show_int v @ r) = Inr (Some (v, r))"
  by (simp add: parse_int8_value_def parse_int_value_show)

lemma parse_uint8_value_show:
  "follow r \<Longrightarrow> n \<le> 255 \<Longrightarrow> parse_uint8_value (show_nat n @ r) = Inr (Some (n, r))"
  by (simp add: parse_uint8_value_def parse_uint_value_show)

lemmas value_shows = parse_string_value_quote parse_uint_value_show parse_int_value_show
  parse_int8_value_show parse_uint8_value_show


section \<open>A rendered list of fields is read back\<close>

text \<open>An item: the key, the text of its value and what the handler stores for it.\<close>

type_synonym 'p item = "string \<times> string \<times> ('p \<Rightarrow> 'p)"

definition item_text :: "'p item \<Rightarrow> string" where
  "item_text it = (case it of (k, v, f) \<Rightarrow> show_field k v)"

lemma item_text_simp [simp]: "item_text (k, v, f) = show_field k v"
  by (simp add: item_text_def)

definition good_item :: "'p handler \<Rightarrow> 'p item \<Rightarrow> bool" where
  "good_item field it \<longleftrightarrow> (case it of (k, v, f) \<Rightarrow> plain k \<and> v \<noteq> [] \<and> \<not> is_whitespace (last v) \<and>
     (\<forall>r p. follow r \<longrightarrow> field k (v @ r) p = Ok (f p, r)))"

definition apply_items :: "'p item list \<Rightarrow> 'p \<Rightarrow> 'p" where
  "apply_items items p = fold (\<lambda>it. snd (snd it)) items p"

lemma item_text_shape:
  "good_item field it \<Longrightarrow> hd (item_text it) = CHR 0x22 \<and> item_text it \<noteq> [] \<and> \<not> is_whitespace (last (item_text it))"
  by (auto simp: item_text_def good_item_def show_field_def split: prod.splits)

lemma join_shape:
  "list_all (good_item field) items \<Longrightarrow> items \<noteq> [] \<Longrightarrow>
   hd (join (map item_text items)) = CHR 0x22 \<and> join (map item_text items) \<noteq> [] \<and>
   \<not> is_whitespace (last (join (map item_text items)))"
proof (induction items rule: induct_list012)
  case (3 x y zs)
  then show ?case
    using item_text_shape [of field x] by (auto split: list.splits)
qed (auto dest: item_text_shape)

lemma trim_join: "list_all (good_item field) items \<Longrightarrow> trim (join (map item_text items)) = join (map item_text items)"
  using join_shape [of field items] by (cases "items = []") (auto intro!: trim_id simp: is_whitespace_def)

lemma length_join: "length items \<le> length (join (map item_text items))"
  by (induction items rule: induct_list012) (auto simp: item_text_def show_field_def split: prod.splits)

text \<open>One step of the loop on a rendered item.\<close>

lemma parse_fields_item:
  assumes "good_item field (k, v, f)" and "follow r"
  shows "parse_fields (Suc n) field bk nc (show_field k v @ r) p =
    parse_fields n field bk nc (next_field r) (f p)"
proof -
  have "parse_key (show_field k v @ r) = Some (k, CHR '':'' # v @ r)"
    using assms by (simp add: show_field_def good_item_def parse_key_show_field)
  moreover have "field k (v @ r) p = Ok (f p, r)"
    using assms by (simp add: good_item_def)
  ultimately show ?thesis
    by (simp add: show_field_def)
qed

lemma parse_fields_join:
  "list_all (good_item field) items \<Longrightarrow> length items \<le> n \<Longrightarrow>
   parse_fields n field bk nc (join (map item_text items)) p = Ok (apply_items items p)"
proof (induction items arbitrary: n p rule: induct_list012)
  case 1
  then show ?case by (simp add: apply_items_def)
next
  case (2 x)
  obtain k v f where x: "x = (k, v, f)" by (cases x)
  from 2 obtain m where n: "n = Suc m" by (cases n) auto
  show ?case
    using 2 parse_fields_item [of field k v f "[]" m bk nc p]
    by (simp add: n x follow_def next_field_def skip_whitespace_def apply_items_def)
next
  case (3 x y zs)
  obtain k v f where x: "x = (k, v, f)" by (cases x)
  from 3 obtain m where n: "n = Suc m" and m: "length (y # zs) \<le> m" by (cases n) auto
  let ?j = "join (map item_text (y # zs))"
  have good: "list_all (good_item field) (y # zs)" using 3 by simp
  have "next_field (CHR '','' # ?j) = ?j"
    using trim_join [OF good] by (simp add: next_field_def skip_whitespace_id is_whitespace_def)
  then have "parse_fields n field bk nc (show_field k v @ CHR '','' # ?j) p =
      parse_fields m field bk nc ?j (f p)"
    using 3 parse_fields_item [of field k v f "CHR '','' # ?j" m bk nc p]
    by (simp add: n x follow_def)
  also have "\<dots> = Ok (apply_items (y # zs) (f p))"
    using 3 good m by simp
  finally show ?case
    by (simp add: x apply_items_def)
qed

section \<open>Objects\<close>

definition no_braces :: "string \<Rightarrow> bool" where
  "no_braces s \<longleftrightarrow> (\<forall>c \<in> set s. c \<noteq> CHR ''{'' \<and> c \<noteq> CHR ''}'')"

lemma no_braces_simps [simp]:
  "no_braces []"
  "no_braces (c # s) \<longleftrightarrow> c \<noteq> CHR ''{'' \<and> c \<noteq> CHR ''}'' \<and> no_braces s"
  "no_braces (s @ t) \<longleftrightarrow> no_braces s \<and> no_braces t"
  by (auto simp: no_braces_def)

lemma match_braces_0: "match_braces 0 s = ([], s)"
  by (cases s) auto

lemma match_braces_body: "no_braces b \<Longrightarrow> match_braces 1 (b @ CHR ''}'' # r) = (b @ ''}'', r)"
  by (induction b) (simp_all add: match_braces_0)

lemma no_braces_join:
  "list_all (\<lambda>it. no_braces (item_text it)) items \<Longrightarrow> no_braces (join (map item_text items))"
  by (induction items rule: induct_list012) simp_all

lemma parse_object_braces:
  assumes "list_all (good_item field) items" and "list_all (\<lambda>it. no_braces (item_text it)) items"
  shows "parse_object name field (braces (map item_text items) @ r) p = Ok (apply_items items p, r)"
proof -
  let ?b = "join (map item_text items)"
  have split: "split_object (CHR ''{'' # ?b @ CHR ''}'' # r) = (CHR ''{'' # ?b @ ''}'', r)"
    using match_braces_body [OF no_braces_join [OF assms(2)]] by (simp add: split_object_def)
  have "trim (CHR ''{'' # ?b @ ''}'') = CHR ''{'' # ?b @ ''}''"
    by (rule trim_id) (auto simp: is_whitespace_def)
  then have strip: "strip_braces (CHR ''{'' # ?b @ ''}'') = Some ?b"
    by (simp add: strip_braces_def trim_join [OF assms(1)] butlast_append)
  show ?thesis
    using split strip parse_fields_join [OF assms(1) length_join]
    by (simp add: parse_object_def braces_def)
qed


section \<open>The items of each object\<close>

definition opt_item :: "string \<Rightarrow> ('v \<Rightarrow> string) \<Rightarrow> ('v \<Rightarrow> 'p \<Rightarrow> 'p) \<Rightarrow> 'v option \<Rightarrow> 'p item list" where
  "opt_item k sh st v = (case v of None \<Rightarrow> [] | Some x \<Rightarrow> [(k, sh x, st x)])"

lemma opt_item_text [simp]: "map item_text (opt_item k sh st v) = opt_field k sh v"
  by (simp add: opt_item_def opt_field_def split: option.splits)

lemma opt_item_all:
  "list_all P (opt_item k sh st v) \<longleftrightarrow> pred_option (\<lambda>x. P (k, sh x, st x)) v"
  by (simp add: opt_item_def split: option.splits)

lemma apply_items_simps [simp]:
  "apply_items [] p = p"
  "apply_items ((k, v, f) # its) p = apply_items its (f p)"
  "apply_items (its @ jts) p = apply_items jts (apply_items its p)"
  by (simp_all add: apply_items_def)

lemma apply_opt_item [simp]:
  "apply_items (opt_item k sh st v) p = (case v of None \<Rightarrow> p | Some x \<Rightarrow> st x p)"
  by (simp add: opt_item_def split: option.splits)

text \<open>The text of a value neither is empty nor ends in white space; numbers have no braces.\<close>

lemma no_braces_digits: "\<forall>c \<in> set s. is_digit c \<Longrightarrow> no_braces s"
  by (auto simp: no_braces_def is_digit_def)

lemma no_braces_show [simp]: "no_braces (show_nat n)" "no_braces (show_int z)"
  using no_braces_digits [OF show_nat_digits] by (auto simp: show_int_def)

lemma last_show [simp]:
  "\<not> is_whitespace (last (show_nat n))" "\<not> is_whitespace (last (show_int z))" "show_int z \<noteq> []"
  using digit_not_whitespace [OF last_show_nat] by (auto simp: show_int_def)

lemma last_quote [simp]: "\<not> is_whitespace (last (quote v))" "quote v \<noteq> []"
  by (auto simp: quote_def is_whitespace_def)

lemma last_braces [simp]: "\<not> is_whitespace (last (braces fs))" "braces fs \<noteq> []"
  by (auto simp: braces_def is_whitespace_def)

lemma no_braces_quote: "plain v \<Longrightarrow> no_braces (quote v)"
  by (auto simp: quote_def plain_def no_braces_def)

lemma no_braces_field [simp]: "no_braces (show_field k v) \<longleftrightarrow> no_braces k \<and> no_braces v"
  by (simp add: show_field_def)

definition cpu_items :: "CpuPolicy \<Rightarrow> CpuPolicy item list" where
  "cpu_items c = opt_item ''affinity'' quote (\<lambda>v p. p\<lparr>affinity := Some v\<rparr>) (affinity c) @
     opt_item ''nice'' show_int (\<lambda>v p. p\<lparr>nice := Some v\<rparr>) (nice c) @
     opt_item ''max_pct'' show_nat (\<lambda>v p. p\<lparr>max_pct := Some v\<rparr>) (max_pct c)"

definition mem_items :: "MemPolicy \<Rightarrow> MemPolicy item list" where
  "mem_items c = opt_item ''max_bytes'' show_nat (\<lambda>v p. p\<lparr>max_bytes := Some v\<rparr>) (max_bytes c)"

definition pids_items :: "PidsPolicy \<Rightarrow> PidsPolicy item list" where
  "pids_items c = opt_item ''max'' show_nat (\<lambda>v p. p\<lparr>pids_max := Some v\<rparr>) (pids_max c)"

definition rlim_items :: "RlimPolicy \<Rightarrow> RlimPolicy item list" where
  "rlim_items c =
     opt_item ''nofile_soft'' show_nat (\<lambda>v p. p\<lparr>nofile_soft := Some v\<rparr>) (nofile_soft c) @
     opt_item ''nofile_hard'' show_nat (\<lambda>v p. p\<lparr>nofile_hard := Some v\<rparr>) (nofile_hard c) @
     opt_item ''core_soft'' show_nat (\<lambda>v p. p\<lparr>core_soft := Some v\<rparr>) (core_soft c) @
     opt_item ''core_hard'' show_nat (\<lambda>v p. p\<lparr>core_hard := Some v\<rparr>) (core_hard c)"

lemma plain_keys [simp]:
  "plain ''affinity''" "plain ''nice''" "plain ''max_pct''" "plain ''max_bytes''" "plain ''max''"
  "plain ''nofile_soft''" "plain ''nofile_hard''" "plain ''core_soft''" "plain ''core_hard''"
  "plain ''pid''" "plain ''cpu''" "plain ''mem''" "plain ''pids''" "plain ''rlim''" "plain ''oom_score_adj''"
  by (simp_all add: plain_def)

lemmas item_simps = good_item_def opt_item_all store_def value_shows

lemma cpu_items_good:
  assumes "wf_cpu c" and "pred_option plain (affinity c)"
  shows "list_all (good_item cpu_field) (cpu_items c)"
    and "list_all (\<lambda>it. no_braces (item_text it)) (cpu_items c)"
  using assms
  by (cases "affinity c"; cases "nice c"; cases "max_pct c";
      simp add: cpu_items_def item_simps cpu_field_def wf_cpu_def no_braces_quote)+

lemma mem_items_good:
  assumes "wf_mem c"
  shows "list_all (good_item mem_field) (mem_items c)"
    and "list_all (\<lambda>it. no_braces (item_text it)) (mem_items c)"
  using assms by (cases "max_bytes c"; simp add: mem_items_def item_simps mem_field_def wf_mem_def)+

lemma pids_items_good:
  assumes "wf_pids c"
  shows "list_all (good_item pids_field) (pids_items c)"
    and "list_all (\<lambda>it. no_braces (item_text it)) (pids_items c)"
  using assms by (cases "pids_max c"; simp add: pids_items_def item_simps pids_field_def wf_pids_def)+

lemma rlim_items_good:
  assumes "wf_rlim c"
  shows "list_all (good_item rlim_field) (rlim_items c)"
    and "list_all (\<lambda>it. no_braces (item_text it)) (rlim_items c)"
  using assms
  by (cases "nofile_soft c"; cases "nofile_hard c"; cases "core_soft c"; cases "core_hard c";
      simp add: rlim_items_def item_simps rlim_field_def wf_rlim_def)+

text \<open>The sub-objects are read back.\<close>

lemma parse_cpu_render:
  "wf_cpu c \<Longrightarrow> pred_option plain (affinity c) \<Longrightarrow> parse_cpu (render_cpu c @ r) = Ok (c, r)"
  using parse_object_braces [OF cpu_items_good, of c "''cpu''" r empty_cpu]
  by (simp add: parse_cpu_def render_cpu_def cpu_items_def empty_cpu_def split: option.splits)

lemma parse_mem_render: "wf_mem c \<Longrightarrow> parse_mem (render_mem c @ r) = Ok (c, r)"
  using parse_object_braces [OF mem_items_good, of c "''mem''" r "\<lparr>max_bytes = None\<rparr>"]
  by (simp add: parse_mem_def render_mem_def mem_items_def split: option.splits)

lemma parse_pids_render: "wf_pids c \<Longrightarrow> parse_pids (render_pids c @ r) = Ok (c, r)"
  using parse_object_braces [OF pids_items_good, of c "''pids''" r "\<lparr>pids_max = None\<rparr>"]
  by (simp add: parse_pids_def render_pids_def pids_items_def split: option.splits)

lemma parse_rlim_render: "wf_rlim c \<Longrightarrow> parse_rlim (render_rlim c @ r) = Ok (c, r)"
  using parse_object_braces [OF rlim_items_good, of c "''rlim''" r empty_rlim]
  by (simp add: parse_rlim_def render_rlim_def rlim_items_def empty_rlim_def split: option.splits)


section \<open>The message\<close>

definition msg_items :: "GovApplyMsg \<Rightarrow> gov_state item list" where
  "msg_items m =
     (''pid'', show_int (msg_pid m),
       \<lambda>st. st\<lparr>st_msg := st_msg st\<lparr>msg_pid := msg_pid m\<rparr>, has_pid := True\<rparr>) #
     opt_item ''cpu'' render_cpu (\<lambda>c st. st\<lparr>st_msg := st_msg st\<lparr>msg_cpu := Some c\<rparr>\<rparr>) (msg_cpu m) @
     opt_item ''mem'' render_mem (\<lambda>c st. st\<lparr>st_msg := st_msg st\<lparr>msg_mem := Some c\<rparr>\<rparr>) (msg_mem m) @
     opt_item ''pids'' render_pids (\<lambda>c st. st\<lparr>st_msg := st_msg st\<lparr>msg_pids := Some c\<rparr>\<rparr>) (msg_pids m) @
     opt_item ''rlim'' render_rlim (\<lambda>c st. st\<lparr>st_msg := st_msg st\<lparr>msg_rlim := Some c\<rparr>\<rparr>) (msg_rlim m) @
     opt_item ''oom_score_adj'' show_int
       (\<lambda>v st. st\<lparr>st_msg := st_msg st\<lparr>msg_oom_score_adj := Some v\<rparr>\<rparr>) (msg_oom_score_adj m)"

lemma render_shape [simp]:
  "\<not> is_whitespace (last (render_cpu c))" "render_cpu c \<noteq> []"
  "\<not> is_whitespace (last (render_mem d))" "render_mem d \<noteq> []"
  "\<not> is_whitespace (last (render_pids e))" "render_pids e \<noteq> []"
  "\<not> is_whitespace (last (render_rlim f))" "render_rlim f \<noteq> []"
  by (simp_all add: render_cpu_def render_mem_def render_pids_def render_rlim_def)

lemma gov_field_pid_show:
  "follow r \<Longrightarrow> 0 < v \<Longrightarrow> v < 2 ^ 63 \<Longrightarrow>
   gov_field ''pid'' (show_int v @ r) st =
     Ok (st\<lparr>st_msg := st_msg st\<lparr>msg_pid := as_int32 v\<rparr>, has_pid := True\<rparr>, r)"
  by (simp add: gov_field_def oom_field_def store_def parse_int_value_show)

lemma opt_item_good:
  "pred_option P v \<Longrightarrow> (\<And>x. P x \<Longrightarrow> good_item field (k, sh x, st x)) \<Longrightarrow>
   list_all (good_item field) (opt_item k sh st v)"
  by (cases v) (simp_all add: opt_item_def)

lemma good_sub_items:
  "wf_cpu c \<and> pred_option plain (affinity c) \<Longrightarrow>
     good_item gov_field (''cpu'', render_cpu c, \<lambda>st. st\<lparr>st_msg := st_msg st\<lparr>msg_cpu := Some c\<rparr>\<rparr>)"
  "wf_mem d \<Longrightarrow> good_item gov_field (''mem'', render_mem d, \<lambda>st. st\<lparr>st_msg := st_msg st\<lparr>msg_mem := Some d\<rparr>\<rparr>)"
  "wf_pids e \<Longrightarrow> good_item gov_field (''pids'', render_pids e, \<lambda>st. st\<lparr>st_msg := st_msg st\<lparr>msg_pids := Some e\<rparr>\<rparr>)"
  "wf_rlim f \<Longrightarrow> good_item gov_field (''rlim'', render_rlim f, \<lambda>st. st\<lparr>st_msg := st_msg st\<lparr>msg_rlim := Some f\<rparr>\<rparr>)"
  by (simp_all add: good_item_def gov_field_def oom_field_def embed_def parse_cpu_render parse_mem_render
      parse_pids_render parse_rlim_render)

lemma good_oom_item:
  "- 1000 \<le> v \<and> v \<le> 1000 \<Longrightarrow>
   good_item gov_field (''oom_score_adj'', show_int v,
     \<lambda>st. st\<lparr>st_msg := st_msg st\<lparr>msg_oom_score_adj := Some v\<rparr>\<rparr>)"
  by (simp add: good_item_def gov_field_def oom_field_def store_def parse_int_value_show)

lemma msg_items_good:
  assumes "renderable m"
  shows "list_all (good_item gov_field) (msg_items m)"
proof -
  have pid: "0 < msg_pid m" "msg_pid m < 2 ^ 31"
    using assms by (simp_all add: renderable_def wf_msg_def)
  have "good_item gov_field (''pid'', show_int (msg_pid m),
       \<lambda>st. st\<lparr>st_msg := st_msg st\<lparr>msg_pid := msg_pid m\<rparr>, has_pid := True\<rparr>)"
    using pid by (simp add: good_item_def gov_field_pid_show as_int32_id)
  moreover have "pred_option (\<lambda>c. wf_cpu c \<and> pred_option plain (affinity c)) (msg_cpu m)"
    using assms by (cases "msg_cpu m") (simp_all add: renderable_def wf_msg_def)
  moreover have "pred_option wf_mem (msg_mem m)" "pred_option wf_pids (msg_pids m)"
    "pred_option wf_rlim (msg_rlim m)"
    "pred_option (\<lambda>v. - 1000 \<le> v \<and> v \<le> 1000) (msg_oom_score_adj m)"
    using assms by (simp_all add: renderable_def wf_msg_def)
  ultimately show ?thesis
    unfolding msg_items_def list_all_append list.pred_inject
    by (intro conjI opt_item_good) (assumption | rule good_sub_items good_oom_item)+
qed

lemma msg_items_text: "braces (map item_text (msg_items m)) = render_msg m"
  by (simp add: msg_items_def render_msg_def)

lemma apply_msg_items: "apply_items (msg_items m) init_state = \<lparr>st_msg = m, has_pid = True\<rparr>"
  by (cases m) (simp add: msg_items_def init_state_def empty_msg_def split: option.splits)

lemma parse_gov_apply_braces:
  assumes "length (braces fs) \<le> 512" and "trim (join fs) = join fs"
  shows "parse_gov_apply (braces fs) =
    finish (parse_fields (length (join fs)) gov_field ''failed to parse key''
      ''missing colon after key'' (join fs) init_state)"
proof -
  have "trim (braces fs) = braces fs"
    by (rule trim_id) (simp_all add: braces_def is_whitespace_def)
  then show ?thesis
    using assms by (simp add: parse_gov_apply_def kMaxPayloadSize_def Let_def)
      (simp add: braces_def butlast_append)
qed

lemma parse_gov_apply_items:
  assumes "list_all (good_item gov_field) items" and "length (braces (map item_text items)) \<le> 512"
  shows "parse_gov_apply (braces (map item_text items)) = finish (Ok (apply_items items init_state))"
  using parse_gov_apply_braces [OF assms(2) trim_join [OF assms(1)]]
    parse_fields_join [OF assms(1) length_join]
  by simp

section \<open>Properties\<close>

text \<open>
  C5: round trip: a well-formed message with a positive process id, written as compact JSON
  in at most 512 bytes, is acknowledged and parsed back to itself, for every combination of
  optional fields and any affinity text free of quotes, backslashes and braces.
\<close>

theorem parse_render_msg:
  assumes "renderable m" and "length (render_msg m) \<le> 512"
  shows "parse_gov_apply (render_msg m) =
    Returned \<lparr>success = True, ack = ACK, msg = m, error_detail = []\<rparr>"
  using parse_gov_apply_items [OF msg_items_good [OF assms(1)]] assms(2)
  by (simp add: msg_items_text apply_msg_items finish_def)

theorem parse_render_msg_witness:
  "parse_gov_apply ''{\"pid\":1234,\"cpu\":{\"affinity\":\"0-3\",\"nice\":-10},\"pids\":{\"max\":256}}'' =
    Returned \<lparr>success = True, ack = ACK,
      msg = \<lparr>msg_pid = 1234, msg_cpu = Some \<lparr>affinity = Some ''0-3'', nice = Some (- 10), max_pct = None\<rparr>,
        msg_mem = None, msg_pids = Some \<lparr>pids_max = Some 256\<rparr>, msg_rlim = None, msg_oom_score_adj = None\<rparr>,
      error_detail = []\<rparr>"
proof -
  let ?m = "\<lparr>msg_pid = 1234, msg_cpu = Some \<lparr>affinity = Some ''0-3'', nice = Some (- 10), max_pct = None\<rparr>,
        msg_mem = None, msg_pids = Some \<lparr>pids_max = Some 256\<rparr>, msg_rlim = None, msg_oom_score_adj = None\<rparr>"
  have r: "render_msg ?m = ''{\"pid\":1234,\"cpu\":{\"affinity\":\"0-3\",\"nice\":-10},\"pids\":{\"max\":256}}''"
    by code_simp
  have "renderable ?m" by (simp add: renderable_def wf_defs plain_def)
  from parse_render_msg [OF this] show ?thesis by (simp add: r)
qed

text \<open>
  the process id is narrowed to 32 bits after the sign check: a message that carries only
  a positive id below \<open>2 ^ 63\<close> is acknowledged with the low 32 bits of the id (0 for
  \<open>2 ^ 32\<close>), and an id from \<open>2 ^ 63\<close> on makes \<open>std::stoll\<close> throw out of the parser.
\<close>

theorem pid_is_narrowed:
  assumes "0 < n" and "length (show_nat n) \<le> 500"
  shows "parse_gov_apply (''{\"pid\":'' @ show_nat n @ ''}'') =
    (if n < 2 ^ 63
     then Returned \<lparr>success = True, ack = ACK, msg = empty_msg\<lparr>msg_pid := as_int32 (int n)\<rparr>,
            error_detail = []\<rparr>
     else Crashed Out_Of_Range)" (is "_ = ?res")
proof -
  let ?t = "show_field ''pid'' (show_nat n)"
  have sh: "show_int (int n) = show_nat n" by (simp add: show_int_def)
  have tx: "''{\"pid\":'' @ show_nat n @ ''}'' = braces [?t]"
    by (simp add: braces_def show_field_def)
  have len: "length (braces [?t]) \<le> 512"
    using assms(2) by (simp add: braces_def show_field_def)
  have "parse_gov_apply (braces [?t]) = ?res"
  proof (cases "n < 2 ^ 63")
    case True
    let ?it = "(''pid'', show_nat n, \<lambda>st. st\<lparr>st_msg := st_msg st\<lparr>msg_pid := as_int32 (int n)\<rparr>, has_pid := True\<rparr>)"
    have "list_all (good_item gov_field) [?it]"
      using gov_field_pid_show [of _ "int n"] True assms(1) by (simp add: good_item_def sh)
    from parse_gov_apply_items [OF this] len True show ?thesis
      by (simp add: finish_def init_state_def)
  next
    case False
    have "trim (join [?t]) = join [?t]"
      by (simp, rule trim_id) (simp_all add: show_field_def is_whitespace_def [of "CHR 0x22"])
    moreover have "parse_fields (length ?t) gov_field bk nc ?t init_state = Crash Out_Of_Range" for bk nc
    proof -
      have "parse_key ?t = Some (''pid'', CHR '':'' # show_nat n)"
        using parse_key_show_field [of "''pid''" "CHR '':'' # show_nat n"] by (simp add: show_field_def)
      moreover have "gov_field ''pid'' (show_nat n) init_state = Crash Out_Of_Range"
        using parse_int_value_overflow [of "[]" n] False
        by (simp add: gov_field_def oom_field_def store_def follow_def)
      moreover obtain c cs k where "?t = c # cs" "length ?t = Suc k"
        by (simp add: show_field_def)
      ultimately show ?thesis by simp
    qed
    ultimately show ?thesis
      using parse_gov_apply_braces [OF len] False by (simp add: finish_def)
  qed
  then show ?thesis by (simp only: tx)
qed

theorem pid_is_narrowed_witness:
  "parse_gov_apply ''{\"pid\":4294967296}'' =
     Returned \<lparr>success = True, ack = ACK, msg = empty_msg, error_detail = []\<rparr>"
proof -
  have s: "show_nat 4294967296 = ''4294967296''" by code_simp
  have z: "as_int32 4294967296 = 0" by (simp add: as_int32_def)
  show ?thesis
    using pid_is_narrowed [of 4294967296] by (simp add: s z empty_msg_def)
qed

text \<open>
  braces are matched without looking for the end of the text: a message whose last closing
  brace is missing is acknowledged with the final digit of the last value cut off (15 becomes 1),
  and a sub-object that consists of its opening brace only is an undefined read.
\<close>

theorem unbalanced_object:
  "parse_gov_apply ''{\"pid\":1,\"cpu\":{\"nice\":15}'' =
     Returned \<lparr>success = True, ack = ACK,
       msg = empty_msg\<lparr>msg_pid := 1, msg_cpu := Some (empty_cpu\<lparr>nice := Some 1\<rparr>)\<rparr>,
       error_detail = []\<rparr> \<and>
   parse_gov_apply ''{\"pid\":1,\"cpu\":{}'' = Crashed Undefined_Behaviour"
  by code_simp

end
