(* ===== verification/Process_Governor.thy ===== *)
theory Process_Governor
  imports Gov_Rule_Roundtrip "HOL-Library.AList"
begin

text \<open>
  \<open>ProcessGovernor\<close> (\<open>src/governor/process_governor.cpp\<close>): a bounded queue of parsed
  messages, one thread that takes them off and applies them to the target process, the table
  of applied rules and the counters. The system calls are the parameters of the record
  \<open>gov_os\<close>; an exception that leaves the apply thread ends the process (\<open>std::terminate\<close>).
\<close>

unbundle bit_operations_syntax

section \<open>CPU lists\<close>

definition cpu_setsize :: int where "cpu_setsize = 1024"

text \<open>The parts between commas; a comma at the end opens no further part.\<close>

definition split_parts :: "string \<Rightarrow> string list" where
  "split_parts s = getlines (CHR '','') s"

definition strip_blanks :: "string \<Rightarrow> string" where
  "strip_blanks s = filter (\<lambda>c. c \<noteq> CHR '' '' \<and> c \<noteq> CHR 0x09) s"

text \<open>A part is a number or two numbers around its first dash; \<open>std::stoi\<close> may throw.\<close>

definition part_range :: "string \<Rightarrow> (int \<times> int) outcome" where
  "part_range part =
     (if CHR ''-'' \<in> set part then
        (case stoi (takeWhile (\<lambda>c. c \<noteq> CHR ''-'') part) of
           Inl e \<Rightarrow> Inl e
         | Inr a \<Rightarrow> (case stoi (tl (dropWhile (\<lambda>c. c \<noteq> CHR ''-'') part)) of
             Inl e \<Rightarrow> Inl e
           | Inr b \<Rightarrow> Inr (a, b)))
      else (case stoi part of Inl e \<Rightarrow> Inl e | Inr a \<Rightarrow> Inr (a, a)))"

fun part_ranges :: "string list \<Rightarrow> (int \<times> int) list outcome" where
  "part_ranges [] = Inr []"
| "part_ranges (p # ps) =
     (let part = strip_blanks p in
      if part = [] then part_ranges ps
      else (case part_range part of
              Inl e \<Rightarrow> Inl e
            | Inr r \<Rightarrow> (case part_ranges ps of Inl e \<Rightarrow> Inl e | Inr rs \<Rightarrow> Inr (r # rs))))"

text \<open>The loop that rejects a range with a CPU outside the set.\<close>

function range_ok :: "int \<Rightarrow> int \<Rightarrow> bool" where
  "range_ok i e =
     (if e < i then True else if i < 0 \<or> cpu_setsize \<le> i then False else range_ok (i + 1) e)"
  by pat_completeness auto
termination
  by (relation "measure (\<lambda>(i, e). nat (e + 1 - i))") auto

declare range_ok.simps [simp del]

text \<open>\<open>Inr None\<close> is the result \<open>false\<close>; a \<open>cpu_set_t\<close> is the set of its CPUs.\<close>

definition parse_cpu_list :: "string \<Rightarrow> int set option outcome" where
  "parse_cpu_list s =
     (case part_ranges (split_parts s) of
        Inl e \<Rightarrow> Inl e
      | Inr rs \<Rightarrow>
          if rs = [] then Inr None
          else if list_all (\<lambda>(a, b). range_ok a b) rs
          then Inr (Some (set (concat (map (\<lambda>(a, b). [a..b]) rs))))
          else Inr None)"

text \<open>Two helpers of the file that no code calls; \<open>catch (...)\<close> makes every exception a failure.\<close>

definition parse_uint8_value_simple :: "string \<Rightarrow> nat option" where
  "parse_uint8_value_simple s = (case stoull s of Inl e \<Rightarrow> None | Inr v \<Rightarrow> if 255 < v then None else Some v)"

definition parse_int8_value_simple :: "string \<Rightarrow> int option" where
  "parse_int8_value_simple s =
     (case stoll s of Inl e \<Rightarrow> None | Inr v \<Rightarrow> if v < - 128 \<or> 127 < v then None else Some v)"

section \<open>Results and the operating system\<close>

text \<open>\<open>ApplyField\<close>: one bit per kind of field, in a byte.\<close>

type_synonym apply_field = "8 word"

definition AF_NONE :: apply_field where "AF_NONE = 0"
definition CPU_AFFINITY :: apply_field where "CPU_AFFINITY = 1"
definition CPU_NICE :: apply_field where "CPU_NICE = 2"
definition CPU_MAX_PCT :: apply_field where "CPU_MAX_PCT = 4"
definition MEM_MAX_BYTES :: apply_field where "MEM_MAX_BYTES = 8"
definition PIDS_MAX :: apply_field where "PIDS_MAX = 16"
definition RLIM_NOFILE :: apply_field where "RLIM_NOFILE = 32"
definition RLIM_CORE :: apply_field where "RLIM_CORE = 64"
definition OOM_SCORE_ADJ :: apply_field where "OOM_SCORE_ADJ = 128"

lemmas field_defs = AF_NONE_def CPU_AFFINITY_def CPU_NICE_def CPU_MAX_PCT_def MEM_MAX_BYTES_def
  PIDS_MAX_def RLIM_NOFILE_def RLIM_CORE_def OOM_SCORE_ADJ_def

definition has_field :: "apply_field \<Rightarrow> apply_field \<Rightarrow> bool" where
  "has_field fs f \<longleftrightarrow> fs AND f \<noteq> 0"

record ApplyResult =
  ar_success :: bool
  ar_err :: int
  ar_detail :: string
  ar_applied :: apply_field

definition ar_init :: ApplyResult where
  "ar_init = \<lparr>ar_success = False, ar_err = 0, ar_detail = [], ar_applied = AF_NONE\<rparr>"

datatype resource = RLIMIT_NOFILE | RLIMIT_CORE

text \<open>Opening a file for writing fails with an \<open>errno\<close>, or one \<open>write\<close> returns a count.\<close>

datatype write_result = Open_Failed int | Wrote int int

text \<open>
  The system calls, each over the state \<open>'w\<close> of the system: a call that changes it returns its
  \<open>errno\<close> (0 for success) and the new state. \<open>os_getrlimit\<close> reads the limits of the calling
  process, as \<open>getrlimit\<close> does.
\<close>

record 'w gov_os =
  os_alive :: "int \<Rightarrow> 'w \<Rightarrow> bool"
  os_setaffinity :: "int \<Rightarrow> int set \<Rightarrow> 'w \<Rightarrow> int \<times> 'w"
  os_setpriority :: "int \<Rightarrow> int \<Rightarrow> 'w \<Rightarrow> int \<times> 'w"
  os_getrlimit :: "resource \<Rightarrow> 'w \<Rightarrow> int + nat \<times> nat"
  os_prlimit :: "int \<Rightarrow> resource \<Rightarrow> nat \<times> nat \<Rightarrow> 'w \<Rightarrow> int \<times> 'w"
  os_write_file :: "string \<Rightarrow> string \<Rightarrow> 'w \<Rightarrow> write_result \<times> 'w"
  os_strerror :: "int \<Rightarrow> string"

definition EINVAL :: int where "EINVAL = 22"
definition ESRCH :: int where "ESRCH = 3"

definition ar_ok :: ApplyResult where
  "ar_ok = ar_init\<lparr>ar_success := True\<rparr>"

definition ar_fail :: "int \<Rightarrow> string \<Rightarrow> ApplyResult" where
  "ar_fail e d = ar_init\<lparr>ar_err := e, ar_detail := d\<rparr>"

definition ar_errno :: "'w gov_os \<Rightarrow> int \<Rightarrow> ApplyResult" where
  "ar_errno os e = (if e = 0 then ar_ok else ar_fail e (os_strerror os e))"

section \<open>Applying one kind of field\<close>

definition apply_affinity :: "'w gov_os \<Rightarrow> int \<Rightarrow> string \<Rightarrow> 'w \<Rightarrow> ApplyResult outcome \<times> 'w" where
  "apply_affinity os pid aff w =
     (case parse_cpu_list aff of
        Inl e \<Rightarrow> (Inl e, w)
      | Inr None \<Rightarrow> (Inr (ar_fail EINVAL ''invalid CPU list format''), w)
      | Inr (Some cpus) \<Rightarrow>
          (let (e, w') = os_setaffinity os pid cpus w in (Inr (ar_errno os e), w')))"

definition apply_nice :: "'w gov_os \<Rightarrow> int \<Rightarrow> int \<Rightarrow> 'w \<Rightarrow> ApplyResult \<times> 'w" where
  "apply_nice os pid n w =
     (let (e, w') = os_setpriority os pid n w in (ar_errno os e, w'))"

text \<open>
  One resource: \<open>rl\<close> is filled field by field. A missing field makes \<open>getrlimit\<close> fill the
  whole structure, the field set before included.
\<close>

definition fill_rlimit ::
  "'w gov_os \<Rightarrow> resource \<Rightarrow> nat option \<Rightarrow> nat option \<Rightarrow> 'w \<Rightarrow> int + nat \<times> nat" where
  "fill_rlimit os res soft hard w =
     (case soft of
        Some cur \<Rightarrow>
          (case hard of
             Some mx \<Rightarrow> Inr (cur, mx)
           | None \<Rightarrow> os_getrlimit os res w)
      | None \<Rightarrow>
          (case os_getrlimit os res w of
             Inl e \<Rightarrow> Inl e
           | Inr (cur, mx) \<Rightarrow>
               (case hard of
                  Some h \<Rightarrow> Inr (cur, h)
                | None \<Rightarrow> os_getrlimit os res w)))"

definition apply_resource ::
  "'w gov_os \<Rightarrow> int \<Rightarrow> resource \<Rightarrow> string \<Rightarrow> nat option \<Rightarrow> nat option \<Rightarrow> 'w \<Rightarrow> ApplyResult \<times> 'w" where
  "apply_resource os pid res what soft hard w =
     (if soft = None \<and> hard = None then (ar_ok, w)
      else (case fill_rlimit os res soft hard w of
              Inl e \<Rightarrow> (ar_fail e (os_strerror os e), w)
            | Inr rl \<Rightarrow>
                (let (e, w') = os_prlimit os pid res rl w in
                 (if e = 0 then ar_ok else ar_fail e (what @ os_strerror os e), w'))))"

definition apply_rlimit :: "'w gov_os \<Rightarrow> int \<Rightarrow> RlimPolicy \<Rightarrow> 'w \<Rightarrow> ApplyResult \<times> 'w" where
  "apply_rlimit os pid rlim w =
     (let (r, w1) = apply_resource os pid RLIMIT_NOFILE ''prlimit RLIMIT_NOFILE: ''
                      (nofile_soft rlim) (nofile_hard rlim) w
      in if \<not> ar_success r then (r, w1)
         else apply_resource os pid RLIMIT_CORE ''prlimit RLIMIT_CORE: ''
                (core_soft rlim) (core_hard rlim) w1)"

definition apply_oom_score_adj :: "'w gov_os \<Rightarrow> int \<Rightarrow> int \<Rightarrow> 'w \<Rightarrow> ApplyResult \<times> 'w" where
  "apply_oom_score_adj os pid v w =
     (let txt = show_int v;
          (res, w') = os_write_file os (''/proc/'' @ show_int pid @ ''/oom_score_adj'') txt w
      in case res of
           Open_Failed e \<Rightarrow> (ar_fail e (os_strerror os e), w')
         | Wrote n e \<Rightarrow> (if n \<noteq> int (length txt) then ar_fail e (os_strerror os e) else ar_ok, w'))"


section \<open>Applying a message\<close>

text \<open>
  The steps run in the source's order; the first that fails ends the call with its own result
  (in which no field is marked), a success adds its bit, an exception escapes.
\<close>

type_synonym 'w rule_step = "('w \<Rightarrow> ApplyResult outcome \<times> 'w) \<times> apply_field"

fun run_steps :: "'w rule_step list \<Rightarrow> apply_field \<Rightarrow> 'w \<Rightarrow> ApplyResult outcome \<times> 'w" where
  "run_steps [] acc w = (Inr (ar_init\<lparr>ar_success := True, ar_applied := acc\<rparr>), w)"
| "run_steps ((act, fld) # rest) acc w =
     (case act w of
        (Inl e, w') \<Rightarrow> (Inl e, w')
      | (Inr r, w') \<Rightarrow> if ar_success r then run_steps rest (acc OR fld) w' else (Inr r, w'))"

definition returns :: "('w \<Rightarrow> ApplyResult \<times> 'w) \<Rightarrow> 'w \<Rightarrow> ApplyResult outcome \<times> 'w" where
  "returns act w = (let (r, w') = act w in (Inr r, w'))"

definition rlim_bits :: "RlimPolicy \<Rightarrow> apply_field" where
  "rlim_bits rl =
     (if nofile_soft rl \<noteq> None \<or> nofile_hard rl \<noteq> None then RLIM_NOFILE else AF_NONE) OR
     (if core_soft rl \<noteq> None \<or> core_hard rl \<noteq> None then RLIM_CORE else AF_NONE)"

definition rule_steps :: "'w gov_os \<Rightarrow> int \<Rightarrow> GovApplyMsg \<Rightarrow> 'w rule_step list" where
  "rule_steps os pid m =
     (case msg_cpu m of
        None \<Rightarrow> []
      | Some c \<Rightarrow>
          (case affinity c of None \<Rightarrow> [] | Some a \<Rightarrow> [(apply_affinity os pid a, CPU_AFFINITY)]) @
          (case nice c of None \<Rightarrow> [] | Some n \<Rightarrow> [(returns (apply_nice os pid n), CPU_NICE)])) @
     (case msg_rlim m of
        None \<Rightarrow> []
      | Some rl \<Rightarrow> [(returns (apply_rlimit os pid rl), rlim_bits rl)]) @
     (case msg_oom_score_adj m of
        None \<Rightarrow> []
      | Some v \<Rightarrow> [(returns (apply_oom_score_adj os pid v), OOM_SCORE_ADJ)])"

definition apply_rules :: "'w gov_os \<Rightarrow> int \<Rightarrow> GovApplyMsg \<Rightarrow> 'w \<Rightarrow> ApplyResult outcome \<times> 'w" where
  "apply_rules os pid m w =
     (if \<not> os_alive os pid w then (Inr (ar_fail ESRCH ''process not found''), w)
      else run_steps (rule_steps os pid m) AF_NONE w)"

section \<open>The queue and the apply thread\<close>

definition kQueueCapacity :: nat where "kQueueCapacity = 256"

text \<open>The two counters are \<open>uint64_t\<close> in the code and do not wrap within 2^64 messages; they are natural numbers here.\<close>

record gov_stats =
  messages_processed :: nat
  messages_failed :: nat
  last_err :: int
  last_err_detail :: string

record governor =
  ingress_queue :: "GovApplyMsg list"
  running :: bool
  rules :: "(int \<times> GovApplyMsg) list"
  stats :: gov_stats

definition new_governor :: governor where
  "new_governor = \<lparr>ingress_queue = [], running = False, rules = [],
     stats = \<lparr>messages_processed = 0, messages_failed = 0, last_err = 0, last_err_detail = []\<rparr>\<rparr>"

definition gov_start :: "governor \<Rightarrow> governor" where
  "gov_start g = (if running g then g else g\<lparr>running := True\<rparr>)"

definition gov_stop :: "governor \<Rightarrow> governor" where
  "gov_stop g = (if \<not> running g then g else g\<lparr>running := False\<rparr>)"

definition enqueue :: "GovApplyMsg \<Rightarrow> governor \<Rightarrow> bool \<times> governor" where
  "enqueue m g =
     (if kQueueCapacity \<le> length (ingress_queue g) then (False, g)
      else (True, g\<lparr>ingress_queue := ingress_queue g @ [m]\<rparr>))"

definition queue_size :: "governor \<Rightarrow> nat" where
  "queue_size g = length (ingress_queue g)"

text \<open>The locked part of an iteration that takes a message off the queue.\<close>

definition pop_msg :: "governor \<Rightarrow> GovApplyMsg option \<times> governor" where
  "pop_msg g = (case ingress_queue g of
       [] \<Rightarrow> (None, g)
     | m # q \<Rightarrow> (Some m, g\<lparr>ingress_queue := q\<rparr>))"

text \<open>The locked part that records a result.\<close>

definition commit :: "GovApplyMsg \<Rightarrow> ApplyResult \<Rightarrow> governor \<Rightarrow> governor" where
  "commit m r g =
     (if ar_success r
      then g\<lparr>stats := (stats g)\<lparr>messages_processed := messages_processed (stats g) + 1\<rparr>,
             rules := AList.update (msg_pid m) m (rules g)\<rparr>
      else g\<lparr>stats := (stats g)\<lparr>messages_failed := messages_failed (stats g) + 1,
                                last_err := ar_err r, last_err_detail := ar_detail r\<rparr>\<rparr>)"

text \<open>
  One iteration of \<open>apply_loop\<close>. A default-constructed message has process id 0, so a popped
  message with that id is taken for an empty queue.
\<close>

definition apply_iteration :: "'w gov_os \<Rightarrow> governor \<times> 'w \<Rightarrow> (governor \<times> 'w) outcome" where
  "apply_iteration os = (\<lambda>(g, w).
     (case pop_msg g of
        (None, g') \<Rightarrow> Inr (g', w)
      | (Some m, g') \<Rightarrow>
          if msg_pid m = 0 then Inr (g', w)
          else (case apply_rules os (msg_pid m) m w of
                  (Inl e, w') \<Rightarrow> Inl Terminate
                | (Inr r, w') \<Rightarrow> Inr (commit m r g', w'))))"

definition get_stats :: "governor \<Rightarrow> gov_stats \<times> nat" where
  "get_stats g = (stats g, length (rules g))"


section \<open>CPU lists: what is accepted\<close>

lemma range_ok_iff: "range_ok i e \<longleftrightarrow> {i..e} \<subseteq> {0..<cpu_setsize}"
proof (induction i e rule: range_ok.induct)
  case (1 i e)
  show ?case
  proof (cases "i \<le> e \<and> 0 \<le> i \<and> i < cpu_setsize")
    case True
    then have "{i..e} = insert i {i + 1..e}" by auto
    with 1 True show ?thesis by (subst range_ok.simps) auto
  next
    case False
    then show ?thesis
      by (subst range_ok.simps) (auto dest: subsetD [where c = i])
  qed
qed

text \<open>The union of the ranges, as a client means them.\<close>

definition cpus_of :: "(int \<times> int) list \<Rightarrow> int set" where
  "cpus_of rs = (\<Union>(a, b) \<in> set rs. {a..b})"

lemma cpus_of_concat: "set (concat (map (\<lambda>(a, b). [a..b]) rs)) = cpus_of rs"
  by (auto simp: cpus_of_def)

lemma all_ranges_ok: "list_all (\<lambda>(a, b). range_ok a b) rs \<longleftrightarrow> cpus_of rs \<subseteq> {0..<cpu_setsize}"
  by (induction rs) (auto simp: range_ok_iff cpus_of_def)

definition show_range :: "int \<times> int \<Rightarrow> string" where
  "show_range r = (if fst r = snd r then show_int (fst r) else show_int (fst r) @ CHR ''-'' # show_int (snd r))"

definition show_cpu_list :: "(int \<times> int) list \<Rightarrow> string" where
  "show_cpu_list rs = join (map show_range rs)"

definition cpu_range :: "int \<times> int \<Rightarrow> bool" where
  "cpu_range r \<longleftrightarrow> 0 \<le> fst r \<and> fst r < cpu_setsize \<and> 0 \<le> snd r \<and> snd r < cpu_setsize"

lemma show_range_chars:
  assumes "cpu_range r"
  shows "\<forall>c \<in> set (show_range r). is_digit c \<or> c = CHR ''-''"
  using assms show_nat_digits by (auto simp: show_range_def show_int_def cpu_range_def)

lemma show_range_nonempty: "show_range r \<noteq> []"
  by (simp add: show_range_def show_int_def)

lemma part_range_show:
  assumes "cpu_range r"
  shows "part_range (show_range r) = Inr r"
proof -
  obtain a b where r: "r = (a, b)" by (cases r)
  have ab: "0 \<le> a" "a < 2 ^ 31" "0 \<le> b" "b < 2 ^ 31"
    using assms by (auto simp: r cpu_range_def cpu_setsize_def)
  have show_ab: "show_int a = show_nat (nat a)" "show_int b = show_nat (nat b)"
    using ab by (simp_all add: show_int_def)
  have dash: "CHR ''-'' \<notin> set (show_nat n)" for n
    using show_nat_digits [of n] by (auto simp: is_digit_def)
  then have tw: "takeWhile (\<lambda>c. c \<noteq> CHR ''-'') (show_nat n @ CHR ''-'' # s) = show_nat n"
    "dropWhile (\<lambda>c. c \<noteq> CHR ''-'') (show_nat n @ CHR ''-'' # s) = CHR ''-'' # s" for n s
    by (subst takeWhile_append2 dropWhile_append2; auto)+
  show ?thesis
    using ab dash by (simp add: r part_range_def show_range_def show_ab tw stoi_show_nat)
qed

lemma part_ranges_show:
  "list_all cpu_range rs \<Longrightarrow> part_ranges (map show_range rs) = Inr rs"
proof (induction rs)
  case Nil
  then show ?case by simp
next
  case (Cons r rs)
  then have "strip_blanks (show_range r) = show_range r"
    using show_range_chars [of r] by (auto simp: strip_blanks_def is_digit_def intro!: filter_True)
  with Cons show ?case
    by (simp add: show_range_nonempty part_range_show)
qed


text \<open>
  C33: round trip for CPU lists: any non-empty list of CPUs and ranges inside the CPU set, written
  with dashes and commas, is parsed to the set of the CPUs it names.
\<close>

theorem parse_cpu_list_show:
  assumes "rs \<noteq> []" and "list_all cpu_range rs"
  shows "parse_cpu_list (show_cpu_list rs) = Inr (Some (cpus_of rs))"
proof -
  have "list_all (\<lambda>p. p \<noteq> [] \<and> (\<forall>c \<in> set p. c \<noteq> CHR '','')) (map show_range rs)"
    using assms(2) show_range_chars
    by (fastforce simp: list_all_iff show_range_nonempty is_digit_def)
  then have "list_all (\<lambda>p. p \<noteq> [] \<and> CHR '','' \<notin> set p) (map show_range rs)"
    by (auto simp: list_all_iff)
  then have "split_parts (show_cpu_list rs) = map show_range rs"
    unfolding show_cpu_list_def split_parts_def by (rule getlines_join)
  moreover have "cpus_of rs \<subseteq> {0..<cpu_setsize}"
    using assms(2) by (fastforce simp: cpus_of_def list_all_iff cpu_range_def)
  ultimately show ?thesis
    using assms all_ranges_ok [of rs]
    by (simp add: parse_cpu_list_def part_ranges_show cpus_of_concat del: set_concat)
qed

theorem parse_cpu_list_show_witness:
  "parse_cpu_list ''0-3,5'' = Inr (Some {0, 1, 2, 3, 5})"
proof -
  have s: "show_cpu_list [(0, 3), (5, 5)] = ''0-3,5''" by code_simp
  have "cpus_of [(0, 3), (5, 5)] = {0, 1, 2, 3, 5}"
    by (auto simp: cpus_of_def)
  then show ?thesis
    using parse_cpu_list_show [of "[(0, 3), (5, 5)]"] by (simp add: s cpu_range_def cpu_setsize_def)
qed

text \<open>The helpers for small numbers accept exactly the numbers of their type.\<close>

lemma parse_uint8_show: "parse_uint8_value_simple (show_nat n) = (if n \<le> 255 then Some n else None)"
  using show_nat_digits [of n] by (auto simp: parse_uint8_value_simple_def stoull_digits dec_value_show_nat)

lemma parse_int8_show: "parse_int8_value_simple (show_int v) = (if - 128 \<le> v \<and> v \<le> 127 then Some v else None)"
proof -
  have d: "show_nat k \<noteq> []" "\<forall>c \<in> set (show_nat k). is_digit c" for k using show_nat_digits [of k] by auto
  show ?thesis
    using stoll_digits [OF d, of "nat v"] stoll_minus_digits [OF d, of "nat (- v)"]
    by (auto simp: parse_int8_value_simple_def show_int_def dec_value_show_nat nat_less_iff split: sum.splits if_splits)
qed

section \<open>What a message sets\<close>

definition requested :: "GovApplyMsg \<Rightarrow> apply_field" where
  "requested m =
     (if Option.bind (msg_cpu m) affinity \<noteq> None then CPU_AFFINITY else AF_NONE) OR
     (if Option.bind (msg_cpu m) nice \<noteq> None then CPU_NICE else AF_NONE) OR
     (case msg_rlim m of None \<Rightarrow> AF_NONE | Some rl \<Rightarrow> rlim_bits rl) OR
     (if msg_oom_score_adj m \<noteq> None then OOM_SCORE_ADJ else AF_NONE)"

lemma run_steps_success:
  "run_steps steps acc w = (Inr r, w') \<Longrightarrow> ar_success r \<Longrightarrow> ar_applied r = foldl (OR) acc (map snd steps)"
  by (induction steps acc w rule: run_steps.induct) (auto split: prod.splits sum.splits if_splits)

lemma run_steps_failure:
  "run_steps steps acc w = (Inr r, w') \<Longrightarrow> \<not> ar_success r \<Longrightarrow>
   \<exists>act \<in> fst ` set steps. \<exists>u u'. act u = (Inr r, u')"
proof (induction steps acc w rule: run_steps.induct)
  case (2 act fld rest acc w)
  then show ?case by (fastforce split: prod.splits sum.splits if_splits)
qed auto

lemma step_bits: "foldl (OR) AF_NONE (map snd (rule_steps os pid m)) = requested m"
  by (auto simp: rule_steps_def requested_def AF_NONE_def ac_simps split: option.splits)

named_theorems apply_defs \<open>definitions of the steps that apply a message\<close>

declare apply_affinity_def [apply_defs] apply_nice_def [apply_defs] apply_rlimit_def [apply_defs]
  apply_resource_def [apply_defs] apply_oom_score_adj_def [apply_defs] returns_def [apply_defs]
  ar_errno_def [apply_defs] ar_fail_def [apply_defs] ar_ok_def [apply_defs] ar_init_def [apply_defs]

lemma step_marks_nothing:
  assumes "act \<in> fst ` set (rule_steps os pid m)" and "act u = (Inr r, u')"
  shows "ar_applied r = AF_NONE"
  using assms
  by (auto simp: rule_steps_def apply_defs Let_def
      split: option.splits sum.splits prod.splits if_splits write_result.splits)

lemma requested_not_cgroup:
  "\<not> has_field (requested m) CPU_MAX_PCT" "\<not> has_field (requested m) MEM_MAX_BYTES"
  "\<not> has_field (requested m) PIDS_MAX" "\<not> has_field AF_NONE f"
  by (auto simp: requested_def has_field_def field_defs rlim_bits_def split: option.splits)


text \<open>A system whose state is the list of limits set by \<open>prlimit\<close>, for the witnesses.\<close>

definition demo_os :: "(int \<times> resource \<times> nat \<times> nat) list gov_os" where
  "demo_os = \<lparr>os_alive = (\<lambda>pid w. 0 < pid), os_setaffinity = (\<lambda>pid cpus w. (0, w)),
     os_setpriority = (\<lambda>pid n w. (0, w)), os_getrlimit = (\<lambda>res w. Inr (1024, 4096)),
     os_prlimit = (\<lambda>pid res rl w. (0, w @ [(pid, res, rl)])),
     os_write_file = (\<lambda>path txt w. (Wrote (int (length txt)) 0, w)), os_strerror = (\<lambda>e. ''error'')\<rparr>"


text \<open>
  the limits handed to \<open>prlimit\<close>: a soft limit is honoured only together with a hard limit;
  a soft limit alone is overwritten by the governor's own limits, and a hard limit alone is paired
  with the governor's own soft limit rather than the target's.
\<close>

theorem rlimit_values:
  assumes "os_getrlimit os res w = Inr (own_cur, own_max)" and "soft \<noteq> None \<or> hard \<noteq> None"
  shows "snd (apply_resource os pid res what soft hard w) =
    snd (os_prlimit os pid res
      (case (soft, hard) of
         (Some s, Some h) \<Rightarrow> (s, h)
       | (Some s, None) \<Rightarrow> (own_cur, own_max)
       | (None, Some h) \<Rightarrow> (own_cur, h)
       | (None, None) \<Rightarrow> (own_cur, own_max)) w)"
  using assms by (auto simp: apply_resource_def fill_rlimit_def split: option.splits prod.splits)

theorem rlimit_values_witness:
  "snd (apply_resource demo_os 7 RLIMIT_NOFILE [] (Some 64) None []) = [(7, RLIMIT_NOFILE, 1024, 4096)]"
  using rlimit_values [of demo_os RLIMIT_NOFILE "[]" 1024 4096 "Some 64" None 7 "[]"]
  by (simp add: demo_os_def)

end
