(* ===== verification/Governor_Queue.thy ===== *)
theory Governor_Queue
  imports Process_Governor
begin

text \<open>
  The governor as a concurrent object: clients offer messages, the apply thread takes, applies
  and records them, and each locked section is one step, so that every interleaving of the two
  sides is a run. The queue is an interpretation of the interface of a bounded first-in
  first-out queue.
\<close>

section \<open>Bounded queues\<close>

locale bounded_fifo =
  fixes enq :: "'a \<Rightarrow> 's \<Rightarrow> bool \<times> 's"
    and deq :: "'s \<Rightarrow> 'a option \<times> 's"
    and items :: "'s \<Rightarrow> 'a list"
    and cap :: nat
  assumes enq_accepts: "fst (enq x s) \<longleftrightarrow> length (items s) < cap"
    and enq_items: "items (snd (enq x s)) = (if length (items s) < cap then items s @ [x] else items s)"
    and deq_takes: "fst (deq s) = (case items s of [] \<Rightarrow> None | x # xs \<Rightarrow> Some x)"
    and deq_items: "items (snd (deq s)) = tl (items s)"
begin

lemma enq_bounded: "length (items s) \<le> cap \<Longrightarrow> length (items (snd (enq x s))) \<le> cap"
  by (simp add: enq_items)

lemma deq_bounded: "length (items s) \<le> cap \<Longrightarrow> length (items (snd (deq s))) \<le> cap"
  by (simp add: deq_items)

lemma enq_log:
  "out @ items s = hist \<Longrightarrow> out @ items (snd (enq x s)) = (if fst (enq x s) then hist @ [x] else hist)"
  by (auto simp: enq_items enq_accepts)

lemma deq_log:
  "out @ items s = hist \<Longrightarrow>
   (case fst (deq s) of None \<Rightarrow> out | Some x \<Rightarrow> out @ [x]) @ items (snd (deq s)) = hist"
  by (auto simp: deq_takes deq_items split: list.splits)

lemma deq_empty: "fst (deq s) = None \<longleftrightarrow> items s = []"
  by (simp add: deq_takes split: list.splits)

end

interpretation gq: bounded_fifo enqueue pop_msg ingress_queue kQueueCapacity
  by unfold_locales (auto simp: enqueue_def pop_msg_def split: list.splits)

section \<open>Runs\<close>

text \<open>
  Where the apply thread stands between two locked sections, and what a step does. Clients may offer
  messages at any time, also before the start. \<open>stop\<close> clears the flag and waits until the thread has
  left its loop, after which the governor may be started again; a start is not modelled between the two.
\<close>

datatype apply_thread =
    Not_Running
  | At_Top
  | Applying GovApplyMsg
  | Recording GovApplyMsg ApplyResult
  | Terminated

datatype gov_event =
    Offered GovApplyMsg bool
  | Found_Empty
  | Dropped GovApplyMsg
  | Taken GovApplyMsg
  | Applied GovApplyMsg ApplyResult
  | Died GovApplyMsg
  | Recorded GovApplyMsg ApplyResult
  | Start_Requested
  | Stop_Requested
  | Loop_Left
  | World_Changed

type_synonym 'w gov_conf = "governor \<times> apply_thread \<times> 'w"

inductive gov_step :: "'w gov_os \<Rightarrow> 'w gov_conf \<Rightarrow> gov_event \<Rightarrow> 'w gov_conf \<Rightarrow> bool"
  for os :: "'w gov_os" where
  offers: "t \<noteq> Terminated \<Longrightarrow> enqueue m g = (b, g') \<Longrightarrow>
    gov_step os (g, t, w) (Offered m b) (g', t, w)"
| idles: "running g \<Longrightarrow> pop_msg g = (None, g') \<Longrightarrow>
    gov_step os (g, At_Top, w) Found_Empty (g', At_Top, w)"
| drops: "running g \<Longrightarrow> pop_msg g = (Some m, g') \<Longrightarrow> msg_pid m = 0 \<Longrightarrow>
    gov_step os (g, At_Top, w) (Dropped m) (g', At_Top, w)"
| takes: "running g \<Longrightarrow> pop_msg g = (Some m, g') \<Longrightarrow> msg_pid m \<noteq> 0 \<Longrightarrow>
    gov_step os (g, At_Top, w) (Taken m) (g', Applying m, w)"
| applies: "apply_rules os (msg_pid m) m w = (Inr r, w') \<Longrightarrow>
    gov_step os (g, Applying m, w) (Applied m r) (g, Recording m r, w')"
| dies: "apply_rules os (msg_pid m) m w = (Inl e, w') \<Longrightarrow>
    gov_step os (g, Applying m, w) (Died m) (g, Terminated, w')"
| records: "gov_step os (g, Recording m r, w) (Recorded m r) (commit m r g, At_Top, w)"
| starts: "\<not> running g \<Longrightarrow> gov_step os (g, Not_Running, w) Start_Requested (gov_start g, At_Top, w)"
| starts_again: "running g \<Longrightarrow> t \<noteq> Terminated \<Longrightarrow> gov_step os (g, t, w) Start_Requested (gov_start g, t, w)"
| stops: "gov_step os (g, t, w) Stop_Requested (gov_stop g, t, w)"
| leaves: "\<not> running g \<Longrightarrow> gov_step os (g, At_Top, w) Loop_Left (g, Not_Running, w)"
| world: "gov_step os (g, t, w) World_Changed (g, t, w')"

inductive_cases gov_stepE: "gov_step os (g, t, w) e (g', t', w')"

inductive gov_run :: "'w gov_os \<Rightarrow> 'w gov_conf \<Rightarrow> gov_event list \<Rightarrow> 'w gov_conf \<Rightarrow> bool"
  for os :: "'w gov_os" where
  gov_start_run: "gov_run os c [] c"
| gov_run_step: "gov_run os c es (g, t, w) \<Longrightarrow> gov_step os (g, t, w) e (g', t', w') \<Longrightarrow>
    gov_run os c (es @ [e]) (g', t', w')"

text \<open>What a run accepted, took off the queue, dropped, and recorded, in order.\<close>

fun accepted :: "gov_event list \<Rightarrow> GovApplyMsg list" where
  "accepted [] = []"
| "accepted (Offered m b # es) = (if b then m # accepted es else accepted es)"
| "accepted (_ # es) = accepted es"

fun popped :: "gov_event list \<Rightarrow> GovApplyMsg list" where
  "popped [] = []"
| "popped (Taken m # es) = m # popped es"
| "popped (Dropped m # es) = m # popped es"
| "popped (_ # es) = popped es"

fun recorded :: "gov_event list \<Rightarrow> (GovApplyMsg \<times> ApplyResult) list" where
  "recorded [] = []"
| "recorded (Recorded m r # es) = (m, r) # recorded es"
| "recorded (_ # es) = recorded es"

lemma accepted_append [simp]: "accepted (es @ fs) = accepted es @ accepted fs"
  by (induction es rule: accepted.induct) auto

lemma popped_append [simp]: "popped (es @ fs) = popped es @ popped fs"
  by (induction es rule: popped.induct) auto

lemma recorded_append [simp]: "recorded (es @ fs) = recorded es @ recorded fs"
  by (induction es rule: recorded.induct) auto

definition in_hand :: "apply_thread \<Rightarrow> GovApplyMsg list" where
  "in_hand t = (case t of Not_Running \<Rightarrow> [] | At_Top \<Rightarrow> [] | Applying m \<Rightarrow> [m] | Recording m r \<Rightarrow> [m] | Terminated \<Rightarrow> [])"

definition started :: governor where
  "started = gov_start new_governor"

lemma started_simps [simp]:
  "ingress_queue started = []" "rules started = []" "running started"
  "messages_processed (stats started) = 0" "messages_failed (stats started) = 0"
  by (simp_all add: started_def gov_start_def new_governor_def)

lemma new_governor_simps [simp]:
  "ingress_queue new_governor = []" "rules new_governor = []" "\<not> running new_governor"
  "messages_processed (stats new_governor) = 0" "messages_failed (stats new_governor) = 0"
  by (simp_all add: new_governor_def)

lemma gov_start_simps [simp]:
  "ingress_queue (gov_start g) = ingress_queue g" "rules (gov_start g) = rules g"
  "stats (gov_start g) = stats g" "running (gov_start g)"
  by (simp_all add: gov_start_def)

lemma gov_stop_simps [simp]:
  "ingress_queue (gov_stop g) = ingress_queue g" "rules (gov_stop g) = rules g"
  "stats (gov_stop g) = stats g"
  by (simp_all add: gov_stop_def)

lemma commit_simps [simp]:
  "ingress_queue (commit m r g) = ingress_queue g" "running (commit m r g) = running g"
  by (simp_all add: commit_def)

section \<open>The invariant of a run\<close>

text \<open>
  The queue holds at most its capacity and exactly what was accepted and not yet taken; every
  taken message with a process id is recorded in turn or in the thread's hand.
\<close>

definition queue_inv :: "gov_event list \<Rightarrow> governor \<Rightarrow> bool" where
  "queue_inv es g \<longleftrightarrow>
     length (ingress_queue g) \<le> kQueueCapacity \<and> popped es @ ingress_queue g = accepted es"

definition thread_inv :: "gov_event list \<Rightarrow> apply_thread \<Rightarrow> bool" where
  "thread_inv es t \<longleftrightarrow>
     (\<exists>killer. filter (\<lambda>m. msg_pid m \<noteq> 0) (popped es) = map fst (recorded es) @ in_hand t @ killer \<and>
        length killer = (if t = Terminated then 1 else 0))"

definition successes :: "gov_event list \<Rightarrow> GovApplyMsg list" where
  "successes es = map fst (filter (\<lambda>(m, r). ar_success r) (recorded es))"

definition table_inv :: "gov_event list \<Rightarrow> governor \<Rightarrow> bool" where
  "table_inv es g \<longleftrightarrow>
     messages_processed (stats g) = length (successes es) \<and>
     messages_processed (stats g) + messages_failed (stats g) = length (recorded es) \<and>
     map_of (rules g) = map_of (rev (map (\<lambda>m. (msg_pid m, m)) (successes es))) \<and>
     distinct (map fst (rules g))"

lemma queue_step:
  assumes "queue_inv es g" and "gov_step os (g, t, w) e (g', t', w')"
  shows "queue_inv (es @ [e]) g'"
  using assms(2)
proof (cases rule: gov_step.cases)
  case (offers m b)
  then show ?thesis
    using assms(1) gq.enq_bounded [of g m] gq.enq_log [of "popped es" g "accepted es" m]
    by (auto simp: queue_inv_def)
next
  case (idles)
  then show ?thesis
    using assms(1) gq.deq_bounded [of g] gq.deq_log [of "popped es" g "accepted es"]
    by (auto simp: queue_inv_def)
next
  case (drops m)
  then show ?thesis
    using assms(1) gq.deq_bounded [of g] gq.deq_log [of "popped es" g "accepted es"]
    by (auto simp: queue_inv_def)
next
  case (takes m)
  then show ?thesis
    using assms(1) gq.deq_bounded [of g] gq.deq_log [of "popped es" g "accepted es"]
    by (auto simp: queue_inv_def)
qed (use assms(1) in \<open>auto simp: queue_inv_def\<close>)

lemma thread_step:
  assumes "thread_inv es t" and "gov_step os (g, t, w) e (g', t', w')"
  shows "thread_inv (es @ [e]) t'"
  using assms(2) assms(1) by (cases rule: gov_stepE) (auto simp: thread_inv_def in_hand_def)

lemma table_unchanged:
  "rules (snd (enqueue m g)) = rules g" "stats (snd (enqueue m g)) = stats g"
  "rules (snd (pop_msg g)) = rules g" "stats (snd (pop_msg g)) = stats g"
  by (simp_all add: enqueue_def pop_msg_def split: list.splits)

lemma commit_table:
  assumes "table_inv es g"
  shows "table_inv (es @ [Recorded m r]) (commit m r g)"
  using assms
  by (auto simp: table_inv_def successes_def commit_def update_conv' distinct_update)

lemma table_same:
  assumes "table_inv es g" and "recorded [e] = []" and "rules g' = rules g" and "stats g' = stats g"
  shows "table_inv (es @ [e]) g'"
  using assms by (simp add: table_inv_def successes_def)

lemma table_step:
  assumes "table_inv es g" and "gov_step os (g, t, w) e (g', t', w')"
  shows "table_inv (es @ [e]) g'"
  using assms(2)
proof (cases rule: gov_step.cases)
  case (offers m b)
  then show ?thesis
    using table_unchanged(1,2) [of m g] by (intro table_same [OF assms(1)]) auto
next
  case (idles)
  then show ?thesis
    using table_unchanged(3,4) [of g] by (intro table_same [OF assms(1)]) auto
next
  case (drops m)
  then show ?thesis
    using table_unchanged(3,4) [of g] by (intro table_same [OF assms(1)]) auto
next
  case (takes m)
  then show ?thesis
    using table_unchanged(3,4) [of g] by (intro table_same [OF assms(1)]) auto
next
  case (records m r)
  then show ?thesis using commit_table [OF assms(1)] by simp
qed (use assms(1) in \<open>auto intro: table_same\<close>)

lemma run_inv:
  assumes "gov_run os (new_governor, Not_Running, w0) es (g, t, w)"
  shows "queue_inv es g" "thread_inv es t" "table_inv es g"
  using assms
proof (induction "(new_governor, Not_Running, w0)" es "(g, t, w)" arbitrary: g t w rule: gov_run.induct)
  case gov_start_run
  {
    case 1 show ?case by (simp add: queue_inv_def)
  next
    case 2 show ?case by (simp add: thread_inv_def in_hand_def)
  next
    case 3 show ?case by (simp add: table_inv_def successes_def)
  }
next
  case (gov_run_step es g t w e g' t' w')
  {
    case 1 show ?case using gov_run_step by (blast intro: queue_step)
  next
    case 2 show ?case using gov_run_step by (blast intro: thread_step)
  next
    case 3 show ?case using gov_run_step by (blast intro: table_step)
  }
qed

section \<open>Properties\<close>

text \<open>
  C7: the ingress queue: in every interleaving of clients and apply thread, what was taken
  followed by what is queued is exactly what was accepted, in order, at most 256 messages wait,
  and the next message is refused exactly when 256 wait.
\<close>

theorem queue_fifo_bounded:
  assumes "gov_run os (new_governor, Not_Running, w0) es (g, t, w)"
  shows "popped es @ ingress_queue g = accepted es \<and> queue_size g \<le> 256 \<and>
    (fst (enqueue m g) \<longleftrightarrow> queue_size g < 256)"
  using run_inv(1) [OF assms] gq.enq_accepts [of m g]
  by (simp add: queue_inv_def kQueueCapacity_def queue_size_def)

definition nice_msg :: "int \<Rightarrow> GovApplyMsg" where
  "nice_msg pid = empty_msg\<lparr>msg_pid := pid, msg_cpu := Some (empty_cpu\<lparr>nice := Some 5\<rparr>)\<rparr>"

lemma nice_msg_simps [simp]: "msg_pid (nice_msg pid) = pid"
  by (simp add: nice_msg_def)

definition nice_done :: ApplyResult where
  "nice_done = ar_init\<lparr>ar_success := True, ar_applied := CPU_NICE\<rparr>"

lemma apply_nice_msg:
  "0 < pid \<Longrightarrow> apply_rules demo_os pid (nice_msg pid) w = (Inr nice_done, w)"
  by (simp add: apply_rules_def rule_steps_def nice_msg_def empty_msg_def empty_cpu_def demo_os_def
      nice_done_def apply_defs AF_NONE_def)

text \<open>One message offered, taken, applied and recorded by an idle governor.\<close>

definition round_events :: "int \<Rightarrow> gov_event list" where
  "round_events pid = [Offered (nice_msg pid) True, Taken (nice_msg pid),
     Applied (nice_msg pid) nice_done, Recorded (nice_msg pid) nice_done]"

lemma gov_run_append:
  "gov_run os c es c' \<Longrightarrow> gov_step os c' e c'' \<Longrightarrow> gov_run os c (es @ [e]) c''"
  by (cases c', cases c'') (auto intro: gov_run_step)

lemma round_run:
  assumes "gov_run demo_os c es (g, At_Top, w)" and "ingress_queue g = []" and "running g" and "0 < pid"
  shows "gov_run demo_os c (es @ round_events pid) (commit (nice_msg pid) nice_done g, At_Top, w)"
proof -
  let ?m = "nice_msg pid"
  let ?g = "g\<lparr>ingress_queue := [?m]\<rparr>"
  have g: "?g\<lparr>ingress_queue := []\<rparr> = g" using assms(2) by simp
  have "gov_step demo_os (g, At_Top, w) (Offered ?m True) (?g, At_Top, w)"
    by (rule gov_step.offers) (simp_all add: enqueue_def assms(2) kQueueCapacity_def)
  moreover have "gov_step demo_os (?g, At_Top, w) (Taken ?m) (g, Applying ?m, w)"
    using assms(3,4) g by (intro gov_step.takes) (simp_all add: pop_msg_def)
  moreover have "gov_step demo_os (g, Applying ?m, w) (Applied ?m nice_done) (g, Recording ?m nice_done, w)"
    using assms(4) by (intro gov_step.applies) (simp add: apply_nice_msg)
  ultimately have "gov_run demo_os c
      ((((es @ [Offered ?m True]) @ [Taken ?m]) @ [Applied ?m nice_done]) @ [Recorded ?m nice_done])
      (commit ?m nice_done g, At_Top, w)"
    using assms(1) by (blast intro: gov_run_append gov_step.records)
  then show ?thesis by (simp add: round_events_def)
qed

lemma started_run: "gov_run os (new_governor, Not_Running, w) [Start_Requested] (started, At_Top, w)"
  using gov_run_append [OF gov_run.gov_start_run gov_step.starts, of new_governor os w] by (simp add: started_def)

theorem queue_fifo_bounded_witness:
  "\<exists>g. gov_run demo_os (new_governor, Not_Running, []) (Start_Requested # round_events 7) (g, At_Top, []) \<and> queue_size g \<le> 256"
proof -
  let ?g = "commit (nice_msg 7) nice_done started"
  have r: "gov_run demo_os (new_governor, Not_Running, []) (Start_Requested # round_events 7) (?g, At_Top, [])"
    using round_run [OF started_run, of 7] by simp
  from queue_fifo_bounded [OF r, of empty_msg] r show ?thesis by blast
qed

text \<open>
  C28: no accepted message is lost or recorded twice: the accepted messages with a process id are
  those recorded (in order), then the one in the thread's hand or the one that ended the thread,
  then those still queued; the two counters add up to the number recorded. A message with process
  id 0 is taken and counted nowhere.
\<close>

theorem accepted_accounted:
  assumes "gov_run os (new_governor, Not_Running, w0) es (g, t, w)"
  shows "\<exists>killer. length killer = (if t = Terminated then 1 else 0) \<and>
    filter (\<lambda>m. msg_pid m \<noteq> 0) (accepted es) =
      map fst (recorded es) @ in_hand t @ killer @ filter (\<lambda>m. msg_pid m \<noteq> 0) (ingress_queue g) \<and>
    messages_processed (stats g) + messages_failed (stats g) = length (recorded es)"
proof -
  have q: "accepted es = popped es @ ingress_queue g"
    using run_inv(1) [OF assms] by (simp add: queue_inv_def)
  obtain killer where "filter (\<lambda>m. msg_pid m \<noteq> 0) (popped es) = map fst (recorded es) @ in_hand t @ killer"
    and "length killer = (if t = Terminated then 1 else 0)"
    using run_inv(2) [OF assms] by (auto simp: thread_inv_def)
  with run_inv(3) [OF assms] show ?thesis
    by (intro exI [of _ killer]) (simp add: q table_inv_def)
qed

theorem accepted_accounted_witness:
  "messages_processed (stats (commit (nice_msg 7) nice_done started)) +
   messages_failed (stats (commit (nice_msg 7) nice_done started)) = 1"
proof -
  have r: "gov_run demo_os (new_governor, Not_Running, []) (Start_Requested # round_events 7)
      (commit (nice_msg 7) nice_done started, At_Top, [])"
    using round_run [OF started_run, of 7] by simp
  from accepted_accounted [OF r] show ?thesis by (auto simp: round_events_def)
qed

text \<open>
  C29: the table of rules holds, for each process id, the last message recorded as a success, and
  one entry per such id.
\<close>

theorem rules_table:
  assumes "gov_run os (new_governor, Not_Running, w0) es (g, t, w)"
  shows "map_of (rules g) pid = find (\<lambda>m. msg_pid m = pid) (rev (successes es)) \<and>
    snd (get_stats g) = card (msg_pid ` set (successes es))"
proof -
  have inv: "table_inv es g" by (rule run_inv(3) [OF assms])
  have look: "map_of (map (\<lambda>m. (msg_pid m, m)) ms) pid = find (\<lambda>m. msg_pid m = pid) ms" for ms :: "GovApplyMsg list"
    by (induction ms) auto
  have "dom (map_of (rules g)) = msg_pid ` set (successes es)"
    using inv by (force simp: table_inv_def rev_map [symmetric] dom_map_of_conv_image_fst)
  then have "set (map fst (rules g)) = msg_pid ` set (successes es)"
    by (simp add: dom_map_of_conv_image_fst)
  moreover have "length (rules g) = card (set (map fst (rules g)))"
    using inv by (metis table_inv_def distinct_card length_map)
  ultimately show ?thesis
    using inv by (simp add: table_inv_def get_stats_def rev_map look)
qed

theorem rules_table_witness:
  "map_of (rules (commit (nice_msg 7) nice_done started)) 7 = Some (nice_msg 7)"
proof -
  have r: "gov_run demo_os (new_governor, Not_Running, []) (Start_Requested # round_events 7)
      (commit (nice_msg 7) nice_done started, At_Top, [])"
    using round_run [OF started_run, of 7] by simp
  from rules_table [OF r, of 7] show ?thesis
    by (simp add: round_events_def successes_def nice_done_def)
qed

lemma length_alist_update:
  "length (AList.update k v al) = (if k \<in> fst ` set al then length al else Suc (length al))"
  by (induction al) auto

text \<open>
  the table has no bound: for every number there is a run after which it has that many
  entries (the declared limit of 1024 rules is never consulted).
\<close>

theorem rules_unbounded:
  "\<exists>es g. gov_run demo_os (new_governor, Not_Running, []) es (g, At_Top, []) \<and> snd (get_stats g) = n"
proof -
  have "\<exists>es g. gov_run demo_os (new_governor, Not_Running, []) es (g, At_Top, []) \<and> ingress_queue g = [] \<and>
      running g \<and> length (rules g) = n \<and> fst ` set (rules g) = {1..int n}"
  proof (induction n)
    case 0
    show ?case
      by (intro exI [of _ "[Start_Requested]"] exI [of _ started]) (simp add: started_run)
  next
    case (Suc n)
    then obtain es g where run: "gov_run demo_os (new_governor, Not_Running, []) es (g, At_Top, [])"
      and q: "ingress_queue g = []" "running g"
      and len: "length (rules g) = n" "fst ` set (rules g) = {1..int n}" by blast
    let ?p = "int (Suc n)"
    let ?g = "commit (nice_msg ?p) nice_done g"
    have tab: "rules ?g = AList.update ?p (nice_msg ?p) (rules g)"
      by (simp add: commit_def nice_done_def)
    have "{1..?p} = insert ?p {1..int n}" by auto
    then have "length (rules ?g) = Suc n \<and> fst ` set (rules ?g) = {1..?p}"
      unfolding tab length_alist_update dom_update using len by simp
    moreover have "gov_run demo_os (new_governor, Not_Running, []) (es @ round_events ?p) (?g, At_Top, [])"
      by (rule round_run [OF run q]) simp
    ultimately show ?case
      using q by (intro exI [of _ "es @ round_events ?p"] exI [of _ ?g]) (simp del: of_nat_Suc)
  qed
  then show ?thesis by (auto simp: get_stats_def)
qed

text \<open>
  An iteration of the apply loop is the run of the steps that the head of the queue calls for: the message
  is dropped or taken, applied and recorded, or it is the one with which the thread dies.
\<close>

lemma iteration_is_run:
  assumes "running g" and "ingress_queue g = m # q" and "msg_pid m \<noteq> 0"
  shows "case apply_rules os (msg_pid m) m w of
      (Inr r, w') \<Rightarrow> \<exists>g'. apply_iteration os (g, w) = Inr (g', w') \<and>
        gov_run os (g, At_Top, w) [Taken m, Applied m r, Recorded m r] (g', At_Top, w')
    | (Inl e, w') \<Rightarrow> apply_iteration os (g, w) = Inl Terminate \<and>
        (\<exists>g'. gov_run os (g, At_Top, w) [Taken m, Died m] (g', Terminated, w'))"
proof -
  let ?g = "g\<lparr>ingress_queue := q\<rparr>"
  have pop: "pop_msg g = (Some m, ?g)" using assms(2) by (simp add: pop_msg_def)
  have taken: "gov_run os (g, At_Top, w) [Taken m] (?g, Applying m, w)"
    using gov_run_append [OF gov_run.gov_start_run gov_step.takes [OF assms(1) pop assms(3)]] by simp
  obtain x w' where ap: "apply_rules os (msg_pid m) m w = (x, w')" by fastforce
  show ?thesis
  proof (cases x)
    case (Inl e)
    then show ?thesis
      using gov_run_append [OF taken gov_step.dies] pop assms(3) ap by (auto simp: apply_iteration_def)
  next
    case (Inr r)
    with ap have "gov_step os (?g, Applying m, w) (Applied m r) (?g, Recording m r, w')" by (simp add: gov_step.applies)
    from gov_run_append [OF gov_run_append [OF taken this] gov_step.records]
    show ?thesis using pop assms(3) ap Inr by (auto simp: apply_iteration_def)
  qed
qed

primrec iterations :: "'w gov_os \<Rightarrow> nat \<Rightarrow> governor \<times> 'w \<Rightarrow> (governor \<times> 'w) outcome" where
  "iterations os 0 c = Inr c"
| "iterations os (Suc n) c = (case apply_iteration os c of Inl e \<Rightarrow> Inl e | Inr c' \<Rightarrow> iterations os n c')"

text \<open>What applying messages one after the other gives, up to the first that throws.\<close>

fun outcomes :: "'w gov_os \<Rightarrow> GovApplyMsg list \<Rightarrow> 'w \<Rightarrow> ((GovApplyMsg \<times> ApplyResult) list \<times> 'w) option" where
  "outcomes os [] w = Some ([], w)"
| "outcomes os (m # ms) w =
     (if msg_pid m = 0 then outcomes os ms w
      else (case apply_rules os (msg_pid m) m w of
          (Inl e, w') \<Rightarrow> None
        | (Inr r, w') \<Rightarrow> map_option (\<lambda>(rs, w''). ((m, r) # rs, w'')) (outcomes os ms w')))"

text \<open>
  C30: the apply loop drains its queue: as many iterations as messages are queued apply all of them, each
  once and in order, and leave the queue empty with the results recorded in this order; a message
  with process id 0 is skipped, and if one of them throws, the thread has ended.
\<close>

theorem queue_drained:
  "iterations os (length (ingress_queue g)) (g, w) =
     (case outcomes os (ingress_queue g) w of
        None \<Rightarrow> Inl Terminate
      | Some (rs, w') \<Rightarrow> Inr ((fold (\<lambda>(m, r). commit m r) rs g)\<lparr>ingress_queue := []\<rparr>, w'))"
proof (induction "ingress_queue g" arbitrary: g w)
  case Nil
  then show ?case by (simp flip: Nil.hyps)
next
  case (Cons m q)
  let ?g = "g\<lparr>ingress_queue := q\<rparr>"
  have pop: "pop_msg g = (Some m, ?g)" using Cons.hyps(2) by (simp add: pop_msg_def flip: Cons.hyps(2))
  have queue: "ingress_queue (commit m r ?g) = q" for r by simp
  have one: "commit m r (h\<lparr>ingress_queue := x\<rparr>) = (commit m r h)\<lparr>ingress_queue := x\<rparr>" for m r h x
    by (simp add: commit_def)
  have moved: "fold (\<lambda>(m, r). commit m r) rs (h\<lparr>ingress_queue := x\<rparr>) =
      (fold (\<lambda>(m, r). commit m r) rs h)\<lparr>ingress_queue := x\<rparr>" for rs h x
    by (induction rs arbitrary: h) (auto simp: one)
  show ?case
  proof (cases "msg_pid m = 0")
    case True
    then have "apply_iteration os (g, w) = Inr (?g, w)" using pop by (simp add: apply_iteration_def)
    then show ?thesis
      using Cons.hyps(1) [of ?g w] True by (simp add: moved flip: Cons.hyps(2) split: option.splits)
  next
    case False
    obtain x w' where ap: "apply_rules os (msg_pid m) m w = (x, w')" by fastforce
    show ?thesis
    proof (cases x)
      case (Inl e)
      then show ?thesis using pop False ap by (simp add: apply_iteration_def flip: Cons.hyps(2))
    next
      case (Inr r)
      then have "apply_iteration os (g, w) = Inr (commit m r ?g, w')" using pop False ap by (simp add: apply_iteration_def)
      then show ?thesis
        using Cons.hyps(1) [of "commit m r ?g" w'] queue False ap Inr
        by (simp add: one moved flip: Cons.hyps(2) split: option.splits prod.splits)
    qed
  qed
qed

text \<open>
  C31: a message the parser acknowledges can end the process: when the affinity of the first queued
  message makes \<open>std::stoi\<close> throw (a word instead of a number, a missing end of a range) and the
  target exists, the next iteration of the apply thread terminates.
\<close>

theorem acked_message_terminates:
  assumes "renderable m" and "length (render_msg m) \<le> 512"
    and "msg_cpu m = Some c" and "affinity c = Some a" and "parse_cpu_list a = Inl e"
    and "ingress_queue g = m # q" and "os_alive os (msg_pid m) w"
  shows "parse_gov_apply (render_msg m) =
      Returned \<lparr>success = True, ack = ACK, msg = m, error_detail = []\<rparr> \<and>
    apply_iteration os (g, w) = Inl Terminate"
proof
  show "parse_gov_apply (render_msg m) = Returned \<lparr>success = True, ack = ACK, msg = m, error_detail = []\<rparr>"
    using parse_gov_apply_items [OF msg_items_good [OF assms(1)]] assms(2)
    by (simp add: msg_items_text apply_msg_items finish_def)
  have "msg_pid m \<noteq> 0" using assms(1) by (simp add: renderable_def)
  then show "apply_iteration os (g, w) = Inl Terminate"
    using assms(3-7)
    by (simp add: apply_iteration_def pop_msg_def apply_rules_def rule_steps_def apply_affinity_def)
qed

theorem acked_message_terminates_witness:
  "let m = empty_msg\<lparr>msg_pid := 7, msg_cpu := Some (empty_cpu\<lparr>affinity := Some ''all''\<rparr>)\<rparr>
   in render_msg m = ''{\"pid\":7,\"cpu\":{\"affinity\":\"all\"}}'' \<and>
      apply_iteration demo_os (started\<lparr>ingress_queue := [m]\<rparr>, []) = Inl Terminate"
proof -
  let ?c = "empty_cpu\<lparr>affinity := Some ''all''\<rparr>"
  let ?m = "empty_msg\<lparr>msg_pid := 7, msg_cpu := Some ?c\<rparr>"
  have r: "render_msg ?m = ''{\"pid\":7,\"cpu\":{\"affinity\":\"all\"}}''"
    by code_simp
  have p: "parse_cpu_list ''all'' = Inl Invalid_Argument"
    by code_simp
  have "renderable ?m"
    by (simp add: renderable_def wf_defs plain_def empty_msg_def empty_cpu_def)
  moreover have "length (render_msg ?m) \<le> 512" unfolding r by simp
  moreover have "os_alive demo_os (msg_pid ?m) []" by (simp add: demo_os_def)
  ultimately have "apply_iteration demo_os (started\<lparr>ingress_queue := [?m]\<rparr>, []) = Inl Terminate"
    using acked_message_terminates [of ?m ?c "''all''" Invalid_Argument "started\<lparr>ingress_queue := [?m]\<rparr>"
        "[]" demo_os "[]"]
    by (simp add: p)
  then show ?thesis unfolding Let_def using r by blast
qed

end
