(* ===== verification/Procfs.thy ===== *)
theory Procfs
  imports Prelude
begin

text \<open>
  What the job runner reads from \<open>/proc\<close>: the start time of a process
  (\<open>src/job/procfs_starttime.cpp\<close>) and the number of processes of a group
  (\<open>src/job/process_inspector_procfs.cpp\<close>). The contents of the files and the directory are
  parameters; a C string is the list of its characters before the terminator.
\<close>

section \<open>C library conversions\<close>

text \<open>\<open>strtol\<close> in base 10 returns the saturated value and the unread rest, which is the whole
  text when there is no digit; \<open>strtoull\<close> saturates and negates in the unsigned type.\<close>

definition split_sign :: "string \<Rightarrow> bool \<times> string" where
  "split_sign s = (case s of [] \<Rightarrow> (False, [])
     | c # cs \<Rightarrow> if c = CHR ''-'' then (True, cs) else if c = CHR ''+'' then (False, cs) else (False, s))"

definition strtol :: "string \<Rightarrow> int \<times> string" where
  "strtol s =
     (let (neg, r) = split_sign (dropWhile is_space s);
          ds = takeWhile is_digit r;
          v = (if neg then - int (dec_value ds) else int (dec_value ds))
      in if ds = [] then (0, s)
         else (max (- (2 ^ 63)) (min (2 ^ 63 - 1) v), dropWhile is_digit r))"

definition strtoull :: "string \<Rightarrow> nat" where
  "strtoull s =
     (let (neg, ds) = sto_split s
      in if ds = [] then 0
         else if 2 ^ 64 \<le> dec_value ds then 2 ^ 64 - 1
         else if neg then as_uint64 (- int (dec_value ds)) else dec_value ds)"

text \<open>\<open>fgets\<close> into a buffer of a given size: the first line with its newline, or as much of it as
  fits with the terminator; nothing at the end of the file.\<close>

definition fgets_n :: "nat \<Rightarrow> string \<Rightarrow> string option" where
  "fgets_n k s =
     (if s = [] then None
      else Some (take (k - 1) (takeWhile (\<lambda>c. c \<noteq> CHR 0x0A) s @ (if CHR 0x0A \<in> set s then [CHR 0x0A] else []))))"

abbreviation fgets :: "string \<Rightarrow> string option" where
  "fgets \<equiv> fgets_n 4096"

text \<open>\<open>strrchr\<close>: the text after the last occurrence of a character.\<close>

definition after_last :: "char \<Rightarrow> string \<Rightarrow> string option" where
  "after_last c s =
     (if c \<in> set s then Some (rev (takeWhile (\<lambda>x. x \<noteq> c) (rev s))) else None)"

text \<open>The conversion \<open>%d\<close> of \<open>sscanf\<close>.\<close>

definition scan_int :: "string \<Rightarrow> (int \<times> string) option" where
  "scan_int s = (let r = dropWhile is_space s; (v, rest) = strtol r in
     if rest = r then None else Some (as_int32 v, rest))"

section \<open>Start time of a process\<close>

function start_time_loop :: "nat \<Rightarrow> string \<Rightarrow> nat option" where
  "start_time_loop token_idx s =
     (let t = dropWhile is_space s in
      if t = [] then None
      else let tok = takeWhile (\<lambda>c. \<not> is_space c) t; rest = dropWhile (\<lambda>c. \<not> is_space c) t in
        if token_idx = 22 then (if length tok < 64 then Some (strtoull tok) else None)
        else start_time_loop (token_idx + 1) rest)"
  by pat_completeness auto
termination
proof (relation "measure (\<lambda>(i, s). length s)")
  fix token_idx :: nat and s t x xa
  assume t: "t = dropWhile is_space s" "t \<noteq> []" "xa = dropWhile (\<lambda>c. \<not> is_space c) t"
  then have "\<not> is_space (hd t)" using hd_dropWhile by metis
  then have "length xa < length t"
    using t(2,3) length_dropWhile_le [of "\<lambda>c. \<not> is_space c" "tl t"] by (cases t) auto
  also have "length t \<le> length s" using t(1) by (simp add: length_dropWhile_le)
  finally show "((token_idx + 1, xa), token_idx, s) \<in> measure (\<lambda>(i, s). length s)" by simp
qed simp

declare start_time_loop.simps [simp del]

definition parse_start_time_from_stat_line :: "string \<Rightarrow> nat option" where
  "parse_start_time_from_stat_line line =
     (case after_last (CHR '')'') line of
        None \<Rightarrow> None
      | Some s \<Rightarrow> start_time_loop 3 s)"

text \<open>\<open>stat pid\<close> is the content of \<open>/proc/<pid>/stat\<close>, or that it cannot be opened.\<close>

definition read_proc_start_time_ticks :: "(int \<Rightarrow> string option) \<Rightarrow> int \<Rightarrow> nat option" where
  "read_proc_start_time_ticks stat pid =
     (case stat pid of
        None \<Rightarrow> None
      | Some content \<Rightarrow> (case fgets content of
          None \<Rightarrow> None
        | Some line \<Rightarrow> parse_start_time_from_stat_line line))"

section \<open>Processes of a group\<close>

definition max_scans :: nat where "max_scans = 5000"

text \<open>A directory entry is whether it is a directory, and its name.\<close>

definition entry_pid :: "bool \<times> string \<Rightarrow> int option" where
  "entry_pid e =
     (if \<not> fst e then None
      else let (v, rest) = strtol (snd e); pid = as_int32 v
        in if rest \<noteq> [] \<or> pid \<le> 0 then None else Some pid)"

definition stat_pgrp :: "string \<Rightarrow> int option" where
  "stat_pgrp line =
     (case after_last (CHR '')'') line of
        None \<Rightarrow> None
      | Some s \<Rightarrow>
          (case dropWhile is_space s of
             [] \<Rightarrow> None
           | _ # r \<Rightarrow> (case scan_int r of
               None \<Rightarrow> None
             | Some (ppid, r') \<Rightarrow> map_option fst (scan_int r'))))"

definition process_pgrp :: "(int \<Rightarrow> string option) \<Rightarrow> int \<Rightarrow> int option" where
  "process_pgrp stat pid = Option.bind (Option.bind (stat pid) fgets) stat_pgrp"

fun count_loop :: "(int \<Rightarrow> string option) \<Rightarrow> int \<Rightarrow> (bool \<times> string) list \<Rightarrow> nat \<Rightarrow> int \<Rightarrow> int" where
  "count_loop stat pgid [] scanned count = count"
| "count_loop stat pgid (e # es) scanned count =
     (if max_scans \<le> scanned then count
      else case entry_pid e of
        None \<Rightarrow> count_loop stat pgid es scanned count
      | Some pid \<Rightarrow> count_loop stat pgid es (scanned + 1)
          (if process_pgrp stat pid = Some pgid then count + 1 else count))"

definition count_processes_in_pgid ::
  "(bool \<times> string) list option \<Rightarrow> (int \<Rightarrow> string option) \<Rightarrow> int \<Rightarrow> int" where
  "count_processes_in_pgid proc_dir stat pgid =
     (case proc_dir of None \<Rightarrow> - 1 | Some es \<Rightarrow> count_loop stat pgid es 0 0)"

section \<open>Lines as the kernel writes them\<close>

definition fields_text :: "string list \<Rightarrow> string" where
  "fields_text ts = concat (map (\<lambda>t. CHR '' '' # t) ts) @ [CHR 0x0A]"

definition field_ok :: "string \<Rightarrow> bool" where
  "field_ok t \<longleftrightarrow> t \<noteq> [] \<and> (\<forall>c \<in> set t. \<not> is_space c \<and> c \<noteq> CHR '')'')"

definition stat_line :: "nat \<Rightarrow> string \<Rightarrow> string list \<Rightarrow> string" where
  "stat_line pid comm ts = show_nat pid @ '' ('' @ comm @ '')'' @ fields_text ts"

lemma blank_space [simp]: "is_space (CHR '' '')" "is_space (CHR 0x0A)"
  by (simp_all add: is_space_def)

lemma space_not_digit: "is_space c \<Longrightarrow> \<not> is_digit c"
  using digit_not_space by blast

lemma fields_text_Cons: "fields_text (t # ts) = CHR '' '' # t @ fields_text ts"
  by (simp add: fields_text_def)

lemma fields_text_starts: "\<exists>c r. fields_text ts = c # r \<and> is_space c"
  by (cases ts) (simp_all add: fields_text_def)

lemma token_split:
  assumes "field_ok t" and "r = [] \<or> is_space (hd r)"
  shows "dropWhile is_space (CHR '' '' # t @ r) = t @ r"
    and "takeWhile (\<lambda>c. \<not> is_space c) (t @ r) = t"
    and "dropWhile (\<lambda>c. \<not> is_space c) (t @ r) = r"
proof -
  obtain c cs where t: "t = c # cs" using assms(1) by (cases t) (auto simp: field_ok_def)
  then show "dropWhile is_space (CHR '' '' # t @ r) = t @ r"
    using assms(1) by (simp add: field_ok_def)
  have "\<forall>c \<in> set t. \<not> is_space c" using assms(1) by (simp add: field_ok_def)
  then show "takeWhile (\<lambda>c. \<not> is_space c) (t @ r) = t"
    and "dropWhile (\<lambda>c. \<not> is_space c) (t @ r) = r"
    using assms(2) by (cases r; simp add: takeWhile_append dropWhile_append)+
qed

lemma start_time_loop_fields:
  "list_all field_ok ts \<Longrightarrow> i \<le> 22 \<Longrightarrow> 22 - i < length ts \<Longrightarrow>
   start_time_loop i (fields_text ts) =
     (if length (ts ! (22 - i)) < 64 then Some (strtoull (ts ! (22 - i))) else None)"
proof (induction ts arbitrary: i)
  case Nil
  then show ?case by simp
next
  case (Cons t ts)
  have t: "field_ok t" "t \<noteq> []" using Cons.prems(1) by (auto simp: field_ok_def)
  have hd: "fields_text ts = [] \<or> is_space (hd (fields_text ts))"
    using fields_text_starts [of ts] by auto
  note sp = token_split [OF t(1) hd]
  have step: "start_time_loop i (fields_text (t # ts)) =
      (if i = 22 then (if length t < 64 then Some (strtoull t) else None)
       else start_time_loop (i + 1) (fields_text ts))"
    by (subst start_time_loop.simps) (simp add: fields_text_Cons sp t(2) del: dropWhile.simps)
  show ?case
  proof (cases "i = 22")
    case True
    then show ?thesis using step by simp
  next
    case False
    then have "22 - i = Suc (22 - (i + 1))" using Cons.prems(2) by arith
    then have idx: "(t # ts) ! (22 - i) = ts ! (22 - (i + 1))" by simp
    have "start_time_loop (i + 1) (fields_text ts) =
        (if length (ts ! (22 - (i + 1))) < 64 then Some (strtoull (ts ! (22 - (i + 1)))) else None)"
      by (rule Cons.IH) (use False Cons.prems in auto)
    then show ?thesis using False unfolding step idx by simp
  qed
qed

lemma after_last_append: "c \<notin> set r \<Longrightarrow> after_last c (p @ c # r) = Some r"
  by (simp add: after_last_def takeWhile_append)

lemma fields_text_no_paren:
  "list_all field_ok ts \<Longrightarrow> CHR '')'' \<notin> set (fields_text ts)"
  by (auto simp: fields_text_def list_all_iff field_ok_def)

lemma after_last_stat_line:
  "list_all field_ok ts \<Longrightarrow> after_last (CHR '')'') (stat_line pid comm ts) = Some (fields_text ts)"
  using after_last_append [OF fields_text_no_paren, of ts "show_nat pid @ '' ('' @ comm"]
  by (simp add: stat_line_def)

lemma fgets_line:
  "CHR 0x0A \<notin> set s \<Longrightarrow> length s < 4095 \<Longrightarrow> fgets (s @ [CHR 0x0A]) = Some (s @ [CHR 0x0A])"
proof -
  assume s: "CHR 0x0A \<notin> set s" "length s < 4095"
  then have "takeWhile (\<lambda>c. c \<noteq> CHR 0x0A) (s @ [CHR 0x0A]) = s"
    by (subst takeWhile_append2) auto
  with s(2) show ?thesis by (simp add: fgets_n_def)
qed

lemma field_no_newline: "field_ok t \<Longrightarrow> CHR 0x0A \<notin> set t"
  unfolding field_ok_def using blank_space(2) by blast

lemma fgets_stat_line:
  assumes "list_all field_ok ts" and "CHR 0x0A \<notin> set comm" and "length (stat_line pid comm ts) \<le> 4095"
  shows "fgets (stat_line pid comm ts) = Some (stat_line pid comm ts)"
proof -
  let ?body = "show_nat pid @ '' ('' @ comm @ '')'' @ concat (map (\<lambda>t. CHR '' '' # t) ts)"
  have "CHR 0x0A \<notin> set (show_nat pid)"
    using show_nat_digits [of pid] by (auto simp: is_digit_def)
  moreover have "CHR 0x0A \<notin> set (concat (map (\<lambda>t. CHR '' '' # t) ts))"
    using assms(1) by (induction ts) (simp_all add: field_no_newline)
  moreover have "stat_line pid comm ts = ?body @ [CHR 0x0A]"
    by (simp add: stat_line_def fields_text_def)
  ultimately show ?thesis
    using assms(2,3) fgets_line [of ?body] by simp
qed

lemma strtoull_show_nat: "n < 2 ^ 64 \<Longrightarrow> strtoull (show_nat n) = n"
  using show_nat_digits [of n] by (simp add: strtoull_def sto_split_digits dec_value_show_nat)

section \<open>A table of processes\<close>

record proc =
  proc_pid :: nat
  proc_comm :: string
  proc_state :: char
  proc_ppid :: nat
  proc_pgrp :: nat
  proc_more :: "string list"

definition proc_fields :: "proc \<Rightarrow> string list" where
  "proc_fields p = [proc_state p] # show_nat (proc_ppid p) # show_nat (proc_pgrp p) # proc_more p"

definition proc_line :: "proc \<Rightarrow> string" where
  "proc_line p = stat_line (proc_pid p) (proc_comm p) (proc_fields p)"

definition proc_ok :: "proc \<Rightarrow> bool" where
  "proc_ok p \<longleftrightarrow> proc_ppid p < 2 ^ 31 \<and> proc_pgrp p < 2 ^ 31 \<and> field_ok [proc_state p] \<and>
     list_all field_ok (proc_more p) \<and> CHR 0x0A \<notin> set (proc_comm p) \<and> length (proc_line p) \<le> 4095"

lemma digit_not_paren: "is_digit c \<Longrightarrow> c \<noteq> CHR '')''"
  by (auto simp: is_digit_def)

lemma field_ok_show_nat: "field_ok (show_nat n)"
  unfolding field_ok_def using show_nat_digits [of n] digit_not_space digit_not_paren by fastforce

lemma proc_fields_ok: "proc_ok p \<Longrightarrow> list_all field_ok (proc_fields p)"
  by (simp add: proc_ok_def proc_fields_def field_ok_show_nat)

lemma split_sign_digit: "is_digit c \<Longrightarrow> split_sign (c # r) = (False, c # r)"
  by (auto simp: split_sign_def is_digit_def)

lemma strtol_show_nat:
  assumes "n < 2 ^ 31" and "r = [] \<or> \<not> is_digit (hd r)"
  shows "strtol (show_nat n @ r) = (int n, r)"
proof -
  obtain c cs where c: "show_nat n = c # cs" using show_nat_nonempty by (cases "show_nat n") auto
  then have d: "is_digit c" using show_nat_digits [of n] by simp
  have "dropWhile is_space (show_nat n @ r) = show_nat n @ r"
    using digit_not_space [OF d] by (simp add: c)
  moreover have "split_sign (show_nat n @ r) = (False, show_nat n @ r)"
    using split_sign_digit [OF d] by (simp add: c)
  moreover have "takeWhile is_digit (show_nat n @ r) = show_nat n"
    using takeWhile_digits_append [OF show_nat_digits assms(2)] .
  moreover from this have "dropWhile is_digit (show_nat n @ r) = r"
    by (metis takeWhile_dropWhile_id same_append_eq)
  ultimately show ?thesis
    using assms(1) by (simp add: strtol_def dec_value_show_nat)
qed

lemma scan_int_field:
  assumes "n < 2 ^ 31"
  shows "scan_int (fields_text (show_nat n # ts)) = Some (int n, fields_text ts)"
proof -
  obtain b r where f: "fields_text ts = b # r" "is_space b" using fields_text_starts by blast
  then have hd: "fields_text ts = [] \<or> is_space (hd (fields_text ts))"
    and nd: "fields_text ts = [] \<or> \<not> is_digit (hd (fields_text ts))"
    using space_not_digit by auto
  have "as_int32 (int n) = int n" using assms by (intro as_int32_id) auto
  then show ?thesis
    using token_split(1) [OF field_ok_show_nat hd] strtol_show_nat [OF assms nd]
    by (simp add: scan_int_def fields_text_Cons del: dropWhile.simps)
qed

lemma stat_pgrp_proc:
  assumes "proc_ok p"
  shows "stat_pgrp (proc_line p) = Some (int (proc_pgrp p))"
proof -
  let ?rest = "show_nat (proc_ppid p) # show_nat (proc_pgrp p) # proc_more p"
  have st: "field_ok [proc_state p]" and b: "proc_ppid p < 2 ^ 31" "proc_pgrp p < 2 ^ 31"
    using assms by (simp_all add: proc_ok_def)
  have "dropWhile is_space (fields_text (proc_fields p)) = proc_state p # fields_text ?rest"
    using st by (simp add: proc_fields_def fields_text_Cons [of "[proc_state p]"] field_ok_def)
  then show ?thesis
    using after_last_stat_line [OF proc_fields_ok [OF assms]] scan_int_field [OF b(1)]
      scan_int_field [OF b(2)]
    by (simp add: stat_pgrp_def proc_line_def)
qed

lemma process_pgrp_proc:
  "proc_ok p \<Longrightarrow> stat pid = Some (proc_line p) \<Longrightarrow> process_pgrp stat pid = Some (int (proc_pgrp p))"
  using fgets_stat_line [OF proc_fields_ok, of p "proc_comm p" "proc_pid p"] stat_pgrp_proc [of p]
  by (simp add: process_pgrp_def proc_ok_def proc_line_def)

lemma count_loop_filter:
  "count_loop stat pgid es scanned count = count +
     int (length (filter (\<lambda>pid. process_pgrp stat pid = Some pgid)
       (take (max_scans - scanned) (List.map_filter entry_pid es))))"
proof (induction stat pgid es scanned count rule: count_loop.induct)
  case (1 stat pgid scanned count)
  then show ?case by simp
next
  case (2 stat pgid e es scanned count)
  show ?case
  proof (cases "max_scans \<le> scanned \<or> entry_pid e = None")
    case True
    with 2 show ?thesis by auto
  next
    case False
    then obtain pid where pid: "entry_pid e = Some pid" by blast
    have "max_scans - scanned = Suc (max_scans - (scanned + 1))" using False by arith
    with 2 False pid show ?thesis by simp
  qed
qed

section \<open>Properties\<close>

text \<open>
  C35: the start time is field 22 whatever the command name holds (blanks, parentheses): for a line
  of \<open>/proc/<pid>/stat\<close> with a decimal 64-bit start time, the value read from the file is that
  start time, and the guard against reuse of process ids therefore compares the right field.
\<close>

theorem start_time_is_field_22:
  assumes "list_all field_ok ts" and "20 \<le> length ts" and "ts ! 19 = show_nat n" and "n < 2 ^ 64"
    and "CHR 0x0A \<notin> set comm" and "length (stat_line pid comm ts) \<le> 4095"
    and "length (show_nat n) < 64" and "stat p = Some (stat_line pid comm ts)"
  shows "read_proc_start_time_ticks stat p = Some n"
proof -
  have "fgets (stat_line pid comm ts) = Some (stat_line pid comm ts)"
    by (rule fgets_stat_line [OF assms(1,5,6)])
  then show ?thesis
    using assms start_time_loop_fields [of ts 3]
    by (simp add: read_proc_start_time_ticks_def parse_start_time_from_stat_line_def
        after_last_stat_line strtoull_show_nat)
qed

definition sample_fields :: "string list" where
  "sample_fields = [''S'', ''1'', ''42'', ''42'', ''0'', ''-1'', ''4194560'', ''1'', ''2'', ''3'', ''4'',
     ''5'', ''6'', ''7'', ''8'', ''20'', ''0'', ''1'', ''0'', ''777'', ''2940928'']"

theorem start_time_is_field_22_witness:
  "read_proc_start_time_ticks (\<lambda>p. Some (stat_line 42 ''a) b'' sample_fields)) 42 = Some 777"
proof -
  have sh: "show_nat 777 = ''777''" by code_simp
  have ok: "list_all field_ok sample_fields" by code_simp
  have len: "length (stat_line 42 ''a) b'' sample_fields) \<le> 4095" by code_simp
  show ?thesis
    using start_time_is_field_22 [OF ok _ _ _ _ len, of 777 "\<lambda>p. Some (stat_line 42 ''a) b'' sample_fields)" 42]
    by (simp add: sh sample_fields_def)
qed

text \<open>
  C36: the number of processes of a group: when the directory lists the processes of a table among
  other entries and each file has the process's line, the result is the number of those among the
  first 5000 that belong to the group, whatever their command names hold.
\<close>

theorem count_is_group_size:
  assumes "List.map_filter entry_pid es = map (\<lambda>p. int (proc_pid p)) procs"
    and "\<forall>p \<in> set procs. proc_ok p \<and> stat (int (proc_pid p)) = Some (proc_line p)"
  shows "count_processes_in_pgid (Some es) stat pgid =
    int (length (filter (\<lambda>p. int (proc_pgrp p) = pgid) (take 5000 procs)))"
proof -
  have "\<forall>p \<in> set (take 5000 procs). process_pgrp stat (int (proc_pid p)) = Some (int (proc_pgrp p))"
    using assms(2) process_pgrp_proc by (meson in_set_takeD)
  then show ?thesis
    by (simp add: count_processes_in_pgid_def count_loop_filter assms(1) max_scans_def take_map
        filter_map o_def cong: filter_cong)
qed

definition sample_proc :: "nat \<Rightarrow> nat \<Rightarrow> proc" where
  "sample_proc pid g = \<lparr>proc_pid = pid, proc_comm = ''(x) y'', proc_state = CHR ''R'', proc_ppid = 1,
     proc_pgrp = g, proc_more = [''0'', ''777'']\<rparr>"

theorem count_is_group_size_witness:
  "count_processes_in_pgid
     (Some [(True, ''.''), (True, ''7''), (False, ''8''), (True, ''9''), (True, ''self'')])
     (\<lambda>pid. Some (proc_line (sample_proc (nat pid) (if pid = 7 then 7 else 3)))) 7 = 1"
proof -
  let ?es = "[(True, ''.''), (True, ''7''), (False, ''8''), (True, ''9''), (True, ''self'')]"
  let ?procs = "[sample_proc 7 7, sample_proc 9 3]"
  have es: "List.map_filter entry_pid ?es = map (\<lambda>p. int (proc_pid p)) ?procs" by code_simp
  have "proc_ok (sample_proc 7 7)" "proc_ok (sample_proc 9 3)" by code_simp+
  then show ?thesis
    using count_is_group_size [OF es, of "\<lambda>pid. Some (proc_line (sample_proc (nat pid) (if pid = 7 then 7 else 3)))" 7]
    by (simp add: sample_proc_def)
qed

text \<open>
  The line of the unit test \<open>ParseStartTime.HandlesCommWithSpaces\<close> (\<open>tests/test_job.cpp\<close>) carries
  999999 in field 23; field 22 is 19, which is what the code returns.
\<close>

lemma unit_test_line:
  "parse_start_time_from_stat_line
     ''1234 (my weird comm) R 1 2 3 4 5 6 7 8 9 10 11 12 13 14 15 16 17 18 19 999999 0 0'' = Some 19"
  by code_simp

end
