(* ===== verification/Job.thy ===== *)
theory Job
  imports Resource_Governor Procfs
begin

text \<open>
  \<open>JobRunner\<close> (\<open>include/heidi-kernel/job.h\<close>, \<open>src/job/job.cpp\<close>): the queue of submitted
  commands, the processes started for them, and the limits enforced while they run. Every public
  operation but one holds the runner's mutex, so it is one function on the runner and the system's state
  \<open>'w\<close>. The exception is \<open>check_job_limits\<close>, which expects its caller to hold the mutex, as \<open>tick\<close> does; called from
  outside it is modelled as one step as well, so races of such a call with other operations are not covered. A \<open>std::shared_ptr<Job>\<close> is shared by the table and the queue: the model keeps the job in
  the table only and its id, which is unique, in the queue. Times in milliseconds and byte
  counters are 64-bit words, since their differences wrap around.
\<close>

section \<open>Data\<close>

datatype JobStatus =
    QUEUED
  | STARTING
  | RUNNING
  | COMPLETED
  | FAILED
  | CANCELLED
  | TIMEOUT
  | PROC_LIMIT

record JobLimits =
  lim_runtime_ms :: "64 word"
  lim_log_bytes :: "64 word"
  lim_output_line_bytes :: "64 word"
  lim_child_processes :: int
  lim_kill_grace_ms :: "64 word"

definition default_limits :: JobLimits where
  "default_limits = \<lparr>lim_runtime_ms = 600000, lim_log_bytes = 10485760,
     lim_output_line_bytes = 65536, lim_child_processes = 64, lim_kill_grace_ms = 2000\<rparr>"

text \<open>A \<open>time_point\<close> of the system clock is its count of nanoseconds since the epoch.\<close>

type_synonym time_point = int

definition epoch_ms :: "time_point \<Rightarrow> 64 word" where
  "epoch_ms t = word_of_int (if t < 0 then - ((- t) div 1000000) else t div 1000000)"

record Job =
  j_id :: string
  j_command :: string
  j_status :: JobStatus
  j_exit_code :: int
  j_output :: string
  j_error :: string
  j_log_truncated :: bool
  j_bytes_written :: "64 word"
  j_created_at :: time_point
  j_finished_at :: time_point
  j_started_at_ms :: "64 word"
  j_ended_at_ms :: "64 word"
  j_process_group :: int
  j_leader_start_time :: nat
  j_max_runtime_ms :: "64 word"
  j_max_log_bytes :: "64 word"
  j_max_output_line_bytes :: "64 word"
  j_max_child_processes :: int
  j_stdout_fd :: int
  j_stderr_fd :: int

definition new_job :: Job where
  "new_job = \<lparr>j_id = [], j_command = [], j_status = QUEUED, j_exit_code = - 1, j_output = [],
     j_error = [], j_log_truncated = False, j_bytes_written = 0, j_created_at = 0, j_finished_at = 0,
     j_started_at_ms = 0, j_ended_at_ms = 0, j_process_group = - 1, j_leader_start_time = 0,
     j_max_runtime_ms = 600000, j_max_log_bytes = 10485760, j_max_output_line_bytes = 65536,
     j_max_child_processes = 64, j_stdout_fd = - 1, j_stderr_fd = - 1\<rparr>"

record TickDiagnostics =
  last_decision :: GovernorDecision
  last_block_reason :: BlockReason
  last_retry_after_ms :: nat
  last_tick_now_ms :: "64 word"
  last_tick_running :: int
  last_tick_queued :: int

text \<open>What \<open>tick\<close> reads of \<open>SystemMetrics\<close>.\<close>

record SystemMetrics =
  cpu_usage_percent :: double
  mem_total :: nat
  mem_available :: nat

section \<open>The system\<close>

datatype signal = SIGTERM | SIGKILL | SIG0

datatype wait_status = Exited int | Other_Status

text \<open>
  A read returns \<open>None\<close> for an error (or nothing available), else up to the given number of bytes,
  none at the end of the file. \<open>os_stat\<close> is the content of \<open>/proc/<pid>/stat\<close>.
  \<open>os_spawn\<close> and \<open>os_count\<close> are the virtual methods of \<open>IProcessSpawner\<close> and
  \<open>IProcessInspector\<close>: \<open>spawn_job\<close> may write to any field of the job. \<open>os_place\<close> is where the hash
  table \<open>jobs_\<close> puts a new key in its iteration order.
\<close>

record 'w job_os =
  os_clock :: "'w \<Rightarrow> time_point"
  os_sleep :: "nat \<Rightarrow> 'w \<Rightarrow> 'w"
  os_kill :: "int \<Rightarrow> signal \<Rightarrow> 'w \<Rightarrow> int \<times> 'w"
  os_read :: "int \<Rightarrow> nat \<Rightarrow> 'w \<Rightarrow> string option \<times> 'w"
  os_close :: "int \<Rightarrow> 'w \<Rightarrow> 'w"
  os_waitpid :: "int \<Rightarrow> 'w \<Rightarrow> (int \<times> wait_status) \<times> 'w"
  os_stat :: "'w \<Rightarrow> int \<Rightarrow> string option"
  os_spawn :: "Job \<Rightarrow> 'w \<Rightarrow> (bool \<times> Job) \<times> 'w"
  os_count :: "int \<Rightarrow> 'w \<Rightarrow> int"
  os_place :: "string list \<Rightarrow> string \<Rightarrow> string list"

section \<open>The runner\<close>

record runner =
  max_concurrent :: nat
  accepting :: bool
  job_queue :: "string list"
  jobs :: "string \<rightharpoonup> Job"
  order :: "string list"
  diagnostics :: TickDiagnostics
  started_this_tick :: nat
  scanned_this_tick :: nat
  scan_cursor :: nat
  governor :: GovernorPolicy
  job_counter :: nat

text \<open>\<open>job_counter\<close> is the static counter of \<open>submit_job\<close>, held with the only runner a process has; \<open>accepting\<close> is \<open>running_\<close>, which only
  \<open>start\<close> and \<open>stop\<close> write and nothing reads.\<close>

definition new_runner :: "nat \<Rightarrow> runner" where
  "new_runner n = \<lparr>max_concurrent = n, accepting = False, job_queue = [], jobs = Map.empty, order = [],
     diagnostics = \<lparr>last_decision = START_NOW, last_block_reason = BR_NONE, last_retry_after_ms = 0,
       last_tick_now_ms = 0, last_tick_running = 0, last_tick_queued = 0\<rparr>,
     started_this_tick = 0, scanned_this_tick = 0, scan_cursor = 0, governor = default_policy,
     job_counter = 0\<rparr>"

definition start :: "runner \<Rightarrow> runner" where
  "start r = r\<lparr>accepting := True\<rparr>"

definition stop :: "runner \<Rightarrow> runner" where
  "stop r = r\<lparr>accepting := False\<rparr>"

definition submit_job ::
  "'w job_os \<Rightarrow> string \<Rightarrow> JobLimits \<Rightarrow> runner \<times> 'w \<Rightarrow> string \<times> (runner \<times> 'w)" where
  "submit_job os cmd l = (\<lambda>(r, w).
     (let n = job_counter r + 1;
          i = ''job_'' @ show_nat n;
          job = new_job\<lparr>j_id := i, j_command := cmd, j_created_at := os_clock os w,
            j_max_runtime_ms := lim_runtime_ms l, j_max_log_bytes := lim_log_bytes l,
            j_max_output_line_bytes := lim_output_line_bytes l,
            j_max_child_processes := lim_child_processes l\<rparr>
      in (i, (r\<lparr>jobs := (jobs r)(i \<mapsto> job), order := os_place os (order r) i,
              job_queue := job_queue r @ [i], job_counter := n\<rparr>, w))))"

text \<open>\<open>cancel_job\<close>: the group is signalled, given half a second, then killed if it still exists.\<close>

definition finish_now :: "JobStatus \<Rightarrow> time_point \<Rightarrow> Job \<Rightarrow> Job" where
  "finish_now st t j = j\<lparr>j_status := st, j_finished_at := t, j_ended_at_ms := epoch_ms t\<rparr>"

definition terminate_group :: "'w job_os \<Rightarrow> int \<Rightarrow> 'w \<Rightarrow> 'w" where
  "terminate_group os g w =
     (if g \<le> 0 then w
      else let w1 = snd (os_kill os (- g) SIGTERM w);
               w2 = os_sleep os 500 w1;
               (e, w3) = os_kill os (- g) SIG0 w2
        in if e = 0 then snd (os_kill os (- g) SIGKILL w3) else w3)"

definition cancel_job :: "'w job_os \<Rightarrow> string \<Rightarrow> runner \<times> 'w \<Rightarrow> bool \<times> (runner \<times> 'w)" where
  "cancel_job os i = (\<lambda>(r, w).
     (case jobs r i of
        None \<Rightarrow> (False, (r, w))
      | Some j \<Rightarrow>
          if j_status j = RUNNING
          then let w' = terminate_group os (j_process_group j) w
            in (True, (r\<lparr>jobs := (jobs r)(i \<mapsto> finish_now CANCELLED (os_clock os w') j)\<rparr>, w'))
          else if j_status j = QUEUED
          then (True, (r\<lparr>jobs := (jobs r)(i \<mapsto> finish_now CANCELLED (os_clock os w) j)\<rparr>, w))
          else (True, (r, w))))"

definition get_job_status :: "runner \<Rightarrow> string \<Rightarrow> Job option" where
  "get_job_status r i = jobs r i"

text \<open>The library's sort is a parameter: it may order equal creation times in any way.\<close>

definition get_recent_jobs :: "(Job list \<Rightarrow> Job list) \<Rightarrow> nat \<Rightarrow> runner \<Rightarrow> Job list" where
  "get_recent_jobs sort_desc limit r =
     take limit (sort_desc (List.map_filter (jobs r) (order r)))"

section \<open>Limits\<close>

definition group_signal :: "'w job_os \<Rightarrow> Job \<Rightarrow> 'w \<Rightarrow> 'w" where
  "group_signal os j w = (if 0 < j_process_group j then snd (os_kill os (- j_process_group j) SIGTERM w) else w)"

text \<open>Each \<open>enforce_\<close> function returns whether it ended the scan of the job, the job and the system.\<close>

definition enforce_job_timeout :: "'w job_os \<Rightarrow> 64 word \<Rightarrow> Job \<times> 'w \<Rightarrow> bool \<times> Job \<times> 'w" where
  "enforce_job_timeout os now = (\<lambda>(j, w).
     (if j_max_runtime_ms j < now - j_started_at_ms j
      then let w' = group_signal os j w
        in (True, j\<lparr>j_status := TIMEOUT, j_finished_at := os_clock os w', j_ended_at_ms := now\<rparr>, w')
      else (False, j, w)))"

text \<open>Sizes of strings are below \<open>2 ^ 63\<close>, so that their sum does not wrap around.\<close>

definition enforce_job_log_cap :: "Job \<Rightarrow> bool \<times> Job" where
  "enforce_job_log_cap j =
     (if unat (j_max_log_bytes j) < length (j_output j) + length (j_error j)
      then let keep = unat (j_max_log_bytes j) div 2;
               out = (if keep < length (j_output j) then take_last keep (j_output j) else j_output j);
               remaining = unat (j_max_log_bytes j) - length out;
               err = (if remaining < length (j_error j) then take_last remaining (j_error j) else j_error j)
        in (True, j\<lparr>j_output := out, j_error := err, j_log_truncated := True,
                    j_bytes_written := j_max_log_bytes j\<rparr>)
      else (False, j))"

text \<open>The leader's start time at spawn no longer matches: the id was taken by another process.\<close>

definition leader_replaced :: "'w job_os \<Rightarrow> Job \<Rightarrow> 'w \<Rightarrow> bool" where
  "leader_replaced os j w \<longleftrightarrow>
     j_leader_start_time j \<noteq> 0 \<and> 0 < j_process_group j \<and>
     (case read_proc_start_time_ticks (os_stat os w) (j_process_group j) of
        None \<Rightarrow> False
      | Some st \<Rightarrow> st \<noteq> j_leader_start_time j)"

definition enforce_job_process_cap :: "'w job_os \<Rightarrow> 64 word \<Rightarrow> Job \<times> 'w \<Rightarrow> bool \<times> Job \<times> 'w" where
  "enforce_job_process_cap os now = (\<lambda>(j, w).
     (if leader_replaced os j w then (False, j, w)
      else let count = os_count os (j_process_group j) w in
        if count < 0 then (False, j, w)
        else if j_max_child_processes j < count
        then let w' = group_signal os j w
          in (True, j\<lparr>j_status := PROC_LIMIT, j_finished_at := os_clock os w', j_ended_at_ms := now\<rparr>, w')
        else (False, j, w)))"

section \<open>Scanning the running jobs\<close>

definition read_size :: nat where "read_size = 4096"

definition read_stdout :: "'w job_os \<Rightarrow> Job \<times> 'w \<Rightarrow> Job \<times> 'w" where
  "read_stdout os = (\<lambda>(j, w).
     (if j_stdout_fd j = - 1 then (j, w)
      else case os_read os (j_stdout_fd j) read_size w of
        (None, w') \<Rightarrow> (j, w')
      | (Some s, w') \<Rightarrow>
          if s = [] then (j\<lparr>j_stdout_fd := - 1\<rparr>, os_close os (j_stdout_fd j) w')
          else (j\<lparr>j_output := j_output j @ s, j_bytes_written := j_bytes_written j + of_nat (length s)\<rparr>, w')))"

definition read_stderr :: "'w job_os \<Rightarrow> Job \<times> 'w \<Rightarrow> Job \<times> 'w" where
  "read_stderr os = (\<lambda>(j, w).
     (if j_stderr_fd j = - 1 then (j, w)
      else case os_read os (j_stderr_fd j) read_size w of
        (None, w') \<Rightarrow> (j, w')
      | (Some s, w') \<Rightarrow>
          if s = [] then (j\<lparr>j_stderr_fd := - 1\<rparr>, os_close os (j_stderr_fd j) w')
          else (j\<lparr>j_error := j_error j @ s, j_bytes_written := j_bytes_written j + of_nat (length s)\<rparr>, w')))"

definition close_fd :: "'w job_os \<Rightarrow> int \<Rightarrow> 'w \<Rightarrow> 'w" where
  "close_fd os fd w = (if fd = - 1 then w else os_close os fd w)"

definition job_exited :: "'w job_os \<Rightarrow> wait_status \<Rightarrow> Job \<times> 'w \<Rightarrow> Job \<times> 'w" where
  "job_exited os status = (\<lambda>(j, w).
     (let code = (case status of Exited c \<Rightarrow> c | Other_Status \<Rightarrow> - 1);
          t = os_clock os w
      in (j\<lparr>j_exit_code := code, j_finished_at := t, j_ended_at_ms := epoch_ms t,
            j_status := (if code = 0 then COMPLETED else FAILED),
            j_stdout_fd := - 1, j_stderr_fd := - 1\<rparr>,
          close_fd os (j_stderr_fd j) (close_fd os (j_stdout_fd j) w))))"

text \<open>\<open>waitpid\<close> is asked for the process whose id is the group's.\<close>

definition reap :: "'w job_os \<Rightarrow> Job \<times> 'w \<Rightarrow> bool \<times> Job \<times> 'w" where
  "reap os = (\<lambda>(j, w).
     (if j_process_group j \<le> 0 then (False, j, w)
      else case os_waitpid os (j_process_group j) w of
        ((res, status), w') \<Rightarrow>
          if res = j_process_group j then (True, job_exited os status (j, w')) else (False, j, w')))"

text \<open>The body of the scanning loop, with its early \<open>continue\<close>s.\<close>

definition scan_job :: "'w job_os \<Rightarrow> 64 word \<Rightarrow> Job \<times> 'w \<Rightarrow> Job \<times> 'w" where
  "scan_job os now c =
     (let (ended, c1) = reap os (read_stderr os (read_stdout os c)) in
      if ended then c1
      else let (late, c2) = enforce_job_timeout os now c1 in
      if late then c2
      else let (cut, j3) = enforce_job_log_cap (fst c2) in
      if cut then (j3, snd c2)
      else snd (enforce_job_process_cap os now (j3, snd c2)))"

definition active :: "Job \<Rightarrow> bool" where
  "active j \<longleftrightarrow> j_status j = RUNNING \<or> j_status j = STARTING"

definition has_status :: "(Job \<Rightarrow> bool) \<Rightarrow> runner \<Rightarrow> string \<Rightarrow> bool" where
  "has_status P r i = (case jobs r i of None \<Rightarrow> False | Some j \<Rightarrow> P j)"

definition running_ids :: "runner \<Rightarrow> string list" where
  "running_ids r = filter (has_status active r) (order r)"

definition scan_one :: "'w job_os \<Rightarrow> 64 word \<Rightarrow> string \<Rightarrow> runner \<times> 'w \<Rightarrow> runner \<times> 'w" where
  "scan_one os now i = (\<lambda>(r, w).
     (case jobs r i of
        None \<Rightarrow> (r, w)
      | Some j \<Rightarrow> let (j', w') = scan_job os now (j, w) in (r\<lparr>jobs := (jobs r)(i \<mapsto> j')\<rparr>, w')))"

definition scan_targets :: "string list \<Rightarrow> nat \<Rightarrow> nat \<Rightarrow> string list" where
  "scan_targets ids cursor max_jobs =
     map (\<lambda>k. ids ! ((cursor + k) mod length ids)) [0..<min (length ids) max_jobs]"

definition check_job_limits :: "'w job_os \<Rightarrow> 64 word \<Rightarrow> nat \<Rightarrow> runner \<times> 'w \<Rightarrow> runner \<times> 'w" where
  "check_job_limits os now max_jobs c =
     (let ids = running_ids (fst c) in
      if ids = [] then c
      else let targets = scan_targets ids (scan_cursor (fst c)) max_jobs;
               (r, w) = fold (scan_one os now) targets c
        in (r\<lparr>scan_cursor := (scan_cursor r + length targets) mod length ids,
              scanned_this_tick := length targets\<rparr>, w))"

section \<open>One tick\<close>

definition start_one :: "'w job_os \<Rightarrow> 64 word \<Rightarrow> Job \<times> 'w \<Rightarrow> bool \<times> Job \<times> 'w" where
  "start_one os now = (\<lambda>(j, w).
     (let ((ok, j'), w') = os_spawn os (j\<lparr>j_status := STARTING\<rparr>) w
      in (ok, (if ok then j'\<lparr>j_status := RUNNING, j_started_at_ms := now\<rparr> else j'\<lparr>j_status := FAILED\<rparr>), w')))"

fun start_jobs ::
  "'w job_os \<Rightarrow> 64 word \<Rightarrow> nat \<Rightarrow> nat \<Rightarrow> string list \<Rightarrow> nat \<Rightarrow> runner \<times> 'w \<Rightarrow> nat \<times> runner \<times> 'w" where
  "start_jobs os now max_starts run [] n (r, w) = (n, r\<lparr>job_queue := []\<rparr>, w)"
| "start_jobs os now max_starts run (i # q) n (r, w) =
     (if n < max_starts \<and> run + n < max_concurrent r then
        (case jobs r i of
           None \<Rightarrow> start_jobs os now max_starts run q n (r, w)
         | Some j \<Rightarrow>
             (let (ok, j', w') = start_one os now (j, w)
              in start_jobs os now max_starts run q (if ok then n + 1 else n)
                   (r\<lparr>jobs := (jobs r)(i \<mapsto> j')\<rparr>, w')))
      else (n, r\<lparr>job_queue := i # q\<rparr>, w))"

definition mem_pct :: "SystemMetrics \<Rightarrow> double" where
  "mem_pct m = (if 0 < mem_total m
     then d_mul (d_div (d_of_u64 (mem_available m)) (d_of_u64 (mem_total m))) (Fin 100) else Fin 0)"

definition count_jobs :: "(Job \<Rightarrow> bool) \<Rightarrow> runner \<Rightarrow> nat" where
  "count_jobs P r = length (filter (has_status P r) (order r))"

definition is_queued :: "Job \<Rightarrow> bool" where
  "is_queued j \<longleftrightarrow> j_status j = QUEUED"

definition tick_decision :: "SystemMetrics \<Rightarrow> runner \<Rightarrow> GovernorResult" where
  "tick_decision m r = decide (governor r) (cpu_usage_percent m) (mem_pct m)
     (as_int32 (int (count_jobs active r))) (as_int32 (int (count_jobs is_queued r)))"

definition tick ::
  "'w job_os \<Rightarrow> 64 word \<Rightarrow> SystemMetrics \<Rightarrow> nat \<Rightarrow> nat \<Rightarrow> runner \<times> 'w \<Rightarrow> runner \<times> 'w" where
  "tick os now m max_starts max_limit_scans = (\<lambda>(r, w).
     (let run = count_jobs active r;
          queued = count_jobs is_queued r;
          res = tick_decision m r;
          r1 = r\<lparr>started_this_tick := 0, scanned_this_tick := 0,
                 diagnostics := \<lparr>last_decision = decision res, last_block_reason = reason res,
                   last_retry_after_ms = retry_after_ms res, last_tick_now_ms = now,
                   last_tick_running = as_int32 (int run), last_tick_queued = as_int32 (int queued)\<rparr>\<rparr>;
          (n, r2, w2) = (if decision res = START_NOW
                         then start_jobs os now max_starts run (job_queue r1) 0 (r1, w)
                         else (0, r1, w))
      in check_job_limits os now max_limit_scans (r2\<lparr>started_this_tick := n\<rparr>, w2)))"

end
