(* ===== verification/Job_Laws.thy ===== *)
theory Job_Laws
  imports Job
begin

text \<open>
  Lemmas on the job runner's operations, the runner's invariant and its preservation by every
  operation, and the runs of the runner as a step relation.
\<close>

section \<open>The life of a job\<close>

definition terminal :: "JobStatus \<Rightarrow> bool" where
  "terminal s \<longleftrightarrow> s \<in> {COMPLETED, FAILED, CANCELLED, TIMEOUT, PROC_LIMIT}"

inductive life_edge :: "JobStatus \<Rightarrow> JobStatus \<Rightarrow> bool" where
  started: "life_edge QUEUED RUNNING"
| not_started: "life_edge QUEUED FAILED"
| withdrawn: "life_edge QUEUED CANCELLED"
| stopped: "life_edge RUNNING CANCELLED"
| exited: "life_edge RUNNING COMPLETED"
| exited_badly: "life_edge RUNNING FAILED"
| too_long: "life_edge RUNNING TIMEOUT"
| too_many: "life_edge RUNNING PROC_LIMIT"
| revived: "life_edge CANCELLED RUNNING"
| not_revived: "life_edge CANCELLED FAILED"

inductive_simps life_edge_from [simp]:
  "life_edge QUEUED s" "life_edge RUNNING s" "life_edge CANCELLED s" "life_edge COMPLETED s"
  "life_edge FAILED s" "life_edge TIMEOUT s" "life_edge PROC_LIMIT s" "life_edge STARTING s"

section \<open>Scanning one job\<close>

text \<open>What a scan never writes: everything but the status, the logs and the end of the job.\<close>

definition same_identity :: "Job \<Rightarrow> Job \<Rightarrow> bool" where
  "same_identity j j' \<longleftrightarrow> j_id j' = j_id j \<and> j_command j' = j_command j \<and> j_created_at j' = j_created_at j \<and>
     j_started_at_ms j' = j_started_at_ms j \<and> j_process_group j' = j_process_group j \<and>
     j_leader_start_time j' = j_leader_start_time j \<and> j_max_runtime_ms j' = j_max_runtime_ms j \<and>
     j_max_log_bytes j' = j_max_log_bytes j \<and> j_max_output_line_bytes j' = j_max_output_line_bytes j \<and>
     j_max_child_processes j' = j_max_child_processes j"

lemma same_identity_refl [simp]: "same_identity j j"
  by (simp add: same_identity_def)

lemma same_identity_trans: "same_identity a b \<Longrightarrow> same_identity b c \<Longrightarrow> same_identity a c"
  by (simp add: same_identity_def)

named_theorems scan_defs \<open>definitions of the parts of a scan\<close>

declare read_stdout_def [scan_defs] read_stderr_def [scan_defs] reap_def [scan_defs]
  job_exited_def [scan_defs] enforce_job_timeout_def [scan_defs]
  enforce_job_process_cap_def [scan_defs] Let_def [scan_defs]

lemmas scan_splits = if_splits prod.splits option.splits

lemma read_stdout_frame:
  "read_stdout os (j, w) = (j', w') \<Longrightarrow>
   same_identity j j' \<and> j_status j' = j_status j \<and> j_error j' = j_error j \<and>
   j_log_truncated j' = j_log_truncated j \<and> j_stderr_fd j' = j_stderr_fd j"
  by (auto simp: scan_defs same_identity_def split: scan_splits)

lemma read_stderr_frame:
  "read_stderr os (j, w) = (j', w') \<Longrightarrow>
   same_identity j j' \<and> j_status j' = j_status j \<and> j_output j' = j_output j \<and>
   j_log_truncated j' = j_log_truncated j \<and> j_stdout_fd j' = j_stdout_fd j"
  by (auto simp: scan_defs same_identity_def split: scan_splits)

lemma reap_frame:
  "reap os (j, w) = (b, j', w') \<Longrightarrow>
   same_identity j j' \<and> j_output j' = j_output j \<and> j_error j' = j_error j \<and>
   (if b then 0 < j_process_group j \<and> j_status j' = (if j_exit_code j' = 0 then COMPLETED else FAILED) \<and>
      j_stdout_fd j' = - 1 \<and> j_stderr_fd j' = - 1 else j' = j)"
  by (auto simp: scan_defs same_identity_def split: scan_splits)

lemma timeout_frame:
  "enforce_job_timeout os now (j, w) = (b, j', w') \<Longrightarrow>
   same_identity j j' \<and> j_output j' = j_output j \<and> j_error j' = j_error j \<and>
   b = (j_max_runtime_ms j < now - j_started_at_ms j) \<and>
   (if b then j_status j' = TIMEOUT \<and> j_ended_at_ms j' = now else j' = j \<and> w' = w)"
  by (auto simp: scan_defs same_identity_def split: scan_splits)

lemma process_cap_frame:
  "enforce_job_process_cap os now (j, w) = (b, j', w') \<Longrightarrow>
   same_identity j j' \<and> j_output j' = j_output j \<and> j_error j' = j_error j \<and>
   (if b then j_status j' = PROC_LIMIT \<and> j_ended_at_ms j' = now else j' = j \<and> w' = w)"
  by (auto simp: scan_defs same_identity_def split: scan_splits)

lemma log_cap_frame:
  "enforce_job_log_cap j = (b, j') \<Longrightarrow>
   same_identity j j' \<and> j_status j' = j_status j \<and>
   length (j_output j') + length (j_error j') \<le> max (unat (j_max_log_bytes j)) 0 \<and>
   (\<not> b \<longrightarrow> j' = j)"
  by (auto simp: enforce_job_log_cap_def same_identity_def Let_def min_def split: if_splits)

text \<open>A scan is one of five runs through the body.\<close>

lemma scan_job_cases:
  assumes "scan_job os now (j, w) = (j', w')"
  obtains (reaped) j1 w1 where "read_stderr os (read_stdout os (j, w)) = (j1, w1)"
      "reap os (j1, w1) = (True, j', w')"
  | (late) j1 w1 w2 where "read_stderr os (read_stdout os (j, w)) = (j1, w1)"
      "reap os (j1, w1) = (False, j1, w2)" "enforce_job_timeout os now (j1, w2) = (True, j', w')"
  | (cut) j1 w1 where "read_stderr os (read_stdout os (j, w)) = (j1, w1)"
      "reap os (j1, w1) = (False, j1, w')" "enforce_job_timeout os now (j1, w') = (False, j1, w')"
      "enforce_job_log_cap j1 = (True, j')"
  | (capped) j1 w1 w2 b where "read_stderr os (read_stdout os (j, w)) = (j1, w1)"
      "reap os (j1, w1) = (False, j1, w2)" "enforce_job_timeout os now (j1, w2) = (False, j1, w2)"
      "enforce_job_log_cap j1 = (False, j1)" "enforce_job_process_cap os now (j1, w2) = (b, j', w')"
proof -
  obtain j1 w1 where rd: "read_stderr os (read_stdout os (j, w)) = (j1, w1)" by fastforce
  obtain b1 j2 w2 where re: "reap os (j1, w1) = (b1, j2, w2)" by (metis prod_cases3)
  obtain b2 j3 w3 where ti: "enforce_job_timeout os now (j2, w2) = (b2, j3, w3)" by (metis prod_cases3)
  obtain b3 j4 where lo: "enforce_job_log_cap j3 = (b3, j4)" by fastforce
  obtain b4 j5 w5 where pr: "enforce_job_process_cap os now (j4, w3) = (b4, j5, w5)" by (metis prod_cases3)
  note res = assms [unfolded scan_job_def rd, simplified re ti lo pr Let_def, simplified]
  show thesis
  proof (cases b1)
    case True
    with res re rd reaped show thesis by (auto simp: Let_def)
  next
    case False
    then have j2: "j2 = j1" using reap_frame [OF re] by simp
    show thesis
    proof (cases b2)
      case True
      with False res re rd ti j2 late show thesis by auto
    next
      case b2: False
      then have j3: "j3 = j2" "w3 = w2" using timeout_frame [OF ti] by simp_all
      show thesis
      proof (cases b3)
        case True
        with False b2 res re rd ti lo j2 j3 cut show thesis by auto
      next
        case b3: False
        then have "j4 = j3" using log_cap_frame [OF lo] by simp
        with False b2 b3 res re rd ti lo pr j2 j3 capped show thesis by auto
      qed
    qed
  qed
qed

lemma reads_frame:
  assumes "read_stderr os (read_stdout os (j, w)) = (j1, w1)"
  shows "same_identity j j1 \<and> j_status j1 = j_status j \<and> j_log_truncated j1 = j_log_truncated j"
proof -
  obtain j0 w0 where a: "read_stdout os (j, w) = (j0, w0)" by fastforce
  show ?thesis
    using read_stdout_frame [OF a] read_stderr_frame [OF assms [unfolded a]]
    by (auto intro: same_identity_trans)
qed

lemma scan_job_frame:
  assumes "scan_job os now (j, w) = (j', w')"
  shows "same_identity j j' \<and>
    (j_status j' = j_status j \<or> j_status j' \<in> {COMPLETED, FAILED, TIMEOUT, PROC_LIMIT})"
  using assms
proof (cases rule: scan_job_cases)
  case (reaped j1 w1)
  then show ?thesis
    using reads_frame [OF reaped(1)] reap_frame [OF reaped(2)]
    by (auto intro: same_identity_trans split: if_splits)
next
  case (late j1 w1 w2)
  then show ?thesis
    using reads_frame [OF late(1)] timeout_frame [OF late(3)] by (auto intro: same_identity_trans)
next
  case (cut j1 w1)
  then show ?thesis
    using reads_frame [OF cut(1)] log_cap_frame [OF cut(4)] by (auto intro: same_identity_trans)
next
  case (capped j1 w1 w2 b)
  then show ?thesis
    using reads_frame [OF capped(1)] process_cap_frame [OF capped(5)]
    by (auto intro: same_identity_trans split: if_splits)
qed

lemma scan_job_edge:
  assumes "scan_job os now (j, w) = (j', w')" and "j_status j = RUNNING"
  shows "j_status j' = RUNNING \<or> life_edge RUNNING (j_status j')"
  using scan_job_frame [OF assms(1)] assms(2) by auto

section \<open>Scanning the table\<close>

text \<open>What the scans and the starts leave alone.\<close>

definition same_shape :: "runner \<Rightarrow> runner \<Rightarrow> bool" where
  "same_shape r r' \<longleftrightarrow> order r' = order r \<and> dom (jobs r') = dom (jobs r) \<and>
     max_concurrent r' = max_concurrent r \<and> governor r' = governor r \<and> job_counter r' = job_counter r \<and>
     accepting r' = accepting r"

lemma same_shape_refl [simp]: "same_shape r r"
  by (simp add: same_shape_def)

lemma same_shape_trans: "same_shape a b \<Longrightarrow> same_shape b c \<Longrightarrow> same_shape a c"
  by (simp add: same_shape_def)

lemma scan_one_frame:
  assumes "scan_one os now i (r, w) = (r', w')"
  shows "same_shape r r' \<and> job_queue r' = job_queue r \<and> scan_cursor r' = scan_cursor r \<and>
    started_this_tick r' = started_this_tick r \<and> scanned_this_tick r' = scanned_this_tick r \<and>
    diagnostics r' = diagnostics r \<and> (\<forall>k. k \<noteq> i \<longrightarrow> jobs r' k = jobs r k) \<and>
    (\<forall>j. jobs r i = Some j \<longrightarrow> (\<exists>j' u u'. jobs r' i = Some j' \<and> scan_job os now (j, u) = (j', u')))"
proof (cases "jobs r i")
  case None
  with assms show ?thesis by (simp add: scan_one_def)
next
  case (Some j)
  obtain j' w1 where s: "scan_job os now (j, w) = (j', w1)" by fastforce
  with assms Some have "r' = r\<lparr>jobs := (jobs r)(i \<mapsto> j')\<rparr>" by (simp add: scan_one_def)
  with s Some show ?thesis by (auto simp: same_shape_def insert_absorb)
qed

text \<open>Distinct targets are scanned once each; everything else stays.\<close>

lemma scan_all_frame:
  assumes "fold (scan_one os now) targets (r, w) = (r', w')" and "distinct targets"
  shows "same_shape r r' \<and> job_queue r' = job_queue r \<and> scan_cursor r' = scan_cursor r \<and>
    started_this_tick r' = started_this_tick r \<and> scanned_this_tick r' = scanned_this_tick r \<and>
    diagnostics r' = diagnostics r \<and> (\<forall>k. k \<notin> set targets \<longrightarrow> jobs r' k = jobs r k) \<and>
    (\<forall>i j. i \<in> set targets \<longrightarrow> jobs r i = Some j \<longrightarrow>
       (\<exists>j' u u'. jobs r' i = Some j' \<and> scan_job os now (j, u) = (j', u')))"
  using assms
proof (induction targets arbitrary: r w)
  case Nil
  then show ?case by simp
next
  case (Cons i ts)
  obtain r1 w1 where s: "scan_one os now i (r, w) = (r1, w1)" by fastforce
  note one = scan_one_frame [OF s]
  have rest: "fold (scan_one os now) ts (r1, w1) = (r', w')" "distinct ts" "i \<notin> set ts"
    using Cons.prems s by simp_all
  note ih = Cons.IH [OF rest(1,2)]
  have shape: "same_shape r r'" using one ih same_shape_trans by blast
  have other: "jobs r' k = jobs r k" if "k \<notin> set (i # ts)" for k
    using that one ih by simp
  have hit: "\<exists>j' u u'. jobs r' k = Some j' \<and> scan_job os now (j, u) = (j', u')"
    if "k \<in> set (i # ts)" "jobs r k = Some j" for k j
  proof (cases "k = i")
    case True
    then show ?thesis using that one ih rest(3) by metis
  next
    case False
    then show ?thesis using that one ih by (metis set_ConsD)
  qed
  show ?case using shape other hit one ih by simp
qed

lemma scan_targets_rotate: "scan_targets ids c m = take m (rotate c ids)"
  by (rule nth_equalityI) (simp_all add: scan_targets_def nth_rotate min.commute)

lemma length_scan_targets [simp]: "length (scan_targets ids c m) = min (length ids) m"
  by (simp add: scan_targets_def)

lemma scan_targets_set: "set (scan_targets ids c m) \<subseteq> set ids"
  using set_take_subset [of m "rotate c ids"] by (simp add: scan_targets_rotate)

lemma scan_targets_distinct: "distinct ids \<Longrightarrow> distinct (scan_targets ids c m)"
  by (simp add: scan_targets_rotate)

lemma running_ids_distinct: "distinct (order r) \<Longrightarrow> distinct (running_ids r)"
  by (simp add: running_ids_def)

lemma in_running_ids:
  "i \<in> set (running_ids r) \<longleftrightarrow> i \<in> set (order r) \<and> (\<exists>j. jobs r i = Some j \<and> active j)"
  by (auto simp: running_ids_def has_status_def split: option.splits)

definition tick_targets :: "runner \<Rightarrow> nat \<Rightarrow> string list" where
  "tick_targets r m = scan_targets (running_ids r) (scan_cursor r) m"

lemma check_frame:
  assumes "check_job_limits os now m (r, w) = (r', w')" and "distinct (order r)"
  shows "same_shape r r' \<and> job_queue r' = job_queue r \<and> started_this_tick r' = started_this_tick r \<and>
    diagnostics r' = diagnostics r \<and>
    scanned_this_tick r' = (if running_ids r = [] then scanned_this_tick r else length (tick_targets r m)) \<and>
    (\<forall>k. k \<notin> set (tick_targets r m) \<longrightarrow> jobs r' k = jobs r k) \<and>
    (\<forall>i j. i \<in> set (tick_targets r m) \<longrightarrow> jobs r i = Some j \<longrightarrow>
       (\<exists>j' u u'. jobs r' i = Some j' \<and> scan_job os now (j, u) = (j', u')))"
proof (cases "running_ids r = []")
  case True
  then show ?thesis
    using assms(1) by (simp add: check_job_limits_def tick_targets_def scan_targets_def)
next
  case False
  obtain r1 w1 where f: "fold (scan_one os now) (tick_targets r m) (r, w) = (r1, w1)" by fastforce
  have d: "distinct (tick_targets r m)"
    using assms(2) by (simp add: tick_targets_def scan_targets_distinct running_ids_distinct)
  have r': "r' = r1\<lparr>scan_cursor := (scan_cursor r1 + length (tick_targets r m)) mod length (running_ids r),
      scanned_this_tick := length (tick_targets r m)\<rparr>"
    using assms(1) False f by (simp add: check_job_limits_def tick_targets_def Let_def)
  show ?thesis
    using scan_all_frame [OF f d] False by (simp add: r' same_shape_def)
qed

lemma check_change:
  assumes "check_job_limits os now m (r, w) = (r', w')" and "distinct (order r)"
    and "jobs r' i = Some j'"
  shows "\<exists>j. jobs r i = Some j \<and> (j' = j \<or>
    i \<in> set (tick_targets r m) \<and> active j \<and> (\<exists>u u'. scan_job os now (j, u) = (j', u')))"
proof (cases "i \<in> set (tick_targets r m)")
  case False
  then have "jobs r' i = jobs r i" using check_frame [OF assms(1,2)] by blast
  with assms(3) show ?thesis by simp
next
  case True
  then have "i \<in> set (running_ids r)"
    using scan_targets_set unfolding tick_targets_def by (rule subsetD [rotated])
  then obtain j where j: "jobs r i = Some j" "active j"
    by (auto simp: in_running_ids)
  have "\<forall>i j. i \<in> set (tick_targets r m) \<longrightarrow> jobs r i = Some j \<longrightarrow>
      (\<exists>j' u u'. jobs r' i = Some j' \<and> scan_job os now (j, u) = (j', u'))"
    using check_frame [OF assms(1,2)] by blast
  with True j(1) obtain j2 u u' where "jobs r' i = Some j2" "scan_job os now (j, u) = (j2, u')"
    by blast
  with assms(3) True j show ?thesis by auto
qed

section \<open>Starting jobs\<close>

lemma start_one_status:
  "start_one os now (j, w) = (ok, j', w') \<Longrightarrow>
   j_status j' = (if ok then RUNNING else FAILED) \<and> (ok \<longrightarrow> j_started_at_ms j' = now)"
  by (auto simp: start_one_def Let_def split: prod.splits if_splits)

definition is_running :: "Job \<Rightarrow> bool" where
  "is_running j \<longleftrightarrow> j_status j = RUNNING"

definition started_from :: "'w job_os \<Rightarrow> 64 word \<Rightarrow> runner \<Rightarrow> runner \<Rightarrow> string \<Rightarrow> bool" where
  "started_from os now r r' i \<longleftrightarrow>
     (\<exists>j ok j' u u'. jobs r i = Some j \<and> start_one os now (j, u) = (ok, j', u') \<and> jobs r' i = Some j')"

text \<open>\<open>k\<close> is the number of jobs taken off the queue.\<close>

definition start_result ::
  "'w job_os \<Rightarrow> 64 word \<Rightarrow> nat \<Rightarrow> nat \<Rightarrow> string list \<Rightarrow> nat \<Rightarrow> runner \<Rightarrow> nat \<Rightarrow> runner \<Rightarrow> nat \<Rightarrow> bool" where
  "start_result os now ms run q n r n' r' k \<longleftrightarrow>
     k \<le> length q \<and> job_queue r' = drop k q \<and> same_shape r r' \<and> scan_cursor r' = scan_cursor r \<and>
     scanned_this_tick r' = scanned_this_tick r \<and> diagnostics r' = diagnostics r \<and>
     (\<forall>i. i \<notin> set (take k q) \<longrightarrow> jobs r' i = jobs r i) \<and>
     (\<forall>i \<in> set (take k q). started_from os now r r' i) \<and>
     n' = n + length (filter (has_status is_running r') (take k q)) \<and>
     (n \<le> ms \<longrightarrow> n' \<le> ms) \<and> (run + n \<le> max_concurrent r \<longrightarrow> run + n' \<le> max_concurrent r) \<and>
     (k < length q \<longrightarrow> ms \<le> n' \<or> max_concurrent r \<le> run + n')"

lemma start_jobs_stops:
  "\<not> (n < ms \<and> run + n < max_concurrent r) \<Longrightarrow>
   start_result os now ms run (i # q) n r n (r\<lparr>job_queue := i # q\<rparr>) 0"
  by (auto simp: start_result_def same_shape_def)

lemma start_result_Cons:
  assumes start: "jobs r i = Some j" "start_one os now (j, w) = (ok, j', w')"
    and go: "n < ms" "run + n < max_concurrent r" and q: "i \<notin> set q"
    and rest: "start_result os now ms run q (if ok then n + 1 else n) (r\<lparr>jobs := (jobs r)(i \<mapsto> j')\<rparr>) n' r' k"
  shows "start_result os now ms run (i # q) n r n' r' (Suc k)"
proof -
  let ?r1 = "r\<lparr>jobs := (jobs r)(i \<mapsto> j')\<rparr>"
  have i: "i \<notin> set (take k q)" using q by (meson in_set_takeD)
  then have r'i: "jobs r' i = Some j'" using rest by (simp add: start_result_def)
  have run: "has_status is_running r' i \<longleftrightarrow> ok"
    using start_one_status [OF start(2)] r'i by (auto simp: has_status_def is_running_def)
  have "same_shape r r'"
    using rest start(1) by (auto simp: start_result_def same_shape_def insert_absorb)
  moreover have "started_from os now r r' i"
    using start r'i by (auto simp: started_from_def)
  moreover have "started_from os now r r' k'" if "k' \<in> set (take k q)" for k'
  proof -
    have "started_from os now ?r1 r' k'" using that rest by (simp add: start_result_def)
    moreover have "k' \<noteq> i" using that i by blast
    ultimately show ?thesis by (simp add: started_from_def)
  qed
  moreover have "jobs r' k' = jobs r k'" if "k' \<notin> set (take (Suc k) (i # q))" for k'
    using that rest by (simp add: start_result_def)
  ultimately show ?thesis
    using rest go run by (auto simp: start_result_def)
qed

lemma start_jobs_frame:
  assumes "start_jobs os now ms run q n (r, w) = (n', r', w')"
    and "distinct q" and "set q \<subseteq> dom (jobs r)"
  shows "\<exists>k. start_result os now ms run q n r n' r' k"
  using assms
proof (induction q arbitrary: n r w)
  case Nil
  then show ?case by (auto simp: start_result_def same_shape_def)
next
  case (Cons i q)
  obtain j where j: "jobs r i = Some j" using Cons.prems(3) by auto
  show ?case
  proof (cases "n < ms \<and> run + n < max_concurrent r")
    case False
    then show ?thesis
      using Cons.prems(1) start_jobs_stops [OF False] by (intro exI [of _ 0]) (auto split: if_splits)
  next
    case True
    obtain ok j' w1 where st: "start_one os now (j, w) = (ok, j', w1)" by (metis prod_cases3)
    let ?r1 = "r\<lparr>jobs := (jobs r)(i \<mapsto> j')\<rparr>"
    have "start_jobs os now ms run q (if ok then n + 1 else n) (?r1, w1) = (n', r', w')"
      using Cons.prems(1) True j st by simp
    moreover have "distinct q" "set q \<subseteq> dom (jobs ?r1)" "i \<notin> set q"
      using Cons.prems(2,3) by auto
    ultimately obtain k where "start_result os now ms run q (if ok then n + 1 else n) ?r1 n' r' k"
      using Cons.IH by blast
    then show ?thesis
      using start_result_Cons [OF j st] True \<open>i \<notin> set q\<close> by blast
  qed
qed

end
