(* ===== verification/Job_Runs.thy ===== *)
theory Job_Runs
  imports Job_Laws "HOL-Library.Multiset"
begin

text \<open>
  The runner as a state machine: its public operations and changes of the rest of the system are
  the steps, and the runner's invariant holds in every reachable state. The hash table's iteration
  order is arbitrary, as long as a new key is placed once (\<open>placing\<close>).
\<close>

section \<open>The invariant\<close>

definition placing :: "'w job_os \<Rightarrow> bool" where
  "placing os \<longleftrightarrow> (\<forall>ids i. mset (os_place os ids i) = add_mset i (mset ids))"

definition job_name :: "nat \<Rightarrow> string" where
  "job_name n = ''job_'' @ show_nat n"

lemma job_name_inject [simp]: "job_name m = job_name n \<longleftrightarrow> m = n"
  using show_nat_inject by (auto simp: job_name_def)

definition job_table_inv :: "runner \<Rightarrow> bool" where
  "job_table_inv r \<longleftrightarrow> distinct (order r) \<and> set (order r) = dom (jobs r) \<and>
     dom (jobs r) \<subseteq> job_name ` {1..job_counter r}"

definition job_queue_inv :: "runner \<Rightarrow> bool" where
  "job_queue_inv r \<longleftrightarrow> distinct (job_queue r) \<and> set (job_queue r) \<subseteq> dom (jobs r) \<and>
     (\<forall>i j. i \<in> set (job_queue r) \<longrightarrow> jobs r i = Some j \<longrightarrow> j_status j \<in> {QUEUED, CANCELLED}) \<and>
     (\<forall>i j. jobs r i = Some j \<longrightarrow> j_status j = QUEUED \<longrightarrow> i \<in> set (job_queue r))"

definition none_starting :: "runner \<Rightarrow> bool" where
  "none_starting r \<longleftrightarrow> (\<forall>i j. jobs r i = Some j \<longrightarrow> j_status j \<noteq> STARTING)"

definition runner_inv :: "runner \<Rightarrow> bool" where
  "runner_inv r \<longleftrightarrow> job_table_inv r \<and> job_queue_inv r \<and> none_starting r \<and>
     count_jobs active r \<le> max_concurrent r"

lemma count_jobs_card:
  assumes "job_table_inv r"
  shows "count_jobs P r = card {i. has_status P r i}"
proof -
  have "distinct (filter (has_status P r) (order r))"
    using assms by (simp add: job_table_inv_def)
  then have "count_jobs P r = card (set (filter (has_status P r) (order r)))"
    by (simp only: count_jobs_def distinct_card)
  also have "set (filter (has_status P r) (order r)) = {i. has_status P r i}"
    using assms by (auto simp: job_table_inv_def has_status_def split: option.splits)
  finally show ?thesis .
qed

lemma finite_has_status:
  assumes "job_table_inv r"
  shows "finite {i. has_status P r i}"
proof (rule finite_subset)
  show "{i. has_status P r i} \<subseteq> set (order r)"
    using assms by (auto simp: job_table_inv_def has_status_def split: option.splits)
qed simp

lemma count_jobs_le:
  assumes "job_table_inv r" "job_table_inv r'" and "\<And>i. has_status P r' i \<Longrightarrow> has_status P r i"
  shows "count_jobs P r' \<le> count_jobs P r"
  using assms finite_has_status [OF assms(1), of P]
  by (simp add: count_jobs_card card_mono subset_iff)

lemma same_shape_table: "same_shape r r' \<Longrightarrow> job_table_inv r \<Longrightarrow> job_table_inv r'"
  by (simp add: same_shape_def job_table_inv_def)

section \<open>Preservation\<close>

lemma new_runner_inv: "runner_inv (new_runner n)"
  by (simp add: runner_inv_def job_table_inv_def job_queue_inv_def none_starting_def new_runner_def
      count_jobs_def)

lemma submit_frame:
  assumes "submit_job os c l (r, w) = (i, r', w')"
  shows "i = job_name (job_counter r + 1) \<and> w' = w \<and> job_queue r' = job_queue r @ [i] \<and>
    order r' = os_place os (order r) i \<and> job_counter r' = job_counter r + 1 \<and>
    max_concurrent r' = max_concurrent r \<and>
    (\<exists>j. jobs r' = (jobs r)(i \<mapsto> j) \<and> j_status j = QUEUED \<and> j_command j = c \<and> j_output j = [] \<and> j_error j = [])"
  using assms by (auto simp: submit_job_def job_name_def new_job_def Let_def)

lemma submit_inv:
  assumes "placing os" and "runner_inv r" and "submit_job os c l (r, w) = (i, r', w')"
  shows "runner_inv r'"
proof -
  obtain j where j: "jobs r' = (jobs r)(i \<mapsto> j)" "j_status j = QUEUED"
    and i: "i = job_name (job_counter r + 1)"
    and q: "job_queue r' = job_queue r @ [i]" "order r' = os_place os (order r) i"
      "job_counter r' = job_counter r + 1" "max_concurrent r' = max_concurrent r"
    using submit_frame [OF assms(3)] by blast
  have tab: "job_table_inv r" and que: "job_queue_inv r" and st: "none_starting r"
    and cap: "count_jobs active r \<le> max_concurrent r"
    using assms(2) by (simp_all add: runner_inv_def)
  have fresh: "i \<notin> dom (jobs r)"
    using tab i by (auto simp: job_table_inv_def)
  have m: "mset (order r') = add_mset i (mset (order r))"
    using assms(1) q(2) by (simp add: placing_def)
  have s: "set (order r') = insert i (set (order r))"
    using arg_cong [OF m, of set_mset] by simp
  have "distinct (i # order r)" using tab fresh by (simp add: job_table_inv_def)
  then have "distinct (order r')" using m mset_eq_imp_distinct_iff [of "order r'" "i # order r"] by simp
  then have tab': "job_table_inv r'"
    using tab s i by (force simp: job_table_inv_def j q)
  have "job_queue_inv r'"
    using que fresh j(2) by (auto simp: job_queue_inv_def j(1) q split: if_splits)
  moreover have "none_starting r'"
    using st j(2) by (auto simp: none_starting_def j(1) split: if_splits)
  moreover have "count_jobs active r' \<le> count_jobs active r"
    using j(2) by (intro count_jobs_le tab tab')
      (auto simp: has_status_def active_def j(1) split: if_splits)
  ultimately show ?thesis using tab' cap q(4) by (simp add: runner_inv_def)
qed

lemma cancel_frame:
  assumes "cancel_job os i (r, w) = (b, r', w')"
  shows "r' = r \<or> (\<exists>j t. jobs r i = Some j \<and> j_status j \<in> {QUEUED, RUNNING} \<and>
    r' = r\<lparr>jobs := (jobs r)(i \<mapsto> finish_now CANCELLED t j)\<rparr>)"
  using assms by (auto simp: cancel_job_def Let_def split: option.splits if_splits)

lemma cancel_inv:
  assumes "runner_inv r" and "cancel_job os i (r, w) = (b, r', w')"
  shows "runner_inv r'"
proof (cases "r' = r")
  case True
  then show ?thesis using assms(1) by simp
next
  case False
  then obtain j t where j: "jobs r i = Some j" "j_status j \<in> {QUEUED, RUNNING}"
    and r': "r' = r\<lparr>jobs := (jobs r)(i \<mapsto> finish_now CANCELLED t j)\<rparr>"
    using cancel_frame [OF assms(2)] by blast
  have inv: "job_table_inv r" "job_queue_inv r" "none_starting r" "count_jobs active r \<le> max_concurrent r"
    using assms(1) by (simp_all add: runner_inv_def)
  have tab': "job_table_inv r'" using inv(1) j(1) by (auto simp: job_table_inv_def r')
  have "job_queue_inv r'"
    using inv(2) j by (auto simp: job_queue_inv_def r' finish_now_def split: if_splits)
  moreover have "none_starting r'"
    using inv(3) by (auto simp: none_starting_def r' finish_now_def split: if_splits)
  moreover have "count_jobs active r' \<le> count_jobs active r"
    by (intro count_jobs_le inv(1) tab')
      (auto simp: has_status_def active_def r' finish_now_def split: if_splits)
  ultimately show ?thesis using tab' inv(4) by (simp add: runner_inv_def r')
qed

lemma check_inv:
  assumes "runner_inv r" and "check_job_limits os now m (r, w) = (r', w')"
  shows "runner_inv r'"
proof -
  have inv: "job_table_inv r" "job_queue_inv r" "none_starting r" "count_jobs active r \<le> max_concurrent r"
    using assms(1) by (simp_all add: runner_inv_def)
  note fr = check_frame [OF assms(2)]
  have d: "distinct (order r)" using inv(1) by (simp add: job_table_inv_def)
  have tab': "job_table_inv r'" using fr [OF d] same_shape_table inv(1) by blast
  have change: "\<exists>j. jobs r i = Some j \<and> (j' = j \<or>
      active j \<and> (j_status j' = j_status j \<or> j_status j' \<in> {COMPLETED, FAILED, TIMEOUT, PROC_LIMIT}))"
    if "jobs r' i = Some j'" for i j'
  proof -
    note ch = check_change [OF assms(2) d that]
    obtain j where j: "jobs r i = Some j"
        "j' = j \<or> active j \<and> (\<exists>u u'. scan_job os now (j, u) = (j', u'))"
      using ch by metis
    then show ?thesis using scan_job_frame by (metis (no_types, lifting))
  qed
  have queued: "j' = j \<and> j_status j' \<in> {QUEUED, CANCELLED}"
    if "jobs r' i = Some j'" "jobs r i = Some j" "j_status j \<in> {QUEUED, CANCELLED} \<or> j_status j' = QUEUED" for i j j'
    using that change [OF that(1)] by (auto simp: active_def)
  have "job_queue_inv r'"
    unfolding job_queue_inv_def
  proof (intro conjI allI impI)
    fix i j' assume i: "i \<in> set (job_queue r')" "jobs r' i = Some j'"
    then obtain j where "jobs r i = Some j" using change by blast
    with i fr [OF d] inv(2) queued show "j_status j' \<in> {QUEUED, CANCELLED}"
      unfolding job_queue_inv_def by metis
  next
    fix i j' assume i: "jobs r' i = Some j'" "j_status j' = QUEUED"
    then obtain j where "jobs r i = Some j" using change by blast
    with i fr [OF d] inv(2) queued show "i \<in> set (job_queue r')"
      unfolding job_queue_inv_def by metis
  qed (use fr [OF d] inv(2) in \<open>simp_all add: job_queue_inv_def same_shape_def\<close>)
  moreover have "none_starting r'"
    using inv(3) change by (fastforce simp: none_starting_def)
  moreover have "count_jobs active r' \<le> count_jobs active r"
    by (intro count_jobs_le inv(1) tab')
      (auto simp: has_status_def split: option.splits dest!: change)
  ultimately show ?thesis using tab' inv(4) fr [OF d] by (simp add: runner_inv_def same_shape_def)
qed

section \<open>Starting and ticking\<close>

lemma started_from_status:
  assumes "started_from os now r r' i"
  shows "\<exists>j j'. jobs r i = Some j \<and> jobs r' i = Some j' \<and> j_status j' \<in> {RUNNING, FAILED}"
  using assms start_one_status by (fastforce simp: started_from_def)

lemma start_change:
  assumes "start_result os now ms c (job_queue r) 0 r n r' k" and "jobs r' i = Some j'"
  shows "i \<notin> set (take k (job_queue r)) \<and> jobs r i = Some j' \<or>
    i \<in> set (take k (job_queue r)) \<and> j_status j' \<in> {RUNNING, FAILED}"
proof -
  have other: "i \<notin> set (take k (job_queue r)) \<Longrightarrow> jobs r' i = jobs r i"
    and hit: "i \<in> set (take k (job_queue r)) \<Longrightarrow> started_from os now r r' i"
    using assms(1) unfolding start_result_def by auto
  then show ?thesis
    using assms(2) started_from_status [of os now r r' i] by (cases "i \<in> set (take k (job_queue r))") auto
qed

lemma start_queue_inv:
  assumes "job_queue_inv r" and st: "start_result os now ms c (job_queue r) 0 r n r' k"
  shows "job_queue_inv r'"
proof -
  let ?taken = "take k (job_queue r)"
  have q: "job_queue r' = drop k (job_queue r)" and shape: "same_shape r r'"
    using st unfolding start_result_def by auto
  note change = start_change [OF st]
  have "set (job_queue r) = set ?taken \<union> set (job_queue r')"
    using append_take_drop_id [of k "job_queue r"] q by (metis set_append)
  moreover have "set ?taken \<inter> set (job_queue r') = {}"
    using assms(1) q by (simp add: job_queue_inv_def set_take_disj_set_drop_if_distinct)
  ultimately have kept: "i \<in> set (job_queue r') \<longleftrightarrow> i \<in> set (job_queue r) \<and> i \<notin> set ?taken" for i
    by blast
  show ?thesis
    unfolding job_queue_inv_def
  proof (intro conjI allI impI)
    show "distinct (job_queue r')" "set (job_queue r') \<subseteq> dom (jobs r')"
      using assms(1) q shape set_drop_subset [of k "job_queue r"]
      by (auto simp: job_queue_inv_def same_shape_def)
  next
    fix i j' assume i: "i \<in> set (job_queue r')" "jobs r' i = Some j'"
    then have "jobs r i = Some j'" "i \<in> set (job_queue r)" using change [of i] kept [of i] by auto
    then show "j_status j' \<in> {QUEUED, CANCELLED}"
      using assms(1) unfolding job_queue_inv_def by blast
  next
    fix i j' assume i: "jobs r' i = Some j'" "j_status j' = QUEUED"
    then have "jobs r i = Some j'" "i \<notin> set ?taken" using change [of i j'] by auto
    moreover from this have "i \<in> set (job_queue r)"
      using assms(1) i(2) unfolding job_queue_inv_def by blast
    ultimately show "i \<in> set (job_queue r')" using kept by blast
  qed
qed

lemma start_count:
  assumes "job_table_inv r" and "job_table_inv r'" and st: "start_result os now ms c (job_queue r) 0 r n r' k"
  shows "count_jobs active r' \<le> count_jobs active r + n"
proof -
  let ?new = "filter (has_status is_running r') (take k (job_queue r))"
  have "{i. has_status active r' i} \<subseteq> {i. has_status active r i} \<union> set ?new"
  proof
    fix i assume "i \<in> {i. has_status active r' i}"
    then obtain j' where j': "jobs r' i = Some j'" "active j'"
      by (auto simp: has_status_def split: option.splits)
    from start_change [OF st j'(1)] j' show "i \<in> {i. has_status active r i} \<union> set ?new"
      by (auto simp: has_status_def active_def is_running_def)
  qed
  then have "card {i. has_status active r' i} \<le> card ({i. has_status active r i} \<union> set ?new)"
    by (intro card_mono) (simp_all add: finite_has_status [OF assms(1)])
  also have "\<dots> \<le> card {i. has_status active r i} + card (set ?new)" by (rule card_Un_le)
  also have "\<dots> \<le> card {i. has_status active r i} + length ?new"
    using card_length by (intro add_left_mono)
  also have "length ?new = n" using st by (auto simp: start_result_def)
  finally show ?thesis by (simp add: count_jobs_card [OF assms(1)] count_jobs_card [OF assms(2)])
qed

lemma start_inv:
  assumes "runner_inv r" and st: "start_result os now ms (count_jobs active r) (job_queue r) 0 r n r' k"
  shows "runner_inv r'"
proof -
  have inv: "job_table_inv r" "job_queue_inv r" "none_starting r" "count_jobs active r \<le> max_concurrent r"
    using assms(1) by (simp_all add: runner_inv_def)
  have shape: "same_shape r r'" and cap: "count_jobs active r + n \<le> max_concurrent r"
    using st inv(4) unfolding start_result_def by auto
  have tab': "job_table_inv r'" using shape inv(1) by (rule same_shape_table)
  have "none_starting r'"
    using inv(3) start_change [OF st] unfolding none_starting_def by fastforce
  moreover have "count_jobs active r' \<le> max_concurrent r'"
    using start_count [OF inv(1) tab' st] cap shape by (simp add: same_shape_def)
  ultimately show ?thesis using tab' start_queue_inv [OF inv(2) st] by (simp add: runner_inv_def)
qed

definition tick_begin :: "64 word \<Rightarrow> SystemMetrics \<Rightarrow> runner \<Rightarrow> runner" where
  "tick_begin now m r = r\<lparr>started_this_tick := 0, scanned_this_tick := 0,
     diagnostics := \<lparr>last_decision = decision (tick_decision m r),
       last_block_reason = reason (tick_decision m r),
       last_retry_after_ms = retry_after_ms (tick_decision m r), last_tick_now_ms = now,
       last_tick_running = as_int32 (int (count_jobs active r)),
       last_tick_queued = as_int32 (int (count_jobs is_queued r))\<rparr>\<rparr>"

lemma tick_begin_simps [simp]:
  "job_queue (tick_begin now m r) = job_queue r" "jobs (tick_begin now m r) = jobs r"
  "order (tick_begin now m r) = order r" "max_concurrent (tick_begin now m r) = max_concurrent r"
  "scan_cursor (tick_begin now m r) = scan_cursor r" "governor (tick_begin now m r) = governor r"
  "scanned_this_tick (tick_begin now m r) = 0" "job_counter (tick_begin now m r) = job_counter r"
  "accepting (tick_begin now m r) = accepting r"
  by (simp_all add: tick_begin_def)

lemma has_status_cong: "jobs r' = jobs r \<Longrightarrow> has_status P r' = has_status P r"
  by (rule ext) (simp add: has_status_def)

lemma count_jobs_cong: "jobs r' = jobs r \<Longrightarrow> order r' = order r \<Longrightarrow> count_jobs P r' = count_jobs P r"
  using has_status_cong [of r' r P] by (simp add: count_jobs_def)

lemma runner_inv_cong:
  "jobs r' = jobs r \<Longrightarrow> order r' = order r \<Longrightarrow> job_queue r' = job_queue r \<Longrightarrow>
   job_counter r' = job_counter r \<Longrightarrow> max_concurrent r' = max_concurrent r \<Longrightarrow>
   runner_inv r' = runner_inv r"
  using count_jobs_cong [of r' r active]
  by (simp add: runner_inv_def job_table_inv_def job_queue_inv_def none_starting_def)

lemma status_irrelevant [simp]:
  "has_status P (tick_begin now m r) = has_status P r" "count_jobs P (tick_begin now m r) = count_jobs P r"
  "has_status P (r\<lparr>started_this_tick := n\<rparr>) = has_status P r"
  "count_jobs P (r\<lparr>started_this_tick := n\<rparr>) = count_jobs P r"
  "runner_inv (tick_begin now m r) = runner_inv r" "runner_inv (r\<lparr>started_this_tick := n\<rparr>) = runner_inv r"
  by (rule has_status_cong count_jobs_cong runner_inv_cong; simp)+

text \<open>A tick starts jobs if the governor allows it, then checks the limits.\<close>

lemma tick_phases:
  assumes "tick os now m ms ml (r, w) = (r', w')" and "runner_inv r"
  obtains n r2 w2 k where
    "if decision (tick_decision m r) = START_NOW
     then start_result os now ms (count_jobs active r) (job_queue r) 0 (tick_begin now m r) n r2 k
     else n = 0 \<and> r2 = tick_begin now m r \<and> k = 0"
    "check_job_limits os now ml (r2\<lparr>started_this_tick := n\<rparr>, w2) = (r', w')"
proof (cases "decision (tick_decision m r) = START_NOW")
  case True
  obtain n r2 w2 where st: "start_jobs os now ms (count_jobs active r) (job_queue r) 0 (tick_begin now m r, w) = (n, r2, w2)"
    by (metis prod_cases3)
  have "distinct (job_queue r)" "set (job_queue r) \<subseteq> dom (jobs (tick_begin now m r))"
    using assms(2) by (simp_all add: runner_inv_def job_queue_inv_def)
  then obtain k where "start_result os now ms (count_jobs active r) (job_queue r) 0 (tick_begin now m r) n r2 k"
    using start_jobs_frame [OF st] by blast
  moreover have "check_job_limits os now ml (r2\<lparr>started_this_tick := n\<rparr>, w2) = (r', w')"
    using assms(1) True st by (simp add: tick_def tick_begin_def Let_def)
  ultimately show thesis using True that by simp
next
  case False
  then have "check_job_limits os now ml (tick_begin now m r\<lparr>started_this_tick := 0\<rparr>, w) = (r', w')"
    using assms(1) by (simp add: tick_def tick_begin_def Let_def)
  with False that [of 0 "tick_begin now m r" 0] show thesis by simp
qed

lemma tick_started_inv:
  assumes "runner_inv r"
    and "if decision (tick_decision m r) = START_NOW
     then start_result os now ms (count_jobs active r) (job_queue r) 0 (tick_begin now m r) n r2 k
     else n = 0 \<and> r2 = tick_begin now m r \<and> k = 0"
  shows "runner_inv r2"
  using assms start_inv [of "tick_begin now m r" os now ms n r2 k] by (auto split: if_splits)

lemma tick_inv:
  assumes "runner_inv r" and "tick os now m ms ml (r, w) = (r', w')"
  shows "runner_inv r'"
proof -
  obtain n r2 w2 k where a: "if decision (tick_decision m r) = START_NOW
     then start_result os now ms (count_jobs active r) (job_queue r) 0 (tick_begin now m r) n r2 k
     else n = 0 \<and> r2 = tick_begin now m r \<and> k = 0"
    and b: "check_job_limits os now ml (r2\<lparr>started_this_tick := n\<rparr>, w2) = (r', w')"
    by (rule tick_phases [OF assms(2,1)])
  have "runner_inv r2" using tick_started_inv [OF assms(1) a] .
  then show ?thesis using check_inv [OF _ b] by simp
qed

section \<open>Runs\<close>

datatype job_op =
    Submit string JobLimits
  | Cancel string
  | Tick "64 word" SystemMetrics nat nat
  | Check "64 word" nat
  | Start_Runner
  | Stop_Runner
  | Elsewhere

inductive job_step :: "'w job_os \<Rightarrow> runner \<times> 'w \<Rightarrow> job_op \<Rightarrow> runner \<times> 'w \<Rightarrow> bool"
  for os :: "'w job_os" where
  submits: "submit_job os c l (r, w) = (i, r', w') \<Longrightarrow> job_step os (r, w) (Submit c l) (r', w')"
| cancels: "cancel_job os i (r, w) = (b, r', w') \<Longrightarrow> job_step os (r, w) (Cancel i) (r', w')"
| ticks: "tick os now m ms ml (r, w) = (r', w') \<Longrightarrow> job_step os (r, w) (Tick now m ms ml) (r', w')"
| checks: "check_job_limits os now m (r, w) = (r', w') \<Longrightarrow> job_step os (r, w) (Check now m) (r', w')"
| starts: "job_step os (r, w) Start_Runner (start r, w)"
| stops_runner: "job_step os (r, w) Stop_Runner (stop r, w)"
| elsewhere: "job_step os (r, w) Elsewhere (r, w')"

inductive_cases job_stepE: "job_step os (r, w) op (r', w')"

inductive job_run :: "'w job_os \<Rightarrow> runner \<times> 'w \<Rightarrow> job_op list \<Rightarrow> runner \<times> 'w \<Rightarrow> bool"
  for os :: "'w job_os" where
  run_start: "job_run os c [] c"
| run_step: "job_run os c ops (r, w) \<Longrightarrow> job_step os (r, w) op (r', w') \<Longrightarrow> job_run os c (ops @ [op]) (r', w')"

lemma step_inv:
  assumes "placing os" and "runner_inv r" and "job_step os (r, w) op (r', w')"
  shows "runner_inv r'"
  using assms(3)
proof (cases rule: job_step.cases)
  case (submits c l i)
  show ?thesis by (rule submit_inv [OF assms(1,2) submits(2)])
next
  case (cancels i b)
  show ?thesis by (rule cancel_inv [OF assms(2) cancels(2)])
next
  case (ticks now m ms ml)
  show ?thesis by (rule tick_inv [OF assms(2) ticks(2)])
next
  case (checks now m)
  show ?thesis by (rule check_inv [OF assms(2) checks(2)])
next
  case starts
  then show ?thesis using assms(2) runner_inv_cong [of r' r] by (simp add: start_def)
next
  case stops_runner
  then show ?thesis using assms(2) runner_inv_cong [of r' r] by (simp add: stop_def)
next
  case elsewhere
  then show ?thesis using assms(2) by simp
qed

lemma job_run_inv:
  assumes "placing os" and "job_run os (new_runner n, w0) ops (r, w)"
  shows "runner_inv r"
  using assms(2)
proof (induction "(new_runner n, w0)" ops "(r, w)" arbitrary: r w rule: job_run.induct)
  case run_start
  then show ?case by (rule new_runner_inv)
next
  case (run_step ops r w op r' w')
  then show ?case using step_inv [OF assms(1)] by blast
qed

text \<open>The steps of the runner itself, as a function: every sequence of operations is a run.\<close>

fun perform :: "'w job_os \<Rightarrow> job_op \<Rightarrow> runner \<times> 'w \<Rightarrow> runner \<times> 'w" where
  "perform os (Submit c l) cf = snd (submit_job os c l cf)"
| "perform os (Cancel i) cf = snd (cancel_job os i cf)"
| "perform os (Tick now m ms ml) cf = tick os now m ms ml cf"
| "perform os (Check now m) cf = check_job_limits os now m cf"
| "perform os Start_Runner cf = (start (fst cf), snd cf)"
| "perform os Stop_Runner cf = (stop (fst cf), snd cf)"
| "perform os Elsewhere cf = cf"

lemma perform_step: "job_step os (r, w) op (perform os op (r, w))"
proof (cases op)
  case (Submit c l)
  obtain i r' w' where "submit_job os c l (r, w) = (i, r', w')" by (metis prod_cases3)
  with Submit show ?thesis by (auto intro: job_step.submits)
next
  case (Cancel i)
  obtain b r' w' where "cancel_job os i (r, w) = (b, r', w')" by (metis prod_cases3)
  with Cancel show ?thesis by (auto intro: job_step.cancels)
next
  case (Tick now m ms ml)
  obtain r' w' where "tick os now m ms ml (r, w) = (r', w')" by fastforce
  with Tick show ?thesis by (auto intro: job_step.ticks)
next
  case (Check now m)
  obtain r' w' where "check_job_limits os now m (r, w) = (r', w')" by fastforce
  with Check show ?thesis by (auto intro: job_step.checks)
qed (auto intro: job_step.intros)

lemma perform_run:
  "job_run os c ops (r, w) \<Longrightarrow> job_run os c (ops @ ops') (fold (perform os) ops' (r, w))"
proof (induction ops' arbitrary: ops r w)
  case Nil
  then show ?case by simp
next
  case (Cons op ops')
  obtain r1 w1 where p: "perform os op (r, w) = (r1, w1)" by fastforce
  have "job_run os c (ops @ [op]) (r1, w1)"
    using job_run.run_step [OF Cons.prems perform_step [of os r w op, unfolded p]] .
  from Cons.IH [OF this] show ?case by (simp add: p)
qed

lemma performed: "job_run os c ops (fold (perform os) ops c)"
  using perform_run [OF job_run.run_start, of os "fst c" "snd c" ops] by simp

end
