(* ===== verification/Job_Properties.thy ===== *)
theory Job_Properties
  imports Job_Runs
begin

text \<open>
  What the job runner guarantees in every reachable state, and what it does not: the properties of
  \<open>src/job/job.cpp\<close>, with runs on a concrete system as their witnesses.
\<close>

section \<open>A concrete system\<close>

text \<open>
  Processes never exit and write nothing; the clock stands still; the log of signals sent is the
  state. A spawn gives the job the process group 100.
\<close>

definition quiet_os :: "(int \<times> signal) list job_os" where
  "quiet_os = \<lparr>os_clock = (\<lambda>w. 5000000), os_sleep = (\<lambda>ms w. w),
     os_kill = (\<lambda>p s w. (0, w @ [(p, s)])), os_read = (\<lambda>fd n w. (None, w)),
     os_close = (\<lambda>fd w. w), os_waitpid = (\<lambda>p w. ((0, Other_Status), w)),
     os_stat = (\<lambda>w p. None), os_spawn = (\<lambda>j w. ((True, j\<lparr>j_process_group := 100, j_stdout_fd := 5, j_stderr_fd := 6\<rparr>), w)),
     os_count = (\<lambda>g w. 1), os_place = (\<lambda>ids i. i # ids)\<rparr>"

lemma quiet_placing: "placing quiet_os"
  by (simp add: placing_def quiet_os_def)

definition calm :: SystemMetrics where
  "calm = \<lparr>cpu_usage_percent = Fin 10, mem_total = 0, mem_available = 0\<rparr>"

definition sample_ops :: "job_op list" where
  "sample_ops = [Submit ''true'' default_limits, Submit ''sleep 9'' default_limits, Tick 7 calm 5 10]"

definition sample_run :: "job_op list \<Rightarrow> runner \<times> (int \<times> signal) list" where
  "sample_run ops = fold (perform quiet_os) ops (new_runner 2, [])"

lemma sample_run: "job_run quiet_os (new_runner 2, []) ops (fst (sample_run ops), snd (sample_run ops))"
  using performed [of quiet_os "(new_runner 2, [])" ops] by (simp add: sample_run_def)

lemma shape_step:
  assumes "runner_inv r" and "job_step os (r, w) op (r', w')"
  shows "max_concurrent r' = max_concurrent r \<and> governor r' = governor r \<and>
    (order r' = order r \<or> (\<exists>i. order r' = os_place os (order r) i))"
  using assms(2)
proof (cases rule: job_step.cases)
  case (submits c l i)
  then show ?thesis by (auto simp: submit_job_def Let_def)
next
  case (cancels i b)
  then show ?thesis using cancel_frame [OF cancels(2)] by auto
next
  case (ticks now m ms ml)
  obtain n r2 w2 k where a: "if decision (tick_decision m r) = START_NOW
     then start_result os now ms (count_jobs active r) (job_queue r) 0 (tick_begin now m r) n r2 k
     else n = 0 \<and> r2 = tick_begin now m r \<and> k = 0"
    and b: "check_job_limits os now ml (r2\<lparr>started_this_tick := n\<rparr>, w2) = (r', w')"
    by (rule tick_phases [OF ticks(2) assms(1)])
  have "distinct (order r2)"
    using tick_started_inv [OF assms(1) a] by (simp add: runner_inv_def job_table_inv_def)
  then have "same_shape (r2\<lparr>started_this_tick := n\<rparr>) r'" using check_frame [OF b] by simp
  then show ?thesis
    using a by (auto simp: same_shape_def start_result_def split: if_splits)
next
  case (checks now m)
  have "distinct (order r)" using assms(1) by (simp add: runner_inv_def job_table_inv_def)
  then show ?thesis using check_frame [OF checks(2)] by (simp add: same_shape_def)
qed (simp_all add: start_def stop_def)

lemma max_concurrent_run:
  assumes "placing os" and "job_run os (new_runner n, w0) ops (r, w)"
  shows "max_concurrent r = n"
  using assms(2)
proof (induction "(new_runner n, w0)" ops "(r, w)" arbitrary: r w rule: job_run.induct)
  case run_start
  then show ?case by (simp add: new_runner_def)
next
  case (run_step ops r w op r' w')
  have "runner_inv r" by (rule job_run_inv [OF assms(1) run_step(1)])
  then show ?case using run_step shape_step by metis
qed

section \<open>Concurrency\<close>

text \<open>
  C1: at most the configured number of jobs is running in every reachable state, whatever jobs were
  submitted, cancelled, revived or timed out and in whatever order the table is walked; between
  two operations no job is left in the intermediate state STARTING.
\<close>

theorem concurrency_bound:
  assumes "placing os" and "job_run os (new_runner n, w0) ops (r, w)"
  shows "count_jobs active r \<le> n \<and> count_jobs (\<lambda>j. j_status j = STARTING) r = 0"
proof -
  have inv: "runner_inv r" using assms by (rule job_run_inv)
  have "filter (has_status (\<lambda>j. j_status j = STARTING) r) (order r) = []"
    using inv by (auto simp: runner_inv_def none_starting_def has_status_def filter_empty_conv split: option.splits)
  then show ?thesis
    using inv max_concurrent_run [OF assms] by (simp add: runner_inv_def count_jobs_def)
qed

theorem concurrency_bound_witness:
  "count_jobs active (fst (sample_run sample_ops)) = 2 \<and> count_jobs active (fst (sample_run sample_ops)) \<le> 2"
proof -
  have "count_jobs active (fst (sample_run sample_ops)) = 2" by code_simp
  then show ?thesis using concurrency_bound [OF quiet_placing sample_run [of sample_ops]] by simp
qed

section \<open>The life of a job\<close>

text \<open>What one step makes of one job.\<close>

definition job_moves :: "runner \<Rightarrow> Job \<Rightarrow> string \<Rightarrow> Job \<Rightarrow> bool" where
  "job_moves r j i j' \<longleftrightarrow> life_edge\<^sup>*\<^sup>* (j_status j) (j_status j') \<and>
     (terminal (j_status j) \<and> i \<notin> set (job_queue r) \<longrightarrow> j' = j)"

lemma job_moves_same [simp]: "job_moves r j i j"
  by (simp add: job_moves_def)

lemma scan_moves:
  assumes "scan_job os now (j, u) = (j', u')" and "j_status j = RUNNING"
  shows "life_edge\<^sup>*\<^sup>* (j_status j) (j_status j')"
  using scan_job_edge [OF assms] assms(2) by auto

lemma check_moves:
  assumes "runner_inv r" and "check_job_limits os now m (r, w) = (r', w')" and "jobs r i = Some j"
  shows "\<exists>j'. jobs r' i = Some j' \<and> job_moves r j i j'"
proof -
  have d: "distinct (order r)" and ns: "j_status j \<noteq> STARTING"
    using assms(1,3) by (auto simp: runner_inv_def job_table_inv_def none_starting_def)
  have "i \<in> dom (jobs r')"
    using check_frame [OF assms(2) d] assms(3) by (auto simp: same_shape_def)
  then obtain j' where j': "jobs r' i = Some j'" by blast
  then have "j' = j \<or> active j \<and> (\<exists>u u'. scan_job os now (j, u) = (j', u'))"
    using check_change [OF assms(2) d j'] assms(3) by auto
  with ns have "j' = j \<or> j_status j = RUNNING \<and> life_edge\<^sup>*\<^sup>* (j_status j) (j_status j')"
    using scan_moves by (auto simp: active_def)
  then show ?thesis using j' by (auto simp: job_moves_def terminal_def)
qed

lemma start_moves:
  assumes "runner_inv r" and "start_result os now ms run (job_queue r) 0 r n r' k" and "jobs r i = Some j"
  shows "\<exists>j'. jobs r' i = Some j' \<and> job_moves r j i j' \<and> (i \<notin> set (job_queue r) \<longrightarrow> j' = j)"
proof (cases "i \<in> set (take k (job_queue r))")
  case False
  then have "jobs r' i = Some j" using assms(2,3) by (simp add: start_result_def)
  then show ?thesis by auto
next
  case True
  then have q: "i \<in> set (job_queue r)" by (rule in_set_takeD)
  then have st: "j_status j \<in> {QUEUED, CANCELLED}"
    using assms(1,3) unfolding runner_inv_def job_queue_inv_def by blast
  have "started_from os now r r' i" using assms(2) True by (simp add: start_result_def)
  then obtain j' where j': "jobs r' i = Some j'" "j_status j' \<in> {RUNNING, FAILED}"
    using started_from_status by blast
  then have "life_edge (j_status j) (j_status j')" using st by auto
  then show ?thesis using j' q by (auto simp: job_moves_def)
qed

lemma tick_moves:
  assumes "runner_inv r" and "tick os now m ms ml (r, w) = (r', w')" and "jobs r i = Some j"
  shows "\<exists>j'. jobs r' i = Some j' \<and> job_moves r j i j'"
proof -
  obtain n r2 w2 k where a: "if decision (tick_decision m r) = START_NOW
     then start_result os now ms (count_jobs active r) (job_queue r) 0 (tick_begin now m r) n r2 k
     else n = 0 \<and> r2 = tick_begin now m r \<and> k = 0"
    and b: "check_job_limits os now ml (r2\<lparr>started_this_tick := n\<rparr>, w2) = (r', w')"
    by (rule tick_phases [OF assms(2,1)])
  have inv2: "runner_inv (r2\<lparr>started_this_tick := n\<rparr>)" using tick_started_inv [OF assms(1) a] by simp
  have "\<exists>j1. jobs r2 i = Some j1 \<and> life_edge\<^sup>*\<^sup>* (j_status j) (j_status j1) \<and> (i \<notin> set (job_queue r) \<longrightarrow> j1 = j)"
  proof (cases "decision (tick_decision m r) = START_NOW")
    case True
    with a assms(1,3) start_moves [of "tick_begin now m r" os now ms _ n r2 k i j]
    show ?thesis by (auto simp: job_moves_def)
  next
    case False
    with a assms(3) show ?thesis by auto
  qed
  then obtain j1 where j1: "jobs r2 i = Some j1" "life_edge\<^sup>*\<^sup>* (j_status j) (j_status j1)"
    "i \<notin> set (job_queue r) \<longrightarrow> j1 = j" by blast
  have shrink: "set (job_queue r2) \<subseteq> set (job_queue r)"
    using a set_drop_subset by (auto simp: start_result_def split: if_splits dest: in_set_dropD)
  obtain j' where "jobs r' i = Some j'" "job_moves (r2\<lparr>started_this_tick := n\<rparr>) j1 i j'"
    using check_moves [OF inv2 b] j1(1) by fastforce
  then show ?thesis using j1 shrink by (auto simp: job_moves_def intro: rtranclp_trans)
qed

lemma step_moves:
  assumes "runner_inv r" and "job_step os (r, w) op (r', w')" and "jobs r i = Some j"
  shows "\<exists>j'. jobs r' i = Some j' \<and> job_moves r j i j'"
  using assms(2)
proof (cases rule: job_step.cases)
  case (submits c l k)
  have "k \<noteq> i"
    using submit_frame [OF submits(2)] assms(1) assms(3) by (auto simp: runner_inv_def job_table_inv_def)
  then show ?thesis using submit_frame [OF submits(2)] assms(3) by auto
next
  case (cancels k b)
  show ?thesis
  proof (cases "r' = r \<or> k \<noteq> i")
    case True
    then show ?thesis using cancel_frame [OF cancels(2)] assms(3) by auto
  next
    case False
    then show ?thesis
      using cancel_frame [OF cancels(2)] assms(3)
      by (auto simp: finish_now_def job_moves_def terminal_def intro!: r_into_rtranclp)
  qed
next
  case (ticks now m ms ml)
  show ?thesis by (rule tick_moves [OF assms(1) ticks(2) assms(3)])
next
  case (checks now m)
  show ?thesis by (rule check_moves [OF assms(1) checks(2) assms(3)])
qed (use assms(3) in \<open>auto simp: start_def stop_def\<close>)

text \<open>
  C2: the life of a job: no operation removes a job, its status only moves along the edges QUEUED to
  RUNNING, FAILED or CANCELLED, RUNNING to a final state, and CANCELLED back to RUNNING or FAILED;
  and a job in a final state that is not in the start queue never changes again.
\<close>

theorem job_life:
  assumes "placing os" and "job_run os (new_runner n, w0) ops (r, w)"
    and "job_step os (r, w) op (r', w')" and "jobs r i = Some j"
  shows "\<exists>j'. jobs r' i = Some j' \<and> life_edge\<^sup>*\<^sup>* (j_status j) (j_status j') \<and>
    (terminal (j_status j) \<and> i \<notin> set (job_queue r) \<longrightarrow> j' = j)"
  using step_moves [OF job_run_inv [OF assms(1,2)] assms(3,4)] by (simp add: job_moves_def)

theorem job_life_witness:
  "\<exists>j j'. jobs (fst (sample_run sample_ops)) ''job_1'' = Some j \<and>
     jobs (fst (perform quiet_os (Cancel ''job_1'') (sample_run sample_ops))) ''job_1'' = Some j' \<and>
     life_edge\<^sup>*\<^sup>* (j_status j) (j_status j')"
proof -
  let ?c = "(fst (sample_run sample_ops), snd (sample_run sample_ops))"
  have "has_status is_running (fst (sample_run sample_ops)) ''job_1''" by code_simp
  then obtain j where j: "jobs (fst (sample_run sample_ops)) ''job_1'' = Some j"
    by (auto simp: has_status_def split: option.splits)
  obtain r' w' where p: "perform quiet_os (Cancel ''job_1'') ?c = (r', w')" by fastforce
  have "job_step quiet_os ?c (Cancel ''job_1'') (r', w')"
    using perform_step [of quiet_os "fst ?c" "snd ?c" "Cancel ''job_1''"] p by simp
  from job_life [OF quiet_placing sample_run this j] show ?thesis using j p by auto
qed

section \<open>One tick\<close>

text \<open>A check leaves the waiting jobs alone, and makes none of the others wait.\<close>

lemma checked_not_waiting:
  assumes "check_job_limits os now ml (r, w) = (r', w')" and "distinct (order r)"
    and "\<And>j. jobs r i = Some j \<Longrightarrow> j_status j \<in> {RUNNING, FAILED}"
  shows "\<not> has_status (\<lambda>j. j_status j \<in> {QUEUED, CANCELLED}) r' i"
proof
  assume "has_status (\<lambda>j. j_status j \<in> {QUEUED, CANCELLED}) r' i"
  then obtain j' where j': "jobs r' i = Some j'" "j_status j' \<in> {QUEUED, CANCELLED}"
    by (auto simp: has_status_def split: option.splits)
  obtain j where j: "jobs r i = Some j" "j' = j \<or> (\<exists>u u'. scan_job os now (j, u) = (j', u'))"
    using check_change [OF assms(1,2) j'(1)] by auto
  with assms(3) [OF j(1)] j'(2) scan_job_frame [of os now j _ j'] show False by auto
qed

lemma checked_waiting_kept:
  assumes "check_job_limits os now ml (r\<lparr>started_this_tick := n\<rparr>, w) = (r', w')" and "runner_inv r"
    and "i \<in> set (job_queue r)"
  shows "jobs r' i = jobs r i"
proof -
  have "distinct (order (r\<lparr>started_this_tick := n\<rparr>))" using assms(2) by (simp add: runner_inv_def job_table_inv_def)
  note fr = check_frame [OF assms(1) this]
  have "\<not> has_status active r i"
    using assms(2,3) by (auto simp: runner_inv_def job_queue_inv_def has_status_def active_def split: option.splits)
  then have "i \<notin> set (tick_targets (r\<lparr>started_this_tick := n\<rparr>) ml)"
    using scan_targets_set by (fastforce simp: tick_targets_def running_ids_def)
  then show ?thesis using fr by simp
qed

text \<open>Whether the spawner starts a job in the state in which the system then is.\<close>

definition spawns :: "'w job_os \<Rightarrow> Job \<Rightarrow> 'w \<Rightarrow> bool" where
  "spawns os j u \<longleftrightarrow> fst (fst (os_spawn os (j\<lparr>j_status := STARTING\<rparr>) u))"

lemma started_spawns:
  "started_from os now r r' i \<Longrightarrow> \<exists>j u. jobs r i = Some j \<and> (has_status is_running r' i \<longleftrightarrow> spawns os j u)"
proof -
  assume "started_from os now r r' i"
  then obtain j ok j' u u' where st: "jobs r i = Some j" "start_one os now (j, u) = (ok, j', u')" "jobs r' i = Some j'"
    by (auto simp: started_from_def)
  have "ok = spawns os j u" using st(2) by (auto simp: start_one_def spawns_def split: prod.splits)
  then have "has_status is_running r' i \<longleftrightarrow> spawns os j u"
    using start_one_status [OF st(2)] st(3) by (simp add: has_status_def is_running_def)
  then show ?thesis using st(1) by blast
qed

lemma checked_failed_kept:
  assumes "check_job_limits os now ml (r, w) = (r', w')" and "distinct (order r)"
    and "has_status (\<lambda>j. j_status j = FAILED) r i"
  shows "has_status (\<lambda>j. j_status j = FAILED) r' i"
proof -
  obtain j where j: "jobs r i = Some j" "j_status j = FAILED"
    using assms(3) by (auto simp: has_status_def split: option.splits)
  then have "i \<in> dom (jobs r')" using check_frame [OF assms(1,2)] by (auto simp: same_shape_def)
  then obtain j' where j': "jobs r' i = Some j'" by blast
  then have "j' = j" using check_change [OF assms(1,2) j'] j by (auto simp: active_def)
  then show ?thesis using j j' by (simp add: has_status_def)
qed

text \<open>The jobs that a tick starts: exactly those taken whose spawn succeeds, and the others have failed.\<close>

lemma tick_started_set:
  assumes "start_result os now ms c (job_queue r) 0 (tick_begin now m r) n r2 k"
    and "check_job_limits os now ml (r2\<lparr>started_this_tick := n\<rparr>, w2) = (r', w')" and "runner_inv r" and "runner_inv r2"
  shows "\<exists>S \<subseteq> set (take k (job_queue r)). card S = n \<and> (\<forall>i \<in> set (take k (job_queue r)).
    (\<exists>j u. jobs r i = Some j \<and> (i \<in> S \<longleftrightarrow> spawns os j u)) \<and>
    (i \<notin> S \<longrightarrow> has_status (\<lambda>j. j_status j = FAILED) r' i))"
proof -
  let ?q = "take k (job_queue r)" and ?S = "{i \<in> set (take k (job_queue r)). has_status is_running r2 i}"
  have "distinct (job_queue r)" using assms(3) by (simp add: runner_inv_def job_queue_inv_def)
  then have "distinct (filter (has_status is_running r2) ?q)" by simp
  then have "card (set (filter (has_status is_running r2) ?q)) = length (filter (has_status is_running r2) ?q)"
    by (rule distinct_card)
  then have card: "card ?S = n" using assms(1) by (simp add: start_result_def)
  have d: "distinct (order (r2\<lparr>started_this_tick := n\<rparr>))"
    using assms(4) by (simp add: runner_inv_def job_table_inv_def)
  have "(\<exists>j u. jobs r i = Some j \<and> (i \<in> ?S \<longleftrightarrow> spawns os j u)) \<and>
      (i \<notin> ?S \<longrightarrow> has_status (\<lambda>j. j_status j = FAILED) r' i)" if i: "i \<in> set ?q" for i
  proof -
    have st: "started_from os now (tick_begin now m r) r2 i" using assms(1) i by (simp add: start_result_def)
    have "has_status (\<lambda>j. j_status j = FAILED) (r2\<lparr>started_this_tick := n\<rparr>) i" if "i \<notin> ?S"
      using started_from_status [OF st] that i by (auto simp: has_status_def is_running_def)
    then show ?thesis using started_spawns [OF st] checked_failed_kept [OF assms(2) d] i by auto
  qed
  then show ?thesis using card by (intro exI [of _ ?S]) auto
qed

text \<open>
  C3: a tick starts jobs in the order of their submission and within its budgets: the jobs taken
  off the queue are a prefix of it, none of them is queued or cancelled afterwards, all others stay
  unstarted in the queue. The jobs started are exactly those taken whose spawn succeeded, and the
  other ones have failed; their number is the counter of the tick, is at most \<open>max_starts\<close> and leaves
  no more than \<open>max_concurrent\<close> active. At most \<open>max_limit_scans\<close> are scanned, and when the governor
  said to start, jobs remain queued only because a budget is used up.
\<close>

theorem tick_starts_prefix:
  assumes "runner_inv r" and "tick os now m ms ml (r, w) = (r', w')"
  shows "\<exists>k. job_queue r' = drop k (job_queue r) \<and>
    (\<forall>i \<in> set (take k (job_queue r)). \<not> has_status (\<lambda>j. j_status j \<in> {QUEUED, CANCELLED}) r' i) \<and>
    (\<forall>i \<in> set (job_queue r'). jobs r' i = jobs r i) \<and>
    (\<exists>S \<subseteq> set (take k (job_queue r)). card S = started_this_tick r' \<and> (\<forall>i \<in> set (take k (job_queue r)).
       (\<exists>j u. jobs r i = Some j \<and> (i \<in> S \<longleftrightarrow> spawns os j u)) \<and>
       (i \<notin> S \<longrightarrow> has_status (\<lambda>j. j_status j = FAILED) r' i))) \<and>
    started_this_tick r' \<le> k \<and> started_this_tick r' \<le> ms \<and> scanned_this_tick r' \<le> ml \<and>
    count_jobs active r + started_this_tick r' \<le> max_concurrent r \<and>
    (decision (tick_decision m r) \<noteq> START_NOW \<longrightarrow> k = 0) \<and>
    (decision (tick_decision m r) = START_NOW \<and> job_queue r' \<noteq> [] \<longrightarrow>
      started_this_tick r' = ms \<or> count_jobs active r + started_this_tick r' = max_concurrent r)"
proof -
  obtain n r2 w2 k where a: "if decision (tick_decision m r) = START_NOW
     then start_result os now ms (count_jobs active r) (job_queue r) 0 (tick_begin now m r) n r2 k
     else n = 0 \<and> r2 = tick_begin now m r \<and> k = 0"
    and b: "check_job_limits os now ml (r2\<lparr>started_this_tick := n\<rparr>, w2) = (r', w')"
    by (rule tick_phases [OF assms(2,1)])
  have inv2: "runner_inv r2" by (rule tick_started_inv [OF assms(1) a])
  then have d: "distinct (order (r2\<lparr>started_this_tick := n\<rparr>))"
    by (simp add: runner_inv_def job_table_inv_def)
  note fr = check_frame [OF b d]
  have k: "job_queue r2 = drop k (job_queue r)" "\<And>i. i \<notin> set (take k (job_queue r)) \<Longrightarrow> jobs r2 i = jobs r i"
    "n \<le> k" "n \<le> ms" "count_jobs active r + n \<le> max_concurrent r"
    using a assms(1) length_filter_le [of "has_status is_running r2" "take k (job_queue r)"]
    by (auto simp: start_result_def runner_inv_def split: if_splits)
  have run: "i \<in> set (take k (job_queue r)) \<Longrightarrow> jobs r2 i = Some j \<Longrightarrow> j_status j \<in> {RUNNING, FAILED}" for i j
    using a started_from_status by (fastforce simp: start_result_def split: if_splits)
  have taken: "\<not> has_status (\<lambda>j. j_status j \<in> {QUEUED, CANCELLED}) r' i" if "i \<in> set (take k (job_queue r))" for i
    by (rule checked_not_waiting [OF b d]) (use run [OF that] in simp)
  have still: "jobs r' i = jobs r i" if i: "i \<in> set (job_queue r')" for i
  proof -
    have "i \<notin> set (take k (job_queue r))"
      using i fr k(1) assms(1) set_take_disj_set_drop_if_distinct [of "job_queue r" k k]
      by (auto simp: runner_inv_def job_queue_inv_def)
    then have "jobs r2 i = jobs r i" by (rule k(2))
    then show ?thesis using checked_waiting_kept [OF b inv2, of i] i fr by simp
  qed
  have scanned: "scanned_this_tick r' \<le> ml"
    using fr a by (auto simp: tick_targets_def start_result_def split: if_splits)
  have "decision (tick_decision m r) = START_NOW \<and> job_queue r' \<noteq> [] \<longrightarrow>
      n = ms \<or> count_jobs active r + n = max_concurrent r"
    using a fr k(4,5) by (auto simp: start_result_def)
  moreover have "\<exists>S \<subseteq> set (take k (job_queue r)). card S = n \<and> (\<forall>i \<in> set (take k (job_queue r)).
      (\<exists>j u. jobs r i = Some j \<and> (i \<in> S \<longleftrightarrow> spawns os j u)) \<and>
      (i \<notin> S \<longrightarrow> has_status (\<lambda>j. j_status j = FAILED) r' i))"
    using a tick_started_set [OF _ b assms(1) inv2, of ms "count_jobs active r" m k] by (auto split: if_splits)
  moreover have "started_this_tick r' = n" using fr by simp
  moreover have "decision (tick_decision m r) \<noteq> START_NOW \<longrightarrow> k = 0" using a by simp
  moreover have "job_queue r' = drop k (job_queue r)" using fr k(1) by simp
  ultimately show ?thesis
    using k(3-5) taken still scanned by (intro exI [of _ k]) simp
qed

theorem tick_starts_prefix_witness:
  "\<exists>k S. job_queue (fst (sample_run sample_ops)) = drop k [''job_1'', ''job_2''] \<and>
     S = set (take k [''job_1'', ''job_2'']) \<and> card S = started_this_tick (fst (sample_run sample_ops)) \<and> card S \<le> 5"
proof -
  let ?ops = "[Submit ''true'' default_limits, Submit ''sleep 9'' default_limits]"
  let ?r = "fst (sample_run ?ops)" and ?w = "snd (sample_run ?ops)" and ?r' = "fst (sample_run sample_ops)"
  have inv: "runner_inv ?r" by (rule job_run_inv [OF quiet_placing sample_run])
  have q: "job_queue ?r = [''job_1'', ''job_2'']" by code_simp
  have t: "tick quiet_os 7 calm 5 10 (?r, ?w) = (?r', snd (sample_run sample_ops))"
    by (simp add: sample_run_def sample_ops_def)
  have all: "spawns quiet_os j u" for j u by (simp add: spawns_def quiet_os_def)
  from tick_starts_prefix [OF inv t] show ?thesis
  proof (elim exE conjE)
    fix k S
    assume k: "job_queue ?r' = drop k (job_queue ?r)" "S \<subseteq> set (take k (job_queue ?r))"
      "card S = started_this_tick ?r'" "started_this_tick ?r' \<le> 5"
    assume "\<forall>i \<in> set (take k (job_queue ?r)).
      (\<exists>j u. jobs ?r i = Some j \<and> (i \<in> S \<longleftrightarrow> spawns quiet_os j u)) \<and>
      (i \<notin> S \<longrightarrow> has_status (\<lambda>j. j_status j = FAILED) ?r' i)"
    then have "set (take k (job_queue ?r)) \<subseteq> S" using all by blast
    then have "S = set (take k (job_queue ?r))" using k(2) by simp
    then show ?thesis using k(1,3,4) unfolding q by (intro exI [of _ k] exI [of _ S]) simp
  qed
qed

section \<open>Submitting\<close>

text \<open>
  a submitted job gets an id no job has, is queued last with exactly the limits given, can be
  looked up under the id, and changes no other job.
\<close>

theorem submit_lookup:
  assumes "placing os" and "job_run os (new_runner n, w0) ops (r, w)"
    and "submit_job os c l (r, w) = (i, r', w')"
  shows "get_job_status r i = None \<and> job_queue r' = job_queue r @ [i] \<and>
    (\<forall>k. k \<noteq> i \<longrightarrow> get_job_status r' k = get_job_status r k) \<and>
    (\<exists>j. get_job_status r' i = Some j \<and> j_id j = i \<and> j_command j = c \<and> j_status j = QUEUED \<and>
       j_max_runtime_ms j = lim_runtime_ms l \<and> j_max_log_bytes j = lim_log_bytes l \<and>
       j_max_output_line_bytes j = lim_output_line_bytes l \<and>
       j_max_child_processes j = lim_child_processes l)"
proof -
  have "runner_inv r" using assms(1,2) by (rule job_run_inv)
  moreover have "i = job_name (job_counter r + 1)" using submit_frame [OF assms(3)] by simp
  ultimately have "i \<notin> dom (jobs r)" by (auto simp: runner_inv_def job_table_inv_def)
  then show ?thesis
    using assms(3) by (auto simp: submit_job_def get_job_status_def new_job_def Let_def domIff)
qed

theorem submit_lookup_witness:
  "get_job_status (fst (sample_run sample_ops)) ''job_3'' = None"
proof -
  obtain r' w' where s: "submit_job quiet_os ''ls'' default_limits
      (fst (sample_run sample_ops), snd (sample_run sample_ops)) = (''job_3'', r', w')"
  proof -
    have "fst (submit_job quiet_os ''ls'' default_limits (sample_run sample_ops)) = ''job_3''" by code_simp
    then show thesis using that by (metis prod.collapse)
  qed
  from submit_lookup [OF quiet_placing sample_run s] show ?thesis by simp
qed

section \<open>Timeouts\<close>

text \<open>The unsigned difference of two 64-bit times, as a number.\<close>

definition elapsed :: "64 word \<Rightarrow> 64 word \<Rightarrow> nat" where
  "elapsed now since =
     (if unat since \<le> unat now then unat now - unat since else 2 ^ 64 + unat now - unat since)"

lemma unat_diff: "unat (a - b) = elapsed a b" for a b :: "64 word"
proof -
  have len: "LENGTH(64) = 64" by simp
  have b: "unat b < 2 ^ 64" using unsigned_less [of b] by simp
  have "int (unat (a - b)) = (if unat b \<le> unat a then int (unat a) - int (unat b)
      else int (unat a) - int (unat b) + 2 ^ 64)"
    using uint_sub_if' [of a b] unfolding uint_nat len by (simp only: of_nat_le_iff)
  moreover have "int z = (if y \<le> x then int x - int y else int x - int y + 2 ^ 64) \<Longrightarrow> y < 2 ^ 64 \<Longrightarrow>
      z = (if y \<le> x then x - y else 2 ^ 64 + x - y)" for x y z :: nat
    by (auto split: if_splits)
  ultimately show ?thesis unfolding elapsed_def using b by blast
qed

lemma timeout_iff:
  "enforce_job_timeout os now (j, w) = (late, j', w') \<Longrightarrow>
   late = (unat (j_max_runtime_ms j) < elapsed now (j_started_at_ms j))"
  using timeout_frame [of os now j w late j' w'] by (simp add: word_less_nat_alt unat_diff)

text \<open>
  C9: a scan of a job whose process has not exited ends it with TIMEOUT exactly when the difference
  between the time given and its start exceeds its limit, in 64-bit arithmetic: a time before the
  start counts as an enormous run.
\<close>

theorem timeout_exact:
  assumes "scan_job os now (j, w) = (j', w')" and "j_status j = RUNNING"
    and "\<forall>st u. fst (fst (os_waitpid os (j_process_group j) u)) \<noteq> j_process_group j"
  shows "j_status j' = TIMEOUT \<longleftrightarrow>
    unat (j_max_runtime_ms j) <
      (if unat (j_started_at_ms j) \<le> unat now then unat now - unat (j_started_at_ms j)
       else 2 ^ 64 + unat now - unat (j_started_at_ms j))"
proof -
  have alive: "\<not> (same_identity j j1 \<and> reap os (j1, w1) = (True, j2, w2))" for j1 w1 j2 w2
    using assms(3) by (auto simp: reap_def same_identity_def split: if_splits prod.splits)
      (metis fst_conv)+
  show ?thesis
    using assms(1)
  proof (cases rule: scan_job_cases)
    case (reaped j1 w1)
    then show ?thesis using alive [of j1 w1 j' w'] reads_frame [OF reaped(1)] by simp
  next
    case (late j1 w1 w2)
    then show ?thesis
      using reads_frame [OF late(1)] timeout_frame [OF late(3)] timeout_iff [OF late(3)]
      by (simp add: elapsed_def same_identity_def)
  next
    case (cut j1 w1)
    then show ?thesis
      using reads_frame [OF cut(1)] timeout_iff [OF cut(3)] log_cap_frame [OF cut(4)] assms(2)
      by (simp add: elapsed_def same_identity_def)
  next
    case (capped j1 w1 w2 b)
    then show ?thesis
      using reads_frame [OF capped(1)] timeout_iff [OF capped(3)] process_cap_frame [OF capped(5)] assms(2)
      by (auto simp: elapsed_def same_identity_def split: if_splits)
  qed
qed

definition sample_job :: Job where
  "sample_job = new_job\<lparr>j_status := RUNNING, j_process_group := 100, j_started_at_ms := 1000\<rparr>"

theorem timeout_exact_witness:
  "j_status (fst (scan_job quiet_os 601001 (sample_job, []))) = TIMEOUT \<and>
   j_status (fst (scan_job quiet_os 10 (sample_job, []))) = TIMEOUT"
proof -
  have alive: "\<forall>st u. fst (fst (os_waitpid quiet_os (j_process_group sample_job) u)) \<noteq> j_process_group sample_job"
    by (simp add: quiet_os_def sample_job_def)
  have run: "j_status sample_job = RUNNING" by (simp add: sample_job_def)
  obtain j1 w1 j2 w2 where "scan_job quiet_os 601001 (sample_job, []) = (j1, w1)"
    and "scan_job quiet_os 10 (sample_job, []) = (j2, w2)" by fastforce
  with timeout_exact [OF this(1) run alive] timeout_exact [OF this(2) run alive]
  show ?thesis by (simp add: sample_job_def new_job_def)
qed

text \<open>
  C27: a limit check called with a time before a scanned job's start (as the daemon does, which passes
  its budget of 10 as the time) ends that job, however short it ran: its status is TIMEOUT unless its
  process has exited, as long as its limit is not within the distance of \<open>2 ^ 64\<close>.
\<close>

theorem stale_time_ends_jobs:
  assumes "runner_inv r" and "check_job_limits os now m (r, w) = (r', w')"
    and "i \<in> set (tick_targets r m)" and "jobs r i = Some j"
    and "unat now < unat (j_started_at_ms j)"
    and "unat (j_max_runtime_ms j) + unat (j_started_at_ms j) < 2 ^ 64 + unat now"
  shows "has_status (\<lambda>j. j_status j \<in> {COMPLETED, FAILED, TIMEOUT}) r' i"
proof -
  have d: "distinct (order r)" using assms(1) by (simp add: runner_inv_def job_table_inv_def)
  have "\<forall>i j. i \<in> set (tick_targets r m) \<longrightarrow> jobs r i = Some j \<longrightarrow>
      (\<exists>j' u u'. jobs r' i = Some j' \<and> scan_job os now (j, u) = (j', u'))"
    using check_frame [OF assms(2) d] by blast
  then obtain j' u u' where j': "jobs r' i = Some j'" and s: "scan_job os now (j, u) = (j', u')"
    using assms(3,4) by blast
  have late: "unat (j_max_runtime_ms j) < elapsed now (j_started_at_ms j)"
    using assms(5,6) by (simp add: elapsed_def)
  have "j_status j' \<in> {COMPLETED, FAILED, TIMEOUT}"
    using s
  proof (cases rule: scan_job_cases)
    case (reaped j1 w1)
    then show ?thesis using reap_frame [OF reaped(2)] by simp
  next
    case (late j1 w1 w2)
    then show ?thesis using timeout_frame [OF late(3)] by simp
  next
    case (cut j1 w1)
    then show ?thesis
      using reads_frame [OF cut(1)] timeout_iff [OF cut(3)] late by (simp add: same_identity_def)
  next
    case (capped j1 w1 w2 b)
    then show ?thesis
      using reads_frame [OF capped(1)] timeout_iff [OF capped(3)] late by (simp add: same_identity_def)
  qed
  then show ?thesis using j' by (simp add: has_status_def)
qed

theorem stale_time_ends_jobs_witness:
  "has_status (\<lambda>j. j_status j \<in> {COMPLETED, FAILED, TIMEOUT})
     (fst (check_job_limits quiet_os 1 10 (sample_run sample_ops))) ''job_1''"
proof -
  let ?r = "fst (sample_run sample_ops)" and ?w = "snd (sample_run sample_ops)"
  have inv: "runner_inv ?r" by (rule job_run_inv [OF quiet_placing sample_run])
  obtain r' w' where c: "check_job_limits quiet_os 1 10 (?r, ?w) = (r', w')" by fastforce
  have t: "''job_1'' \<in> set (tick_targets ?r 10)" by code_simp
  have "has_status (\<lambda>j. j_started_at_ms j = 7 \<and> j_max_runtime_ms j = 600000) ?r ''job_1''" by code_simp
  then obtain j where "jobs ?r ''job_1'' = Some j" "j_started_at_ms j = 7" "j_max_runtime_ms j = 600000"
    by (auto simp: has_status_def split: option.splits)
  with stale_time_ends_jobs [OF inv c t] c show ?thesis by simp
qed

end
