(* ===== verification/Job_Scheduling.thy ===== *)
theory Job_Scheduling
  imports Job_Properties
begin

text \<open>
  Which jobs a tick starts and scans: a full queue, a cancelled job that is still queued, the
  memory figure handed to the governor, and the fairness of the scan cursor.
\<close>

section \<open>A full queue\<close>

text \<open>
  Ticks, checks and submissions while at least the permitted number of jobs is queued: the
  governor rejects, so nothing is taken off the queue.
\<close>

definition overfull :: "runner \<Rightarrow> bool" where
  "overfull r \<longleftrightarrow> max_queue_depth (governor r) \<le> int (count_jobs is_queued r) \<and> length (order r) < 2 ^ 31"

lemma overfull_decision:
  assumes "overfull r"
  shows "decision (tick_decision m r) = REJECT_QUEUE_FULL"
proof -
  have "count_jobs is_queued r \<le> length (order r)"
    unfolding count_jobs_def by (rule length_filter_le)
  then have "count_jobs is_queued r < 2 ^ 31"
    using assms unfolding overfull_def by linarith
  then have "as_int32 (int (count_jobs is_queued r)) = int (count_jobs is_queued r)"
    by (intro as_int32_id) auto
  then show ?thesis
    using assms by (simp add: tick_decision_def decide_REJECT overfull_def)
qed

definition keeps_waiting :: "runner \<Rightarrow> runner \<Rightarrow> bool" where
  "keeps_waiting r r' \<longleftrightarrow> (\<exists>more. job_queue r' = job_queue r @ more) \<and> governor r' = governor r \<and>
     (\<forall>i. has_status is_queued r i \<longrightarrow> jobs r' i = jobs r i)"

lemma keeps_waiting_refl: "keeps_waiting r r"
  by (simp add: keeps_waiting_def)

lemma keeps_waiting_trans:
  assumes "keeps_waiting a b" and "keeps_waiting b c"
  shows "keeps_waiting a c"
proof -
  have "has_status is_queued b i" if "has_status is_queued a i" for i
    using assms(1) that by (simp add: keeps_waiting_def has_status_def)
  then show ?thesis using assms by (auto simp: keeps_waiting_def)
qed

lemma check_keeps_waiting:
  assumes "runner_inv r" and "check_job_limits os now m (r, w) = (r', w')"
  shows "keeps_waiting r r'"
proof -
  have d: "distinct (order r)" using assms(1) by (simp add: runner_inv_def job_table_inv_def)
  note fr = check_frame [OF assms(2) d]
  have "jobs r' i = jobs r i" if "has_status is_queued r i" for i
  proof -
    have "i \<notin> set (running_ids r)"
      using that by (auto simp: in_running_ids has_status_def is_queued_def active_def split: option.splits)
    then have "i \<notin> set (tick_targets r m)"
      using scan_targets_set unfolding tick_targets_def by fastforce
    then show ?thesis using fr by blast
  qed
  then show ?thesis using fr by (simp add: keeps_waiting_def same_shape_def)
qed

lemma overfull_step:
  assumes "placing os" and "runner_inv r" and "overfull r" and "job_step os (r, w) op (r', w')"
    and "\<forall>i. op \<noteq> Cancel i"
  shows "keeps_waiting r r'"
  using assms(4)
proof (cases rule: job_step.cases)
  case (submits c l i)
  obtain j where s: "jobs r' = (jobs r)(i \<mapsto> j)" "job_queue r' = job_queue r @ [i]"
      "i = job_name (job_counter r + 1)"
    using submit_frame [OF submits(2)] by blast
  moreover have "governor r' = governor r"
    using submits(2) by (auto simp: submit_job_def Let_def)
  moreover have "i \<notin> dom (jobs r)"
    using assms(2) s(3) by (auto simp: runner_inv_def job_table_inv_def)
  ultimately show ?thesis by (auto simp: keeps_waiting_def has_status_def split: option.splits)
next
  case (ticks now m ms ml)
  have "check_job_limits os now ml (tick_begin now m r\<lparr>started_this_tick := 0\<rparr>, w) = (r', w')"
    using ticks(2) overfull_decision [OF assms(3), of m]
    by (simp add: tick_def tick_begin_def Let_def)
  from check_keeps_waiting [OF _ this] show ?thesis
    using assms(2) by (simp add: keeps_waiting_def)
next
  case (checks now m)
  show ?thesis by (rule check_keeps_waiting [OF assms(2) checks(2)])
qed (use assms(5) in \<open>simp_all add: keeps_waiting_def start_def stop_def\<close>)

lemma count_jobs_mono:
  assumes "job_table_inv r" "job_table_inv r'" and "\<And>i. has_status P r i \<Longrightarrow> has_status P r' i"
  shows "count_jobs P r \<le> count_jobs P r'"
  using count_jobs_le [OF assms(2,1), of P] assms(3) by blast

lemma keeps_waiting_overfull:
  assumes "runner_inv r" "runner_inv r'" and "overfull r" and "keeps_waiting r r'"
    and "length (order r') < 2 ^ 31"
  shows "overfull r'"
proof -
  have "count_jobs is_queued r \<le> count_jobs is_queued r'"
    using assms(1,2,4) by (intro count_jobs_mono)
      (auto simp: runner_inv_def keeps_waiting_def has_status_def)
  then show ?thesis using assms(3-5) by (simp add: overfull_def keeps_waiting_def)
qed

lemma placed_length:
  assumes "placing os"
  shows "length (os_place os ids i) = length ids + 1"
proof -
  have "size (mset (os_place os ids i)) = size (add_mset i (mset ids))"
    using assms by (simp add: placing_def)
  then show ?thesis by simp
qed

text \<open>
  C25: a full queue never drains: once as many jobs are queued as the policy permits (100 by default),
  no sequence of ticks, checks and submissions starts any of them again; only cancelling does.
\<close>

theorem full_queue_is_stuck:
  assumes "placing os" and "runner_inv r" and "overfull r" and "job_run os (r, w) ops (r', w')"
    and "\<forall>i. Cancel i \<notin> set ops" and "length ops + length (order r) < 2 ^ 31"
  shows "(\<exists>more. job_queue r' = job_queue r @ more) \<and>
    (\<forall>i. has_status is_queued r i \<longrightarrow> jobs r' i = jobs r i)"
proof -
  have "keeps_waiting r r' \<and> overfull r' \<and> runner_inv r' \<and> length (order r') \<le> length ops + length (order r)"
    using assms(4-6)
  proof (induction "(r, w)" ops "(r', w')" arbitrary: r' w' rule: job_run.induct)
    case run_start
    then show ?case using assms(2,3) keeps_waiting_refl by simp
  next
    case (run_step ops r1 w1 op r' w')
    then have ih: "keeps_waiting r r1" "overfull r1" "runner_inv r1"
        "length (order r1) \<le> length ops + length (order r)" by simp_all
    have k: "keeps_waiting r1 r'"
      using overfull_step [OF assms(1) ih(3,2) run_step(3)] run_step(4) by auto
    have inv: "runner_inv r'" by (rule step_inv [OF assms(1) ih(3) run_step(3)])
    have len: "length (order r') \<le> length (order r1) + 1"
      using shape_step [OF ih(3) run_step(3)] placed_length [OF assms(1)] by auto
    show ?case
      using keeps_waiting_trans [OF ih(1) k] keeps_waiting_overfull [OF ih(3) inv ih(2) k] inv len ih(4)
        run_step(5) by simp
  qed
  then show ?thesis by (simp add: keeps_waiting_def)
qed

text \<open>Two jobs submitted under a policy that permits two.\<close>

definition two_waiting :: runner where
  "two_waiting = (fst (sample_run (take 2 sample_ops)))\<lparr>governor := default_policy\<lparr>max_queue_depth := 2\<rparr>\<rparr>"

lemma two_waiting_inv: "runner_inv two_waiting"
proof -
  have "runner_inv (fst (sample_run (take 2 sample_ops)))"
    by (rule job_run_inv [OF quiet_placing sample_run])
  then show ?thesis
    using runner_inv_cong [of two_waiting "fst (sample_run (take 2 sample_ops))"]
    by (simp add: two_waiting_def)
qed

theorem full_queue_is_stuck_witness:
  "\<exists>more. job_queue (fst (fold (perform quiet_os) [Tick 7 calm 5 10, Tick 8 calm 5 10] (two_waiting, []))) =
     [''job_1'', ''job_2''] @ more"
proof -
  let ?ops = "[Tick 7 calm 5 10, Tick 8 calm 5 10]"
  have over: "overfull two_waiting" and len: "length (order two_waiting) = 2"
    and q: "job_queue two_waiting = [''job_1'', ''job_2'']" by code_simp+
  obtain r' w' where f: "fold (perform quiet_os) ?ops (two_waiting, []) = (r', w')" by fastforce
  have "job_run quiet_os (two_waiting, []) ?ops (r', w')"
    using performed [of quiet_os "(two_waiting, [])" ?ops] f by simp
  then have "\<exists>more. job_queue r' = job_queue two_waiting @ more"
    using full_queue_is_stuck [OF quiet_placing two_waiting_inv over, of "[]" ?ops r' w'] len by simp
  then show ?thesis using f q by simp
qed

section \<open>A cancelled job that is still queued\<close>

text \<open>
  C26: cancelling a queued job does not keep it from running: it stays in the start queue, and when it
  reaches the front, a tick that starts jobs and whose spawn succeeds runs it.
\<close>

theorem cancelled_job_runs:
  assumes "runner_inv r" and "job_queue r = i # q" and "jobs r i = Some j" and "j_status j = CANCELLED"
    and "decision (tick_decision m r) = START_NOW" and "0 < ms" and "count_jobs active r < max_concurrent r"
    and "fst (fst (os_spawn os (j\<lparr>j_status := STARTING\<rparr>) w))"
    and "tick os now m ms ml (r, w) = (r', w')"
  shows "has_status (\<lambda>j. j_status j \<in> {RUNNING, COMPLETED, FAILED, TIMEOUT, PROC_LIMIT}) r' i \<and>
    0 < started_this_tick r'"
proof -
  let ?b = "tick_begin now m r" and ?run = "count_jobs active r"
  obtain ok j0 w1 where sp: "os_spawn os (j\<lparr>j_status := STARTING\<rparr>) w = ((ok, j0), w1)"
    by (metis prod.collapse)
  define j1 where "j1 = j0\<lparr>j_status := RUNNING, j_started_at_ms := now\<rparr>"
  have st: "start_one os now (j, w) = (True, j1, w1)"
    using assms(8) sp by (simp add: start_one_def j1_def)
  let ?r1 = "?b\<lparr>jobs := (jobs r)(i \<mapsto> j1)\<rparr>"
  obtain n r2 w2 where sj: "start_jobs os now ms ?run q 1 (?r1, w1) = (n, r2, w2)"
    by (metis prod_cases3)
  have q: "distinct q" "i \<notin> set q" "set q \<subseteq> dom (jobs ?r1)"
    using assms(1,2) by (auto simp: runner_inv_def job_queue_inv_def)
  obtain k where k: "start_result os now ms ?run q 1 ?r1 n r2 k"
    using start_jobs_frame [OF sj q(1,3)] by blast
  have "start_jobs os now ms ?run (job_queue ?b) 0 (?b, w) = (n, r2, w2)"
    using sj st assms(2,3,6,7) by simp
  then have b: "check_job_limits os now ml (r2\<lparr>started_this_tick := n\<rparr>, w2) = (r', w')"
    using assms(5,9) by (simp add: tick_def tick_begin_def Let_def)
  have "i \<notin> set (take k q)" using q(2) by (meson in_set_takeD)
  then have j1: "jobs r2 i = Some j1" "j_status j1 = RUNNING" and n: "0 < n"
    using k start_one_status [OF st] by (auto simp: start_result_def)
  have "distinct (order r2)"
    using k assms(1) by (simp add: start_result_def same_shape_def runner_inv_def job_table_inv_def)
  then have d: "distinct (order (r2\<lparr>started_this_tick := n\<rparr>))" by simp
  have "i \<in> dom (jobs r')" "started_this_tick r' = n"
    using check_frame [OF b d] j1(1) by (auto simp: same_shape_def)
  then obtain j' where j': "jobs r' i = Some j'" by blast
  then have "j' = j1 \<or> (\<exists>u u'. scan_job os now (j1, u) = (j', u'))"
    using check_change [OF b d j'] j1(1) by auto
  with j1(2) have "j_status j' \<in> {RUNNING, COMPLETED, FAILED, TIMEOUT, PROC_LIMIT}"
    using scan_job_frame by fastforce
  then show ?thesis using j' n \<open>started_this_tick r' = n\<close> by (simp add: has_status_def)
qed

theorem cancelled_job_runs_witness:
  "has_status (\<lambda>j. j_status j \<in> {RUNNING, COMPLETED, FAILED, TIMEOUT, PROC_LIMIT})
     (fst (tick quiet_os 7 calm 5 10 (sample_run [Submit ''true'' default_limits, Cancel ''job_1'']))) ''job_1''"
proof -
  let ?ops = "[Submit ''true'' default_limits, Cancel ''job_1'']"
  let ?r = "fst (sample_run ?ops)" and ?w = "snd (sample_run ?ops)"
  have inv: "runner_inv ?r" by (rule job_run_inv [OF quiet_placing sample_run])
  have q: "job_queue ?r = [''job_1'']" and go: "decision (tick_decision calm ?r) = START_NOW"
    and few: "count_jobs active ?r < max_concurrent ?r"
    and c: "has_status (\<lambda>j. j_status j = CANCELLED) ?r ''job_1''" by code_simp+
  obtain j where j: "jobs ?r ''job_1'' = Some j" "j_status j = CANCELLED"
    using c by (auto simp: has_status_def split: option.splits)
  have sp: "fst (fst (os_spawn quiet_os (j\<lparr>j_status := STARTING\<rparr>) ?w))" by (simp add: quiet_os_def)
  obtain r' w' where "tick quiet_os 7 calm 5 10 (?r, ?w) = (r', w')" by fastforce
  with cancelled_job_runs [OF inv q j go _ few sp this] show ?thesis by simp
qed

section \<open>Fairness of the scan\<close>

definition next_cursor :: "string list \<Rightarrow> nat \<Rightarrow> nat \<Rightarrow> nat" where
  "next_cursor ids c m = (c + min (length ids) m) mod length ids"

text \<open>A number of consecutive checks, and the jobs that are due in check \<open>p\<close> when the cursor first stood at \<open>c\<close>.\<close>

definition checks :: "'w job_os \<Rightarrow> nat \<Rightarrow> 64 word list \<Rightarrow> runner \<times> 'w \<Rightarrow> runner \<times> 'w" where
  "checks os m nows = fold (\<lambda>now. check_job_limits os now m) nows"

definition due :: "string list \<Rightarrow> nat \<Rightarrow> nat \<Rightarrow> nat \<Rightarrow> string list" where
  "due ids c m p = (let b = min (length ids) m in map (\<lambda>i. ids ! ((c + p * b + i) mod length ids)) [0..<b])"

lemma checks_snoc:
  "p < length nows \<Longrightarrow> checks os m (take (Suc p) nows) c = check_job_limits os (nows ! p) m (checks os m (take p nows) c)"
  by (simp add: checks_def take_Suc_conv_app_nth)

lemma check_cursor:
  assumes "check_job_limits os now m (r, w) = (r', w')" and "running_ids r \<noteq> []" and "distinct (order r)"
  shows "scan_cursor r' = next_cursor (running_ids r) (scan_cursor r) m"
proof -
  obtain r1 w1 where f: "fold (scan_one os now) (tick_targets r m) (r, w) = (r1, w1)" by fastforce
  have "distinct (tick_targets r m)"
    using assms(3) by (simp add: tick_targets_def scan_targets_distinct running_ids_distinct)
  then have "scan_cursor r1 = scan_cursor r" using scan_all_frame [OF f] by simp
  then show ?thesis
    using assms(1,2) f by (auto simp: check_job_limits_def tick_targets_def Let_def next_cursor_def)
qed

lemma targets_due:
  assumes "cur mod length ids = (c + p * min (length ids) m) mod length ids"
  shows "scan_targets ids cur m = due ids c m p"
proof -
  have "(cur + i) mod length ids = (c + p * min (length ids) m + i) mod length ids" for i
    using assms by (metis mod_add_left_eq)
  then show ?thesis by (simp add: scan_targets_def due_def Let_def)
qed

lemma check_is_fold:
  assumes "check_job_limits os now m (r, w) = (r', w')" and "running_ids r = ids" and "ids \<noteq> []"
    and "fold (scan_one os now) (scan_targets ids (scan_cursor r) m) (r, w) = (r3, w3)"
  shows "jobs r' = jobs r3 \<and> w' = w3 \<and> scanned_this_tick r' = min (length ids) m"
  using assms by (auto simp: check_job_limits_def Let_def)

text \<open>While the same jobs keep running, the cursor moves on by the budget at each check.\<close>

lemma checks_cursor:
  assumes "distinct (order r)" and "ids \<noteq> []" and "p \<le> length nows"
    and "\<And>p. p < length nows \<Longrightarrow> running_ids (fst (checks os m (take p nows) (r, w))) = ids"
  shows "distinct (order (fst (checks os m (take p nows) (r, w)))) \<and>
    scan_cursor (fst (checks os m (take p nows) (r, w))) mod length ids =
      (scan_cursor r + p * min (length ids) m) mod length ids"
  using assms(3)
proof (induction p)
  case 0
  then show ?case using assms(1) by (simp add: checks_def)
next
  case (Suc p)
  obtain r1 w1 where c1: "checks os m (take p nows) (r, w) = (r1, w1)" by fastforce
  obtain r2 w2 where c2: "check_job_limits os (nows ! p) m (r1, w1) = (r2, w2)" by fastforce
  have d: "distinct (order r1)" and cur: "scan_cursor r1 mod length ids = (scan_cursor r + p * min (length ids) m) mod length ids"
    using Suc c1 by simp_all
  have ids: "running_ids r1 = ids" using assms(4) [of p] Suc.prems c1 by simp
  have "scan_cursor r2 = (scan_cursor r1 + min (length ids) m) mod length ids"
    using check_cursor [OF c2 _ d] ids assms(2) by (simp add: next_cursor_def)
  then have "scan_cursor r2 mod length ids = (scan_cursor r + Suc p * min (length ids) m) mod length ids"
    using cur mod_add_left_eq [of "scan_cursor r1" "length ids" "min (length ids) m"]
      mod_add_left_eq [of "scan_cursor r + p * min (length ids) m" "length ids" "min (length ids) m"]
    by (simp add: algebra_simps)
  moreover have "distinct (order r2)" using check_frame [OF c2 d] d by (simp add: same_shape_def)
  ultimately show ?case using checks_snoc [of p nows os m "(r, w)"] Suc.prems c1 c2 by simp
qed

lemma due_covers:
  assumes "ids \<noteq> []" and "length ids \<le> k * min (length ids) m"
  shows "(\<Union>p < k. set (due ids c m p)) = set ids"
proof
  show "(\<Union>p < k. set (due ids c m p)) \<subseteq> set ids" using assms(1) by (auto simp: due_def Let_def)
  show "set ids \<subseteq> (\<Union>p < k. set (due ids c m p))"
  proof
    let ?b = "min (length ids) m"
    fix x assume "x \<in> set ids"
    then have "x \<in> set (rotate c ids)" by simp
    then obtain i where "i < length (rotate c ids)" "rotate c ids ! i = x" unfolding in_set_conv_nth by blast
    then have i: "i < length ids" "x = ids ! ((c + i) mod length ids)" by (simp_all add: nth_rotate)
    have b: "0 < ?b" using assms by (cases "?b = 0") auto
    have "i < k * ?b" using i(1) assms(2) by simp
    then have lt: "i div ?b < k" by (simp add: less_mult_imp_div_less)
    have "x = ids ! ((c + i div ?b * ?b + i mod ?b) mod length ids)" using i(2) by (simp only: add.assoc div_mult_mod_eq)
    moreover have "i mod ?b \<in> set [0..<?b]"
      by (simp only: set_upt atLeastLessThan_iff mod_less_divisor [OF b] le0 simp_thms)
    ultimately have "x \<in> set (due ids c m (i div ?b))" unfolding due_def Let_def set_map by (rule image_eqI)
    then show "x \<in> (\<Union>p < k. set (due ids c m p))" using lt by blast
  qed
qed

text \<open>
  C10: the scan is fair: in a row of checks during which the same jobs keep running, check \<open>p\<close> does
  to the jobs and the system exactly what scanning the jobs does that are due in it, those from \<open>p\<close>
  times the budget after the first position of the cursor on; and with as many checks as the number
  of jobs divided by the budget, rounded up, every job is due in one of them, wherever the cursor stood.
\<close>

theorem scan_is_fair:
  assumes "runner_inv r" and "ids \<noteq> []" and "length ids \<le> length nows * min (length ids) m"
    and "\<And>p. p < length nows \<Longrightarrow> running_ids (fst (checks os m (take p nows) (r, w))) = ids"
  shows "(\<forall>p < length nows. \<forall>r2 w2 r3 w3.
      checks os m (take (Suc p) nows) (r, w) = (r2, w2) \<longrightarrow>
      fold (scan_one os (nows ! p)) (due ids (scan_cursor r) m p) (checks os m (take p nows) (r, w)) = (r3, w3) \<longrightarrow>
      jobs r2 = jobs r3 \<and> w2 = w3 \<and> scanned_this_tick r2 = min (length ids) m) \<and>
    (\<Union>p < length nows. set (due ids (scan_cursor r) m p)) = set ids"
proof (intro conjI allI impI)
  show "(\<Union>p < length nows. set (due ids (scan_cursor r) m p)) = set ids" by (rule due_covers [OF assms(2,3)])
next
  fix p r2 w2 r3 w3
  assume p: "p < length nows" and c2: "checks os m (take (Suc p) nows) (r, w) = (r2, w2)"
    and f: "fold (scan_one os (nows ! p)) (due ids (scan_cursor r) m p) (checks os m (take p nows) (r, w)) = (r3, w3)"
  have d: "distinct (order r)" using assms(1) by (simp add: runner_inv_def job_table_inv_def)
  obtain r1 w1 where c1: "checks os m (take p nows) (r, w) = (r1, w1)" by fastforce
  have "scan_targets ids (scan_cursor r1) m = due ids (scan_cursor r) m p"
    using checks_cursor [where p = p, OF d assms(2) _ assms(4)] p c1 by (intro targets_due) simp
  moreover have "check_job_limits os (nows ! p) m (r1, w1) = (r2, w2)" using checks_snoc [OF p] c1 c2 by metis
  moreover have "running_ids r1 = ids" using assms(4) [OF p] c1 by simp
  ultimately have "jobs r2 = jobs r3 \<and> w2 = w3 \<and> scanned_this_tick r2 = min (length ids) m"
    using check_is_fold [OF _ _ assms(2)] f c1 by metis
  then show "jobs r2 = jobs r3" "w2 = w3" "scanned_this_tick r2 = min (length ids) m" by simp_all
qed

theorem scan_is_fair_witness:
  "(\<Union>p < length [9, 10 :: 64 word]. set (due (running_ids (fst (sample_run sample_ops))) 0 1 p)) = {''job_1'', ''job_2''}"
proof -
  let ?r = "fst (sample_run sample_ops)" and ?w = "snd (sample_run sample_ops)"
  have inv: "runner_inv ?r" by (rule job_run_inv [OF quiet_placing sample_run])
  have ids: "running_ids ?r = [''job_2'', ''job_1'']" and c: "scan_cursor ?r = 0"
    and later: "running_ids (fst (checks quiet_os 1 [9] (sample_run sample_ops))) = [''job_2'', ''job_1'']" by code_simp+
  have "running_ids (fst (checks quiet_os 1 (take p [9, 10]) (?r, ?w))) = [''job_2'', ''job_1'']"
    if "p < length [9, 10 :: 64 word]" for p
    using that ids later by (cases p) (simp_all add: checks_def [of _ _ "[]"])
  from scan_is_fair [OF inv _ _ this] show ?thesis unfolding c ids by auto
qed

section \<open>Memory pressure\<close>

lemma nine_tenths: "round64 (9 / 10) = Fin (8106479329266893 / 2 ^ 53)"
proof -
  have q: "quotient_of (9 / 10) = (9, 10)" by code_simp
  have b: "bitlen 9 = 4" "bitlen 10 = 4" by code_simp+
  have u: "ulp_exp (9 / 10) = - 53"
    by (simp add: ulp_exp_def q b Let_def power_int_def power_divide)
  have f: "\<lfloor>(40532396646334464 / 5 :: rat)\<rfloor> = 8106479329266892"
    by (rule floor_unique) simp_all
  have "round_pos (9 / 10) = 8106479329266893 / 2 ^ 53"
    by (simp add: round_pos_def u power_int_def power_divide round_even_def f Let_def)
  then show ?thesis by (simp add: round64_def Let_def)
qed

lemma mem_pct_high:
  assumes "0 < mem_total m" and "mem_total m \<le> 2 ^ 53" and "mem_available m \<le> mem_total m"
    and "9 * mem_total m \<le> 10 * mem_available m"
  shows "d_ge (mem_pct m) (Fin 90)"
proof -
  let ?q = "(of_nat (mem_available m) :: rat) / of_nat (mem_total m)"
  have t: "(0 :: rat) < of_nat (mem_total m)" using assms(1) by simp
  have "(of_nat (9 * mem_total m) :: rat) \<le> of_nat (10 * mem_available m)"
    using assms(4) by (simp only: of_nat_le_iff)
  then have q: "9 / 10 \<le> ?q" using t by (simp add: field_simps)
  have one: "?q \<le> of_int 1" using assms(3) t by (simp add: field_simps)
  have "0 \<le> ?q" by simp
  then obtain v where v: "round64 ?q = Fin v" "0 \<le> v" "v \<le> of_int 1"
    using one by (rule b64.rnd_small) simp_all
  have "d_le (round64 (9 / 10)) (round64 ?q)" using q by (intro b64.rnd_mono) simp_all
  then have "9 / 10 \<le> v" by (simp add: nine_tenths v(1))
  then have "of_int 90 \<le> v * 100" by simp
  then have "d_ge (round64 (v * 100)) (Fin (of_int 90))"
    by (intro b64.rnd_ge_int) simp_all
  then show ?thesis
    using assms(1-3) t by (simp add: mem_pct_def d_of_u64_int v(1))
qed

text \<open>
  \<open>tick\<close> hands the governor the share of memory that is available, which the governor compares
  with a high-water mark: under the default policy a machine of up to \<open>2 ^ 53\<close> units of memory with
  at least 90 percent available never starts a job, and one with nothing available does if nothing
  else holds it.
\<close>

theorem idle_memory_holds_jobs:
  assumes "governor r = default_policy" and "0 < mem_total m" and "mem_total m \<le> 2 ^ 53"
    and "mem_available m \<le> mem_total m"
    and "length (order r) < 100" and "count_jobs active r < 10" and "\<not> d_ge (cpu_usage_percent m) (Fin 85)"
  shows "(9 * mem_total m \<le> 10 * mem_available m \<longrightarrow>
      decision (tick_decision m r) = HOLD_QUEUE \<and> reason (tick_decision m r) = MEM_HIGH) \<and>
    (mem_available m = 0 \<longrightarrow> decision (tick_decision m r) = START_NOW)"
proof -
  have small: "count_jobs P r < 100" for P
    unfolding count_jobs_def using length_filter_le assms(5) by (rule le_less_trans)
  then have cast: "as_int32 (int (count_jobs P r)) = int (count_jobs P r)" for P
    by (intro as_int32_id) (simp_all add: less_trans [of _ 100])
  have room: "int (count_jobs is_queued r) < 100" "int (count_jobs active r) < 10"
    using small [of is_queued] assms(6) by simp_all
  have "mem_available m = 0 \<longrightarrow> mem_pct m = Fin 0"
    using assms(2,3) by (simp add: mem_pct_def d_of_u64_int round64_def)
  then show ?thesis
    using room assms(1,2,7) mem_pct_high [OF assms(2-4)]
    by (auto simp: tick_decision_def cast decide_def default_policy_def)
qed

definition idle :: SystemMetrics where
  "idle = \<lparr>cpu_usage_percent = Fin 3, mem_total = 16000000, mem_available = 15000000\<rparr>"

theorem idle_memory_holds_jobs_witness:
  "reason (tick_decision idle (fst (sample_run sample_ops))) = MEM_HIGH"
proof -
  have "governor (fst (sample_run sample_ops)) = default_policy" by code_simp
  moreover have "length (order (fst (sample_run sample_ops))) = 2" by code_simp
  moreover have "count_jobs active (fst (sample_run sample_ops)) = 2" by code_simp
  ultimately show ?thesis
    using idle_memory_holds_jobs [of "fst (sample_run sample_ops)" idle] by (simp add: idle_def)
qed

end
