(* ===== verification/Job_Spawner.thy ===== *)
theory Job_Spawner
  imports Job_Properties
begin

text \<open>
  \<open>RealProcessSpawner\<close> (\<open>src/job/job.cpp\<close>): pipes, \<open>fork\<close>, and what the parent records about the
  child. The child runs concurrently: what it has done when the parent looks is part of the answers
  of the system calls; the \<open>SPAWN_DBG\<close> lines the parent prints under \<open>HK_DEBUG_PROC_CAP\<close> are left out. The runner only relies on the interface of a spawner, which
  \<open>RealProcessSpawner\<close> provides.
\<close>

section \<open>The spawner\<close>

text \<open>
  \<open>sp_pipe\<close> returns the read and the write end or fails; \<open>sp_fork\<close> and \<open>sp_getpgid\<close> return -1 when
  they fail.
\<close>

record 'w spawn_os =
  sp_pipe :: "'w \<Rightarrow> (int \<times> int) option \<times> 'w"
  sp_nonblock :: "int \<Rightarrow> 'w \<Rightarrow> 'w"
  sp_close :: "int \<Rightarrow> 'w \<Rightarrow> 'w"
  sp_fork :: "string \<Rightarrow> 'w \<Rightarrow> int \<times> 'w"
  sp_getpgid :: "int \<Rightarrow> 'w \<Rightarrow> int \<times> 'w"
  sp_sleep :: "nat \<Rightarrow> 'w \<Rightarrow> 'w"
  sp_clock :: "'w \<Rightarrow> time_point"
  sp_stat :: "'w \<Rightarrow> int \<Rightarrow> string option"

definition spawn_failed :: "'w spawn_os \<Rightarrow> string \<Rightarrow> Job \<Rightarrow> 'w \<Rightarrow> (bool \<times> Job) \<times> 'w" where
  "spawn_failed sp what j w =
     ((False, j\<lparr>j_status := FAILED, j_error := what, j_finished_at := sp_clock sp w\<rparr>), w)"

text \<open>Up to ten attempts to learn the group of the leader, a millisecond apart.\<close>

fun observe_pgid :: "'w spawn_os \<Rightarrow> nat \<Rightarrow> int \<Rightarrow> 'w \<Rightarrow> int \<times> 'w" where
  "observe_pgid sp 0 pid w = (- 1, w)"
| "observe_pgid sp (Suc n) pid w =
     (let (g, w1) = sp_getpgid sp pid w in
      if g \<noteq> - 1 then (g, w1) else observe_pgid sp n pid (sp_sleep sp 1 w1))"

definition spawn_job :: "'w spawn_os \<Rightarrow> Job \<Rightarrow> 'w \<Rightarrow> (bool \<times> Job) \<times> 'w" where
  "spawn_job sp j w =
     (case sp_pipe sp w of
        (None, w1) \<Rightarrow> spawn_failed sp ''Failed to create pipes'' j w1
      | (Some (out_r, out_w), w1) \<Rightarrow>
          (case sp_pipe sp w1 of
             (None, w2) \<Rightarrow> spawn_failed sp ''Failed to create pipes'' j w2
           | (Some (err_r, err_w), w2) \<Rightarrow>
               (let w3 = sp_nonblock sp err_r (sp_nonblock sp out_r w2);
                    (pid, w4) = sp_fork sp (j_command j) w3
                in if pid = - 1
                   then spawn_failed sp ''Failed to fork'' j
                          (fold (sp_close sp) [out_r, out_w, err_r, err_w] w4)
                   else let w5 = fold (sp_close sp) [out_w, err_w] w4;
                            (seen, w6) = observe_pgid sp 10 pid w5;
                            group = (if seen = - 1 then pid else seen);
                            j1 = j\<lparr>j_process_group := group\<rparr>;
                            j2 = (case read_proc_start_time_ticks (sp_stat sp w6) pid of
                                    None \<Rightarrow> j1
                                  | Some st \<Rightarrow> j1\<lparr>j_leader_start_time := st\<rparr>)
                     in ((True, j2\<lparr>j_stdout_fd := out_r, j_stderr_fd := err_r\<rparr>), w6))))"

section \<open>The interface the runner relies on\<close>

locale spawner =
  fixes spawn :: "Job \<Rightarrow> 'w \<Rightarrow> (bool \<times> Job) \<times> 'w"
  assumes spawn_keeps: "spawn j w = ((ok, j'), w') \<Longrightarrow>
      j_id j' = j_id j \<and> j_command j' = j_command j \<and> j_output j' = j_output j \<and>
      j_max_runtime_ms j' = j_max_runtime_ms j \<and> j_max_log_bytes j' = j_max_log_bytes j \<and>
      j_max_child_processes j' = j_max_child_processes j"
    and spawn_success: "spawn j w = ((True, j'), w') \<Longrightarrow> j_error j' = j_error j"
    and spawn_failure: "spawn j w = ((False, j'), w') \<Longrightarrow> length (j_error j') \<le> 64"
begin

lemma start_one_logs:
  assumes "os_spawn os = spawn" and "start_one os now (j, w) = (ok, j', w')"
  shows "j_output j' = j_output j \<and> j_max_log_bytes j' = j_max_log_bytes j \<and>
    (if ok then j_error j' = j_error j else length (j_error j') \<le> 64)"
proof -
  obtain ok1 j1 w1 where sp: "spawn (j\<lparr>j_status := STARTING\<rparr>) w = ((ok1, j1), w1)"
    by (metis prod.collapse)
  then show ?thesis
    using assms spawn_keeps [OF sp] spawn_success [of "j\<lparr>j_status := STARTING\<rparr>" w j1 w1]
      spawn_failure [of "j\<lparr>j_status := STARTING\<rparr>" w j1 w1]
    by (auto simp: start_one_def split: if_splits)
qed

lemma start_one_limits:
  assumes "os_spawn os = spawn" and "start_one os now (j, w) = (ok, j', w')"
  shows "j_id j' = j_id j \<and> j_command j' = j_command j \<and> j_max_runtime_ms j' = j_max_runtime_ms j \<and>
    j_max_child_processes j' = j_max_child_processes j"
proof -
  obtain ok1 j1 w1 where sp: "spawn (j\<lparr>j_status := STARTING\<rparr>) w = ((ok1, j1), w1)"
    by (metis prod.collapse)
  then show ?thesis
    using assms spawn_keeps [OF sp] by (auto simp: start_one_def split: if_splits)
qed

end

lemma spawn_job_keeps:
  assumes "spawn_job sp j w = ((ok, j'), w')"
  shows "(j_id j' = j_id j \<and> j_command j' = j_command j \<and> j_output j' = j_output j \<and>
      j_max_runtime_ms j' = j_max_runtime_ms j \<and> j_max_log_bytes j' = j_max_log_bytes j \<and>
      j_max_child_processes j' = j_max_child_processes j) \<and>
    (if ok then j_error j' = j_error j else length (j_error j') \<le> 64)"
  using assms
  by (auto simp: spawn_job_def spawn_failed_def Let_def split: option.splits prod.splits if_splits)

interpretation real: spawner "spawn_job sp" for sp
  by unfold_locales (auto dest: spawn_job_keeps)

section \<open>The group the parent records\<close>

text \<open>
  the parent records the first process group it observes: when the child has not yet moved into a
  group of its own, that is the parent's own group, the retries being for failures only; a failed
  \<open>pipe\<close> or \<open>fork\<close> leaves the job FAILED with no group, and the record of a job that was started has
  the read ends of its pipes.
\<close>

theorem first_group_recorded:
  assumes "sp_pipe sp w = (Some (out_r, out_w), w1)" and "sp_pipe sp w1 = (Some (err_r, err_w), w2)"
    and "sp_fork sp (j_command j) (sp_nonblock sp err_r (sp_nonblock sp out_r w2)) = (pid, w4)"
    and "pid \<noteq> - 1" and "\<And>u. fst (sp_getpgid sp pid u) = g" and "g \<noteq> - 1"
  shows "\<exists>j' w'. spawn_job sp j w = ((True, j'), w') \<and> j_process_group j' = g \<and>
    j_stdout_fd j' = out_r \<and> j_stderr_fd j' = err_r \<and> j_status j' = j_status j"
proof -
  obtain w5 where w5: "sp_getpgid sp pid (fold (sp_close sp) [out_w, err_w] w4) = (g, w5)"
    using assms(5) by (metis prod.collapse)
  have "observe_pgid sp 10 pid (fold (sp_close sp) [out_w, err_w] w4) = (g, w5)"
    using w5 assms(6) by (simp add: numeral_eq_Suc)
  then show ?thesis
    using assms(1-4,6) by (auto simp: spawn_job_def Let_def split: option.splits)
qed

text \<open>A system where the child is slow: it is still in group 50, the parent's.\<close>

definition slow_child :: "(int \<times> int) spawn_os" where
  "slow_child = \<lparr>sp_pipe = (\<lambda>(n, k). (Some (n, n + 1), (n + 2, k))), sp_nonblock = (\<lambda>fd w. w),
     sp_close = (\<lambda>fd (n, k). (n, k + 1)), sp_fork = (\<lambda>cmd w. (77, w)), sp_getpgid = (\<lambda>pid w. (50, w)),
     sp_sleep = (\<lambda>ms w. w), sp_clock = (\<lambda>w. 0), sp_stat = (\<lambda>w pid. None)\<rparr>"

theorem first_group_recorded_witness:
  "\<exists>j' w'. spawn_job slow_child new_job (3, 0) = ((True, j'), w') \<and> j_process_group j' = 50"
  using first_group_recorded [of slow_child "(3, 0)" 3 4 "(5, 0)" 5 6 "(7, 0)" new_job 77 "(7, 0)" 50]
  by (auto simp: slow_child_def)

text \<open>
  descriptors over a failed start: when \<open>fork\<close> fails all four ends are closed again, but when
  only the second \<open>pipe\<close> fails both ends of the first stay open.
\<close>

theorem failed_start_descriptors:
  assumes "sp_pipe sp w = (Some (out_r, out_w), w1)"
  shows "(sp_pipe sp w1 = (None, w2) \<longrightarrow>
      spawn_job sp j w = ((False, j\<lparr>j_status := FAILED, j_error := ''Failed to create pipes'',
        j_finished_at := sp_clock sp w2\<rparr>), w2)) \<and>
    (sp_pipe sp w1 = (Some (err_r, err_w), w2) \<and>
     sp_fork sp (j_command j) (sp_nonblock sp err_r (sp_nonblock sp out_r w2)) = (- 1, w3) \<longrightarrow>
      snd (spawn_job sp j w) = fold (sp_close sp) [out_r, out_w, err_r, err_w] w3 \<and>
      \<not> fst (fst (spawn_job sp j w)))"
  using assms by (auto simp: spawn_job_def spawn_failed_def Let_def)

theorem failed_start_descriptors_witness:
  "snd (spawn_job (slow_child\<lparr>sp_pipe := (\<lambda>(n, k). if n < 5 then (Some (n, n + 1), (n + 2, k)) else (None, (n, k)))\<rparr>)
     new_job (3, 0)) = (5, 0)"
proof -
  let ?sp = "slow_child\<lparr>sp_pipe := (\<lambda>(n, k). if n < 5 then (Some (n, n + 1), (n + 2, k)) else (None, (n, k)))\<rparr>"
  have "sp_pipe ?sp (3, 0) = (Some (3, 4), (5, 0))" "sp_pipe ?sp (5, 0) = (None, (5, 0))" by simp_all
  with failed_start_descriptors [OF this(1), of "(5, 0)"] show ?thesis by simp
qed

end
