(* ===== verification/Job_Limits.thy ===== *)
theory Job_Limits
  imports Job_Spawner
begin

text \<open>
  The limits on a running job's log and processes, and which processes a scan or a cancellation
  may signal.
\<close>

section \<open>Size of the logs\<close>

definition log_size :: "Job \<Rightarrow> nat" where
  "log_size j = length (j_output j) + length (j_error j)"

definition reads_bounded :: "'w job_os \<Rightarrow> bool" where
  "reads_bounded os \<longleftrightarrow> (\<forall>fd n w s w'. os_read os fd n w = (Some s, w') \<longrightarrow> length s \<le> n)"

lemma reads_boundedD:
  "reads_bounded os \<Longrightarrow> os_read os fd n w = (Some s, w') \<Longrightarrow> length s \<le> n"
  unfolding reads_bounded_def by blast

lemma read_stdout_size:
  assumes "reads_bounded os" and "read_stdout os (j, w) = (j', w')"
  shows "length (j_output j') \<le> length (j_output j) + 4096"
proof -
  have "length s \<le> 4096" if "os_read os (j_stdout_fd j) read_size w = (Some s, u)" for s u
    using reads_boundedD [OF assms(1) that] by (simp add: read_size_def)
  then show ?thesis
    using assms(2) by (auto simp: read_stdout_def split: if_splits option.splits prod.splits)
qed

lemma read_stderr_size:
  assumes "reads_bounded os" and "read_stderr os (j, w) = (j', w')"
  shows "length (j_error j') \<le> length (j_error j) + 4096"
proof -
  have "length s \<le> 4096" if "os_read os (j_stderr_fd j) read_size w = (Some s, u)" for s u
    using reads_boundedD [OF assms(1) that] by (simp add: read_size_def)
  then show ?thesis
    using assms(2) by (auto simp: read_stderr_def split: if_splits option.splits prod.splits)
qed

lemma reads_size:
  assumes "reads_bounded os" and "read_stderr os (read_stdout os (j, w)) = (j1, w1)"
  shows "log_size j1 \<le> log_size j + 8192"
proof -
  obtain j0 w0 where a: "read_stdout os (j, w) = (j0, w0)" by fastforce
  show ?thesis
    using read_stdout_size [OF assms(1) a] read_stderr_size [OF assms(1) assms(2) [unfolded a]]
      read_stdout_frame [OF a] read_stderr_frame [OF assms(2) [unfolded a]]
    by (simp add: log_size_def)
qed

lemma log_cap_size:
  "enforce_job_log_cap j = (b, j') \<Longrightarrow> log_size j' \<le> unat (j_max_log_bytes j)"
  using log_cap_frame [of j b j'] by (simp add: log_size_def)

lemma scan_job_size:
  assumes "reads_bounded os" and "scan_job os now (j, w) = (j', w')"
    and "log_size j \<le> unat (j_max_log_bytes j)"
  shows "log_size j' \<le> unat (j_max_log_bytes j') + 8192 \<and>
    (j_status j' = RUNNING \<longrightarrow> log_size j' \<le> unat (j_max_log_bytes j'))"
  using assms(2)
proof (cases rule: scan_job_cases)
  case (reaped j1 w1)
  then show ?thesis
    using reads_size [OF assms(1) reaped(1)] reads_frame [OF reaped(1)] reap_frame [OF reaped(2)] assms(3)
    by (auto simp: log_size_def same_identity_def)
next
  case (late j1 w1 w2)
  then show ?thesis
    using reads_size [OF assms(1) late(1)] reads_frame [OF late(1)] timeout_frame [OF late(3)] assms(3)
    by (auto simp: log_size_def same_identity_def)
next
  case (cut j1 w1)
  then show ?thesis
    using log_cap_size [OF cut(4)] log_cap_frame [OF cut(4)] by (simp add: same_identity_def)
next
  case (capped j1 w1 w2 b)
  then show ?thesis
    using log_cap_size [OF capped(4)] process_cap_frame [OF capped(5)]
    by (simp add: log_size_def same_identity_def)
qed

definition log_ok :: "runner \<Rightarrow> string \<Rightarrow> Job \<Rightarrow> bool" where
  "log_ok r i j \<longleftrightarrow> log_size j \<le> unat (j_max_log_bytes j) + 8192 \<and>
     (j_status j = RUNNING \<longrightarrow> log_size j \<le> unat (j_max_log_bytes j)) \<and>
     (i \<in> set (job_queue r) \<longrightarrow> log_size j = 0)"

definition log_inv :: "runner \<Rightarrow> bool" where
  "log_inv r \<longleftrightarrow> (\<forall>i j. jobs r i = Some j \<longrightarrow> log_ok r i j)"

lemma check_log:
  assumes "reads_bounded os" and "runner_inv r" and "log_inv r"
    and "check_job_limits os now m (r, w) = (r', w')"
  shows "log_inv r'"
  unfolding log_inv_def
proof (intro allI impI)
  fix i j' assume j': "jobs r' i = Some j'"
  have d: "distinct (order r)" using assms(2) by (simp add: runner_inv_def job_table_inv_def)
  have q: "job_queue r' = job_queue r" using check_frame [OF assms(4) d] by simp
  from check_change [OF assms(4) d j'] obtain j where j: "jobs r i = Some j"
    and c: "j' = j \<or> active j \<and> (\<exists>u u'. scan_job os now (j, u) = (j', u'))" by auto
  have ok: "log_ok r i j" using assms(3) j by (simp add: log_inv_def)
  show "log_ok r' i j'"
  proof (cases "j' = j")
    case True
    then show ?thesis using ok q by (simp add: log_ok_def)
  next
    case False
    then obtain u u' where a: "active j" and s: "scan_job os now (j, u) = (j', u')" using c by blast
    then have "j_status j = RUNNING" "i \<notin> set (job_queue r)"
      using assms(2) j by (auto simp: runner_inv_def none_starting_def job_queue_inv_def active_def)
    then show ?thesis
      using scan_job_size [OF assms(1) s] ok q by (auto simp: log_ok_def)
  qed
qed

lemma start_log:
  assumes "os_spawn os = spawn_job sp" and "runner_inv r" and "log_inv r"
    and "start_result os now ms run (job_queue r) 0 r n r' k"
  shows "log_inv r'"
  unfolding log_inv_def
proof (intro allI impI)
  fix i j' assume j': "jobs r' i = Some j'"
  have q: "job_queue r' = drop k (job_queue r)" using assms(4) by (simp add: start_result_def)
  show "log_ok r' i j'"
  proof (cases "i \<in> set (take k (job_queue r))")
    case False
    then have "jobs r i = Some j'" using assms(4) j' by (simp add: start_result_def)
    then have "log_ok r i j'" using assms(3) by (simp add: log_inv_def)
    then show ?thesis using q by (auto simp: log_ok_def dest: in_set_dropD)
  next
    case True
    then have "started_from os now r r' i" using assms(4) by (simp add: start_result_def)
    then obtain j ok u u' where j: "jobs r i = Some j" and s: "start_one os now (j, u) = (ok, j', u')"
      using j' by (auto simp: started_from_def)
    have "log_ok r i j" "i \<in> set (job_queue r)"
      using assms(3) j True by (auto simp: log_inv_def dest: in_set_takeD)
    then have "log_size j = 0" by (simp add: log_ok_def)
    moreover have "i \<notin> set (job_queue r')"
      using True q assms(2) set_take_disj_set_drop_if_distinct [of "job_queue r" k k]
      by (auto simp: runner_inv_def job_queue_inv_def)
    ultimately show ?thesis
      using real.start_one_logs [OF assms(1) s] start_one_status [OF s]
      by (auto simp: log_ok_def log_size_def split: if_splits)
  qed
qed

lemma log_inv_cong:
  "jobs r' = jobs r \<Longrightarrow> job_queue r' = job_queue r \<Longrightarrow> log_inv r' = log_inv r"
  by (simp add: log_inv_def log_ok_def)

lemma tick_log:
  assumes "reads_bounded os" and "os_spawn os = spawn_job sp" and "runner_inv r" and "log_inv r"
    and t: "tick os now m ms ml (r, w) = (r', w')"
  shows "log_inv r'"
proof -
  obtain n r2 w2 k where a: "if decision (tick_decision m r) = START_NOW
     then start_result os now ms (count_jobs active r) (job_queue r) 0 (tick_begin now m r) n r2 k
     else n = 0 \<and> r2 = tick_begin now m r \<and> k = 0"
    and b: "check_job_limits os now ml (r2\<lparr>started_this_tick := n\<rparr>, w2) = (r', w')"
    by (rule tick_phases [OF t assms(3)])
  have "log_inv (tick_begin now m r)" using assms(4) log_inv_cong [of "tick_begin now m r" r] by simp
  then have "log_inv r2"
    using a start_log [OF assms(2), of "tick_begin now m r"] assms(3) by (auto split: if_splits)
  then have "log_inv (r2\<lparr>started_this_tick := n\<rparr>)"
    using log_inv_cong [of "r2\<lparr>started_this_tick := n\<rparr>" r2] by simp
  then show ?thesis
    using check_log [OF assms(1) _ _ b] tick_started_inv [OF assms(3) a] by simp
qed

lemma log_step:
  assumes "reads_bounded os" and "os_spawn os = spawn_job sp" and "runner_inv r" and "log_inv r"
    and "job_step os (r, w) op (r', w')"
  shows "log_inv r'"
  using assms(5)
proof (cases rule: job_step.cases)
  case (submits c l i)
  obtain j where s: "jobs r' = (jobs r)(i \<mapsto> j)" "job_queue r' = job_queue r @ [i]" "j_status j = QUEUED"
      "j_output j = []" "j_error j = []"
    using submit_frame [OF submits(2)] by blast
  then show ?thesis using assms(4) by (auto simp: log_inv_def log_ok_def log_size_def)
next
  case (cancels i b)
  show ?thesis
  proof (cases "r' = r")
    case False
    then obtain j t where j: "jobs r i = Some j"
      and r': "r' = r\<lparr>jobs := (jobs r)(i \<mapsto> finish_now CANCELLED t j)\<rparr>"
      using cancel_frame [OF cancels(2)] by blast
    have "log_ok r i j" using assms(4) j by (simp add: log_inv_def)
    then have "log_ok r' i (finish_now CANCELLED t j)"
      by (simp add: log_ok_def log_size_def finish_now_def r')
    then show ?thesis using assms(4) by (auto simp: log_inv_def log_ok_def r' split: if_splits)
  qed (use assms(4) in simp)
next
  case (ticks now m ms ml)
  show ?thesis by (rule tick_log [OF assms(1-4) ticks(2)])
next
  case (checks now m)
  show ?thesis by (rule check_log [OF assms(1,3,4) checks(2)])
next
  case starts
  then show ?thesis using assms(4) log_inv_cong [of r' r] by (simp add: start_def)
next
  case stops_runner
  then show ?thesis using assms(4) log_inv_cong [of r' r] by (simp add: stop_def)
next
  case elsewhere
  then show ?thesis using assms(4) by simp
qed

text \<open>
  C4: the log cap: with the real spawner and reads of at most the requested size, the captured output
  of a running job never exceeds its limit between operations, in any run; a job that has ended may
  hold one more read of each stream (8192 bytes), since the cap is not applied in the scan that ends
  it.
\<close>

theorem log_bound:
  assumes "placing os" and "reads_bounded os" and "os_spawn os = spawn_job sp"
    and "job_run os (new_runner n, w0) ops (r, w)" and "jobs r i = Some j"
  shows "(j_status j = RUNNING \<longrightarrow> length (j_output j) + length (j_error j) \<le> unat (j_max_log_bytes j)) \<and>
    length (j_output j) + length (j_error j) \<le> unat (j_max_log_bytes j) + 8192"
proof -
  have "log_inv r" using assms(4)
  proof (induction "(new_runner n, w0)" ops "(r, w)" arbitrary: r w rule: job_run.induct)
    case run_start
    then show ?case by (simp add: log_inv_def new_runner_def)
  next
    case (run_step ops r w op r' w')
    then show ?case using log_step [OF assms(2,3) job_run_inv [OF assms(1)]] by blast
  qed
  then show ?thesis using assms(5) by (auto simp: log_inv_def log_ok_def log_size_def)
qed

text \<open>Processes that write ten bytes at each read, started by the real spawner.\<close>

definition chatty_os :: "(int \<times> int) job_os" where
  "chatty_os = \<lparr>os_clock = (\<lambda>w. 5000000), os_sleep = (\<lambda>ms w. w),
     os_kill = (\<lambda>p s w. (0, w)), os_read = (\<lambda>fd n w. (Some (replicate (min n 10) (CHR ''x'')), w)),
     os_close = (\<lambda>fd w. w), os_waitpid = (\<lambda>p w. ((0, Other_Status), w)),
     os_stat = (\<lambda>w p. None), os_spawn = spawn_job slow_child,
     os_count = (\<lambda>g w. 1000), os_place = (\<lambda>ids i. ids @ [i])\<rparr>"

lemma chatty_facts:
  "placing chatty_os" "reads_bounded chatty_os" "os_spawn chatty_os = spawn_job slow_child"
  by (auto simp: placing_def reads_bounded_def chatty_os_def)

definition small_limits :: JobLimits where
  "small_limits = default_limits\<lparr>lim_log_bytes := 16, lim_child_processes := 64\<rparr>"

definition chatty_ops :: "job_op list" where
  "chatty_ops = [Submit ''yes'' small_limits, Tick 7 calm 5 10, Tick 8 calm 5 10, Tick 9 calm 5 10]"

definition chatty_run :: "runner \<times> int \<times> int" where
  "chatty_run = fold (perform chatty_os) chatty_ops (new_runner 2, (3, 0))"

lemma chatty_run: "job_run chatty_os (new_runner 2, (3, 0)) chatty_ops (fst chatty_run, snd chatty_run)"
  using performed [of chatty_os "(new_runner 2, (3, 0))" chatty_ops] by (simp add: chatty_run_def)

theorem log_bound_witness:
  "has_status (\<lambda>j. j_status j = RUNNING \<and> j_log_truncated j \<and> length (j_output j) + length (j_error j) \<le> 16)
     (fst chatty_run) ''job_1''"
proof -
  have "has_status (\<lambda>j. j_status j = RUNNING \<and> j_log_truncated j \<and> j_max_log_bytes j = 16) (fst chatty_run) ''job_1''"
    by code_simp
  then obtain j where j: "jobs (fst chatty_run) ''job_1'' = Some j" "j_status j = RUNNING"
      "j_log_truncated j" "j_max_log_bytes j = 16"
    by (auto simp: has_status_def split: option.splits)
  from log_bound [OF chatty_facts chatty_run j(1)] j show ?thesis by (simp add: has_status_def)
qed

text \<open>
  truncation keeps the newest bytes: what remains of each stream is its end, no more than half the
  limit of standard output when it is cut, the two together within the limit; a second enforcement
  changes nothing; and below the limit nothing is cut.
\<close>

theorem truncation_keeps_ends:
  assumes "enforce_job_log_cap j = (trimmed, j')"
  shows "(\<exists>a. j_output j = a @ j_output j') \<and> (\<exists>b. j_error j = b @ j_error j') \<and>
    length (j_output j') + length (j_error j') \<le> unat (j_max_log_bytes j) \<and>
    trimmed = (unat (j_max_log_bytes j) < length (j_output j) + length (j_error j)) \<and>
    (\<not> trimmed \<longrightarrow> j' = j) \<and> enforce_job_log_cap j' = (False, j')"
proof -
  have tail: "\<exists>a. xs = a @ take_last n xs" for n and xs :: string
    by (metis append_take_drop_id take_last_def)
  have "(\<exists>a. j_output j = a @ j_output j') \<and> (\<exists>b. j_error j = b @ j_error j')"
    using assms tail by (auto simp: enforce_job_log_cap_def Let_def split: if_splits)
  moreover have "length (j_output j') + length (j_error j') \<le> unat (j_max_log_bytes j)"
      "j_max_log_bytes j' = j_max_log_bytes j" "\<not> trimmed \<longrightarrow> j' = j"
    using log_cap_frame [OF assms] by (simp_all add: same_identity_def)
  moreover from this have "enforce_job_log_cap j' = (False, j')"
    by (simp add: enforce_job_log_cap_def)
  moreover have "trimmed = (unat (j_max_log_bytes j) < length (j_output j) + length (j_error j))"
    using assms by (auto simp: enforce_job_log_cap_def Let_def split: if_splits)
  ultimately show ?thesis by blast
qed

theorem truncation_keeps_ends_witness:
  "let j = sample_job\<lparr>j_output := ''0123456789'', j_error := ''abcdef'', j_max_log_bytes := 8\<rparr>
   in j_output (snd (enforce_job_log_cap j)) = ''6789'' \<and> j_error (snd (enforce_job_log_cap j)) = ''cdef'' \<and>
      enforce_job_log_cap (snd (enforce_job_log_cap j)) = (False, snd (enforce_job_log_cap j))"
proof -
  let ?j = "sample_job\<lparr>j_output := ''0123456789'', j_error := ''abcdef'', j_max_log_bytes := 8\<rparr>"
  have "j_output (snd (enforce_job_log_cap ?j)) = ''6789''" "j_error (snd (enforce_job_log_cap ?j)) = ''cdef''"
    by code_simp+
  then show ?thesis
    using truncation_keeps_ends [of ?j "fst (enforce_job_log_cap ?j)" "snd (enforce_job_log_cap ?j)"]
    by (simp add: Let_def)
qed

section \<open>Processes\<close>

text \<open>
  C8: the process cap: a scan of a running job that has neither exited nor run too long ends it with
  PROC_LIMIT exactly when its group has more processes than permitted, the leader's start time does
  not contradict the one recorded at the start, and the log did not overflow in the same scan: a
  job that overflows its log at every scan is never checked. The limit 0 is no exception, although
  \<open>docs/RESOURCE_GOVERNOR.md\<close> reads it as no limit: such a job ends as soon as its group has a process.
\<close>

theorem process_cap_exact:
  assumes "scan_job os now (j, w) = (j', w')" and "j_status j = RUNNING"
    and "read_stderr os (read_stdout os (j, w)) = (j1, w1)"
    and "reap os (j1, w1) = (False, j1, w2)" and "elapsed now (j_started_at_ms j) \<le> unat (j_max_runtime_ms j)"
  shows "j_status j' = PROC_LIMIT \<longleftrightarrow>
    log_size j1 \<le> unat (j_max_log_bytes j) \<and> \<not> leader_replaced os j1 w2 \<and>
    0 \<le> os_count os (j_process_group j) w2 \<and> j_max_child_processes j < os_count os (j_process_group j) w2"
proof -
  have same: "same_identity j j1" "j_status j1 = RUNNING" using reads_frame [OF assms(3)] assms(2) by auto
  have nl: "enforce_job_timeout os now (j1, w2) = (False, j1, w2)"
    using assms(5) same(1)
    by (simp add: enforce_job_timeout_def word_less_nat_alt unat_diff same_identity_def)
  have s: "scan_job os now (j, w) = (let (cut, j3) = enforce_job_log_cap j1 in
      if cut then (j3, w2) else snd (enforce_job_process_cap os now (j3, w2)))"
    unfolding scan_job_def Let_def assms(3,4) prod.case if_False nl fst_conv snd_conv by (rule refl)
  show ?thesis
  proof (cases "unat (j_max_log_bytes j) < log_size j1")
    case True
    then obtain j3 where c: "enforce_job_log_cap j1 = (True, j3)"
      using same(1) by (auto simp: enforce_job_log_cap_def log_size_def same_identity_def Let_def)
    then have "j' = j3" using assms(1) s by simp
    then show ?thesis using log_cap_frame [OF c] same(2) True by simp
  next
    case False
    then have "enforce_job_log_cap j1 = (False, j1)"
      using same(1) by (simp add: enforce_job_log_cap_def log_size_def same_identity_def)
    moreover obtain b j3 w3 where pc: "enforce_job_process_cap os now (j1, w2) = (b, j3, w3)"
      by (metis prod_cases3)
    ultimately have "j' = j3" using assms(1) s by simp
    with pc have "enforce_job_process_cap os now (j1, w2) = (b, j', w3)" by simp
    then show ?thesis
      using False same
      by (auto simp: enforce_job_process_cap_def Let_def same_identity_def split: if_splits prod.splits)
  qed
qed

theorem process_cap_exact_witness:
  "j_status (fst (scan_job chatty_os 7 (sample_job\<lparr>j_started_at_ms := 5, j_stdout_fd := 3\<rparr>, (3, 0)))) = PROC_LIMIT \<and>
   j_status (fst (scan_job chatty_os 7 (sample_job\<lparr>j_started_at_ms := 5, j_stdout_fd := 3, j_max_log_bytes := 9\<rparr>, (3, 0)))) \<noteq> PROC_LIMIT"
proof -
  let ?j = "sample_job\<lparr>j_started_at_ms := 5, j_stdout_fd := 3\<rparr>"
  let ?k = "?j\<lparr>j_max_log_bytes := 9\<rparr>"
  note defs = chatty_os_def sample_job_def new_job_def read_size_def
  have rj: "read_stderr chatty_os (read_stdout chatty_os (?j, (3, 0))) =
      (?j\<lparr>j_output := replicate 10 (CHR ''x''), j_bytes_written := 10\<rparr>, (3, 0))"
    and rk: "read_stderr chatty_os (read_stdout chatty_os (?k, (3, 0))) =
      (?k\<lparr>j_output := replicate 10 (CHR ''x''), j_bytes_written := 10\<rparr>, (3, 0))"
    by (simp_all add: read_stdout_def read_stderr_def defs)
  have ej: "reap chatty_os (?j\<lparr>j_output := replicate 10 (CHR ''x''), j_bytes_written := 10\<rparr>, (3, 0)) =
      (False, ?j\<lparr>j_output := replicate 10 (CHR ''x''), j_bytes_written := 10\<rparr>, (3, 0))"
    and ek: "reap chatty_os (?k\<lparr>j_output := replicate 10 (CHR ''x''), j_bytes_written := 10\<rparr>, (3, 0)) =
      (False, ?k\<lparr>j_output := replicate 10 (CHR ''x''), j_bytes_written := 10\<rparr>, (3, 0))"
    by (simp_all add: reap_def defs)
  obtain j1 w1 where sj: "scan_job chatty_os 7 (?j, (3, 0)) = (j1, w1)" by (metis surj_pair)
  obtain k1 v1 where sk: "scan_job chatty_os 7 (?k, (3, 0)) = (k1, v1)" by (metis surj_pair)
  have "j_status j1 = PROC_LIMIT"
    using process_cap_exact [OF sj _ rj ej]
    by (simp add: defs elapsed_def log_size_def leader_replaced_def)
  moreover have "j_status k1 \<noteq> PROC_LIMIT"
    using process_cap_exact [OF sk _ rk ek]
    by (simp add: defs elapsed_def log_size_def leader_replaced_def)
  ultimately show ?thesis by (simp add: sj sk)
qed

text \<open>A system in which \<open>kill\<close> does something else for all arguments but the allowed ones.\<close>

definition trapped ::
  "'w job_os \<Rightarrow> (int \<Rightarrow> signal \<Rightarrow> bool) \<Rightarrow> (int \<Rightarrow> signal \<Rightarrow> 'w \<Rightarrow> int \<times> 'w) \<Rightarrow> 'w job_os" where
  "trapped os allowed trap = os\<lparr>os_kill := (\<lambda>p s w. if allowed p s then os_kill os p s w else trap p s w)\<rparr>"

lemma group_signal_trapped:
  "(0 < j_process_group j \<Longrightarrow> allowed (- j_process_group j) SIGTERM) \<Longrightarrow>
   group_signal (trapped os allowed trap) j w = group_signal os j w"
  by (simp add: group_signal_def trapped_def)

lemma trapped_calls:
  "os_clock (trapped os allowed trap) = os_clock os" "os_sleep (trapped os allowed trap) = os_sleep os"
  "os_read (trapped os allowed trap) = os_read os" "os_close (trapped os allowed trap) = os_close os"
  "os_waitpid (trapped os allowed trap) = os_waitpid os" "os_stat (trapped os allowed trap) = os_stat os"
  "os_count (trapped os allowed trap) = os_count os"
  by (simp_all add: trapped_def)

lemma parts_trapped:
  "read_stdout (trapped os allowed trap) = read_stdout os"
  "read_stderr (trapped os allowed trap) = read_stderr os"
  "close_fd (trapped os allowed trap) = close_fd os"
  "leader_replaced (trapped os allowed trap) = leader_replaced os"
  unfolding read_stdout_def [abs_def] read_stderr_def [abs_def] close_fd_def [abs_def]
    leader_replaced_def [abs_def] trapped_calls by (rule refl)+

lemma reap_trapped: "reap (trapped os allowed trap) = reap os"
  unfolding reap_def job_exited_def trapped_calls parts_trapped by (rule refl)

lemma enforce_trapped:
  assumes "0 < j_process_group j \<Longrightarrow> allowed (- j_process_group j) SIGTERM"
  shows "enforce_job_timeout (trapped os allowed trap) now (j, w) = enforce_job_timeout os now (j, w)"
    and "enforce_job_process_cap (trapped os allowed trap) now (j, w) = enforce_job_process_cap os now (j, w)"
  using group_signal_trapped [of j allowed os trap w] assms
  by (simp_all add: enforce_job_timeout_def enforce_job_process_cap_def trapped_calls parts_trapped Let_def)

lemma scan_job_trapped:
  assumes "0 < j_process_group j \<Longrightarrow> allowed (- j_process_group j) SIGTERM"
  shows "scan_job (trapped os allowed trap) now (j, w) = scan_job os now (j, w)"
proof -
  obtain j1 w1 where rd: "read_stderr os (read_stdout os (j, w)) = (j1, w1)" by fastforce
  obtain b j2 w2 where re: "reap os (j1, w1) = (b, j2, w2)" by (metis prod_cases3)
  obtain b3 j3 w3 where ti: "enforce_job_timeout os now (j2, w2) = (b3, j3, w3)" by (metis prod_cases3)
  obtain b4 j4 where lo: "enforce_job_log_cap j3 = (b4, j4)" by fastforce
  have "j_process_group j2 = j_process_group j" "j_process_group j4 = j_process_group j"
    using reads_frame [OF rd] reap_frame [OF re] timeout_frame [OF ti] log_cap_frame [OF lo]
    by (simp_all add: same_identity_def)
  then show ?thesis
    using assms enforce_trapped(1) [of j2 allowed os trap now w2] enforce_trapped(2) [of j4 allowed os trap now w3]
    by (simp add: scan_job_def parts_trapped reap_trapped rd re ti lo)
qed

lemma terminate_trapped:
  "(\<And>s. 0 < g \<Longrightarrow> allowed (- g) s) \<Longrightarrow>
   terminate_group (trapped os allowed trap) g w = terminate_group os g w"
proof (cases "0 < g")
  case True
  assume "\<And>s. 0 < g \<Longrightarrow> allowed (- g) s"
  with True have "os_kill (trapped os allowed trap) (- g) = os_kill os (- g)"
    by (simp add: trapped_def fun_eq_iff)
  then show ?thesis unfolding terminate_group_def trapped_calls by (rule arg_cong)
qed (simp add: terminate_group_def)

text \<open>
  C12: a scan signals the job's own process group with SIGTERM and no other process, and a cancellation
  signals that group only: replacing what \<open>kill\<close> does for any other argument changes nothing.
\<close>

theorem signals_confined:
  "scan_job (trapped os (\<lambda>p s. 0 < j_process_group j \<and> p = - j_process_group j \<and> s = SIGTERM) trap) now (j, w) =
     scan_job os now (j, w) \<and>
   (jobs r i = Some j \<longrightarrow>
     cancel_job (trapped os (\<lambda>p s. j_status j = RUNNING \<and> 0 < j_process_group j \<and> p = - j_process_group j) trap) i (r, u) =
     cancel_job os i (r, u))"
proof
  show "scan_job (trapped os (\<lambda>p s. 0 < j_process_group j \<and> p = - j_process_group j \<and> s = SIGTERM) trap) now (j, w) =
     scan_job os now (j, w)"
    by (rule scan_job_trapped) simp
  show "jobs r i = Some j \<longrightarrow>
     cancel_job (trapped os (\<lambda>p s. j_status j = RUNNING \<and> 0 < j_process_group j \<and> p = - j_process_group j) trap) i (r, u) =
     cancel_job os i (r, u)"
    by (auto simp: cancel_job_def trapped_calls terminate_trapped)
qed

theorem signals_confined_witness:
  "cancel_job (trapped quiet_os (\<lambda>p s. j_status sample_job = RUNNING \<and> 0 < j_process_group sample_job \<and> p = - j_process_group sample_job)
       (\<lambda>p s w. (1, w @ [(0, s)]))) ''job_1'' ((new_runner 2)\<lparr>jobs := [''job_1'' \<mapsto> sample_job]\<rparr>, []) =
   cancel_job quiet_os ''job_1'' ((new_runner 2)\<lparr>jobs := [''job_1'' \<mapsto> sample_job]\<rparr>, [])"
  using signals_confined [of quiet_os sample_job "\<lambda>p s w. (1, w @ [(0, s)])" 0 "[]"
      "(new_runner 2)\<lparr>jobs := [''job_1'' \<mapsto> sample_job]\<rparr>" "''job_1''" "[]"] by simp

end
