(* ===== verification/Cgroup_Driver.thy ===== *)
theory Cgroup_Driver
  imports Process_Governor Procfs
begin

text \<open>
  \<open>CgroupDriver\<close> (\<open>src/governor/cgroup_driver.cpp\<close>, \<open>include/heidi-kernel/cgroup_driver.h\<close>):
  detection of the cgroup controllers and the limits written for a process. The file system is a
  parameter; a file is written by opening it, one \<open>write\<close> and closing it.
\<close>

unbundle bit_operations_syntax

section \<open>The driver\<close>

type_synonym capability = "8 word"

definition CAP_NONE :: capability where "CAP_NONE = 0"
definition CAP_CPU :: capability where "CAP_CPU = 1"
definition CAP_MEMORY :: capability where "CAP_MEMORY = 2"
definition CAP_PIDS :: capability where "CAP_PIDS = 4"

lemmas cap_defs = CAP_NONE_def CAP_CPU_def CAP_MEMORY_def CAP_PIDS_def

definition has_capability :: "capability \<Rightarrow> capability \<Rightarrow> bool" where
  "has_capability caps c \<longleftrightarrow> caps AND c \<noteq> 0"

record cgroup_driver =
  available :: bool
  enabled :: bool
  caps_found :: capability
  base_path :: string

record cgroup_result =
  cg_success :: bool
  cg_err :: int
  cg_detail :: string
  cg_applied :: capability

definition cg_init :: cgroup_result where
  "cg_init = \<lparr>cg_success = False, cg_err = 0, cg_detail = [], cg_applied = CAP_NONE\<rparr>"

text \<open>\<open>fs_statfs\<close> is the type of the file system of \<open>/sys/fs/cgroup\<close>, \<open>fs_controllers\<close> the content of \<open>cgroup.controllers\<close>; \<open>mkdir\<close> returns its \<open>errno\<close> or 0.\<close>

record 'w cgroup_fs =
  fs_statfs :: "'w \<Rightarrow> int option"
  fs_controllers :: "'w \<Rightarrow> string option"
  fs_mkdir :: "string \<Rightarrow> 'w \<Rightarrow> int \<times> 'w"
  fs_accessible :: "string \<Rightarrow> 'w \<Rightarrow> bool"
  fs_write :: "string \<Rightarrow> string \<Rightarrow> 'w \<Rightarrow> write_result \<times> 'w"
  fs_rmdir :: "string \<Rightarrow> 'w \<Rightarrow> 'w"
  fs_strerror :: "int \<Rightarrow> string"

definition EEXIST :: int where "EEXIST = 17"

definition kDefaultCgroupPath :: string where "kDefaultCgroupPath = ''/sys/fs/cgroup/heidi''"

definition kCpuPeriod :: nat where "kCpuPeriod = 100000"

section \<open>Detection\<close>

definition is_cgroup2 :: "'w cgroup_fs \<Rightarrow> 'w \<Rightarrow> bool" where
  "is_cgroup2 os w = (case fs_statfs os w of None \<Rightarrow> False | Some t \<Rightarrow> t = 0x63677270)"

text \<open>\<open>strtok\<close> with a blank and a newline as separators.\<close>

definition is_sep :: "char \<Rightarrow> bool" where
  "is_sep c \<longleftrightarrow> c = CHR '' '' \<or> c = CHR 0x0A"

function tokens :: "string \<Rightarrow> string list" where
  "tokens s = (let t = dropWhile is_sep s in
     if t = [] then []
     else takeWhile (\<lambda>c. \<not> is_sep c) t # tokens (dropWhile (\<lambda>c. \<not> is_sep c) t))"
  by pat_completeness auto
termination
proof (relation "measure length")
  fix s t :: string
  assume t: "t = dropWhile is_sep s" "t \<noteq> []"
  then have "\<not> is_sep (hd t)" using hd_dropWhile by metis
  then have "length (dropWhile (\<lambda>c. \<not> is_sep c) t) < length t"
    using t(2) length_dropWhile_le [of "\<lambda>c. \<not> is_sep c" "tl t"] by (cases t) auto
  also have "length t \<le> length s" using t(1) by (simp add: length_dropWhile_le)
  finally show "(dropWhile (\<lambda>c. \<not> is_sep c) t, s) \<in> measure length" by simp
qed simp

declare tokens.simps [simp del]

definition caps_of_tokens :: "string list \<Rightarrow> capability" where
  "caps_of_tokens ts =
     (if ''cpu'' \<in> set ts then CAP_CPU else CAP_NONE) OR
     (if ''memory'' \<in> set ts then CAP_MEMORY else CAP_NONE) OR
     (if ''pids'' \<in> set ts then CAP_PIDS else CAP_NONE)"

definition create_base_dir :: "'w cgroup_fs \<Rightarrow> cgroup_driver \<times> 'w \<Rightarrow> bool \<times> cgroup_driver \<times> 'w" where
  "create_base_dir os = (\<lambda>(d, w).
     (let d1 = d\<lparr>base_path := kDefaultCgroupPath\<rparr>;
          (e, w1) = fs_mkdir os kDefaultCgroupPath w
      in if e \<noteq> 0 \<and> e \<noteq> EEXIST then (False, d1, w1)
         else (fs_accessible os kDefaultCgroupPath w1, d1, w1)))"

definition detect :: "'w cgroup_fs \<Rightarrow> cgroup_driver \<times> 'w \<Rightarrow> bool \<times> cgroup_driver \<times> 'w" where
  "detect os = (\<lambda>(d, w).
     (if \<not> is_cgroup2 os w then (False, d, w)
      else (case fs_controllers os w of
        None \<Rightarrow> (False, d, w)
      | Some content \<Rightarrow>
          (let ts = (case fgets_n 256 content of None \<Rightarrow> [] | Some line \<Rightarrow> tokens line);
               caps = caps_of_tokens ts;
               d1 = d\<lparr>caps_found := caps\<rparr>
           in if caps = CAP_NONE then (False, d1, w) else create_base_dir os (d1, w)))))"

text \<open>The members' initial values, then the body of the constructor.\<close>

definition fresh_driver :: cgroup_driver where
  "fresh_driver = \<lparr>available = False, enabled = False, caps_found = CAP_NONE, base_path = []\<rparr>"

definition construct :: "'w cgroup_fs \<Rightarrow> cgroup_driver \<times> 'w \<Rightarrow> cgroup_driver \<times> 'w" where
  "construct os = (\<lambda>(d, w).
     (if \<not> enabled d then (d\<lparr>available := False\<rparr>, w)
      else let (ok, d', w') = detect os (d, w) in (d'\<lparr>available := ok\<rparr>, w')))"

definition set_enabled :: "bool \<Rightarrow> cgroup_driver \<Rightarrow> cgroup_driver" where
  "set_enabled b d = d\<lparr>enabled := b\<rparr>"

section \<open>Applying limits\<close>

definition cg_fail :: "int \<Rightarrow> string \<Rightarrow> cgroup_result" where
  "cg_fail e detail = cg_init\<lparr>cg_err := e, cg_detail := detail\<rparr>"

text \<open>
  One limit: nothing when it is absent or the controller is, else the value is written and the bit set
  if the file could be opened; the result of \<open>write\<close> is ignored.
\<close>

definition write_limit ::
  "'w cgroup_fs \<Rightarrow> cgroup_driver \<Rightarrow> capability \<Rightarrow> string \<Rightarrow> string option \<Rightarrow> capability \<times> 'w \<Rightarrow> capability \<times> 'w" where
  "write_limit os d cap path txt = (\<lambda>(applied, w).
     (case txt of
        None \<Rightarrow> (applied, w)
      | Some s \<Rightarrow>
          if \<not> has_capability (caps_found d) cap then (applied, w)
          else (case fs_write os path s w of
                  (Open_Failed e, w') \<Rightarrow> (applied, w')
                | (Wrote n e, w') \<Rightarrow> (applied OR cap, w'))))"

definition newline :: string where "newline = [CHR 0x0A]"

definition cpu_text :: "CpuPolicy \<Rightarrow> string option" where
  "cpu_text cpu = map_option
     (\<lambda>pct. show_nat (pct * kCpuPeriod div 100) @ '' '' @ show_nat kCpuPeriod @ newline) (max_pct cpu)"

definition mem_text :: "MemPolicy \<Rightarrow> string option" where
  "mem_text mem = map_option (\<lambda>b. show_nat b @ newline) (max_bytes mem)"

definition pids_text :: "PidsPolicy \<Rightarrow> string option" where
  "pids_text pids = map_option (\<lambda>n. show_nat n @ newline) (pids_max pids)"

definition pid_dir :: "cgroup_driver \<Rightarrow> int \<Rightarrow> string" where
  "pid_dir d pid = base_path d @ ''/'' @ show_int pid"

text \<open>The three limits one after the other.\<close>

definition all_limits ::
  "'w cgroup_fs \<Rightarrow> cgroup_driver \<Rightarrow> int \<Rightarrow> CpuPolicy \<Rightarrow> MemPolicy \<Rightarrow> PidsPolicy \<Rightarrow> 'w \<Rightarrow> capability \<times> 'w" where
  "all_limits os d pid cpu mem pids w =
     write_limit os d CAP_PIDS (pid_dir d pid @ ''/pids.max'') (pids_text pids)
       (write_limit os d CAP_MEMORY (pid_dir d pid @ ''/memory.max'') (mem_text mem)
         (write_limit os d CAP_CPU (pid_dir d pid @ ''/cpu.max'') (cpu_text cpu) (CAP_NONE, w)))"

definition cg_apply ::
  "'w cgroup_fs \<Rightarrow> int \<Rightarrow> CpuPolicy \<Rightarrow> MemPolicy \<Rightarrow> PidsPolicy \<Rightarrow> cgroup_driver \<Rightarrow> 'w \<Rightarrow> cgroup_result \<times> 'w" where
  "cg_apply os pid cpu mem pids d w =
     (if \<not> available d then (cg_init\<lparr>cg_success := True\<rparr>, w)
      else let dir = pid_dir d pid; (e, w1) = fs_mkdir os dir w in
        if e \<noteq> 0 \<and> e \<noteq> EEXIST then (cg_fail e (''failed to create cgroup: '' @ fs_strerror os e), w1)
        else (case fs_write os (dir @ ''/cgroup.procs'') (show_int pid) w1 of
          (Open_Failed e, w2) \<Rightarrow> (cg_fail e (''failed to open cgroup.procs: '' @ fs_strerror os e), w2)
        | (Wrote n e, w2) \<Rightarrow>
            if n \<noteq> int (length (show_int pid)) then (cg_fail e ''failed to write pid to cgroup.procs'', w2)
            else let (applied, w3) = all_limits os d pid cpu mem pids w2
              in (cg_init\<lparr>cg_success := True, cg_applied := applied\<rparr>, w3)))"

definition cleanup :: "'w cgroup_fs \<Rightarrow> int \<Rightarrow> cgroup_driver \<Rightarrow> 'w \<Rightarrow> 'w" where
  "cleanup os pid d w = (if \<not> available d then w else fs_rmdir os (pid_dir d pid) w)"

section \<open>A driver that is never switched on\<close>

datatype driver_op =
    Enable bool
  | Apply int CpuPolicy MemPolicy PidsPolicy
  | Cleanup int

text \<open>The operations of a client, in order, with the results of the applications.\<close>

fun drive ::
  "'w cgroup_fs \<Rightarrow> driver_op list \<Rightarrow> cgroup_driver \<times> 'w \<Rightarrow> cgroup_result list \<times> cgroup_driver \<times> 'w" where
  "drive os [] (d, w) = ([], d, w)"
| "drive os (Enable b # ops) (d, w) = drive os ops (set_enabled b d, w)"
| "drive os (Apply pid cpu mem pids # ops) (d, w) =
     (let (r, w1) = cg_apply os pid cpu mem pids d w; (rs, c) = drive os ops (d, w1) in (r # rs, c))"
| "drive os (Cleanup pid # ops) (d, w) = drive os ops (d, cleanup os pid d w)"

lemma drive_unavailable:
  "\<not> available d \<Longrightarrow> drive os ops (d, w) = (rs, d', w') \<Longrightarrow>
   \<not> available d' \<and> w' = w \<and> (\<forall>r \<in> set rs. r = cg_init\<lparr>cg_success := True\<rparr>)"
proof (induction ops arbitrary: d rs)
  case Nil
  then show ?case by simp
next
  case (Cons op ops)
  show ?case
  proof (cases op)
    case (Enable b)
    then show ?thesis using Cons.prems Cons.IH [of "set_enabled b d" rs] by (simp add: set_enabled_def)
  next
    case (Apply pid cpu mem pids)
    obtain rs1 c where r: "drive os ops (d, w) = (rs1, c)" by (metis surj_pair)
    then have "rs = cg_init\<lparr>cg_success := True\<rparr> # rs1" "c = (d', w')"
      using Cons.prems Apply by (simp_all add: cg_apply_def)
    then show ?thesis using Cons.IH [of d rs1] Cons.prems(1) r by simp
  next
    case (Cleanup pid)
    then show ?thesis using Cons.prems Cons.IH [of d rs] by (simp add: cleanup_def)
  qed
qed

text \<open>
  cgroup limits are never applied: the constructor looks at \<open>enabled_\<close> before anything can have
  set it, so whatever a client enables and applies afterwards on whatever system, the driver stays
  unavailable, touches nothing and reports success for every limit.
\<close>

theorem cgroup_never_applies:
  assumes "drive os ops (construct os (fresh_driver, w)) = (rs, d, w')"
  shows "w' = w \<and> \<not> available d \<and> (\<forall>r \<in> set rs. cg_success r \<and> cg_applied r = CAP_NONE)"
proof -
  have "construct os (fresh_driver, w) = (fresh_driver, w)" "\<not> available fresh_driver"
    by (simp_all add: construct_def fresh_driver_def)
  then show ?thesis
    using assms drive_unavailable [of fresh_driver os ops w rs d w'] by (auto simp: cg_init_def)
qed

text \<open>A system with all controllers, whose state is the list of files written.\<close>

definition demo_fs :: "(string \<times> string) list cgroup_fs" where
  "demo_fs = \<lparr>fs_statfs = (\<lambda>w. Some 0x63677270), fs_controllers = (\<lambda>w. Some (''cpu io memory pids'' @ newline)),
     fs_mkdir = (\<lambda>p w. (0, w)), fs_accessible = (\<lambda>p w. True),
     fs_write = (\<lambda>p s w. (Wrote (int (length s)) 0, w @ [(p, s)])), fs_rmdir = (\<lambda>p w. w),
     fs_strerror = (\<lambda>e. ''error'')\<rparr>"

theorem cgroup_never_applies_witness:
  "map cg_applied (fst (drive demo_fs [Enable True, Apply 7 empty_cpu \<lparr>max_bytes = Some 4096\<rparr> \<lparr>pids_max = None\<rparr>]
     (construct demo_fs (fresh_driver, [])))) = [CAP_NONE] \<and>
   snd (snd (drive demo_fs [Enable True, Apply 7 empty_cpu \<lparr>max_bytes = Some 4096\<rparr> \<lparr>pids_max = None\<rparr>]
     (construct demo_fs (fresh_driver, [])))) = []"
proof -
  let ?ops = "[Enable True, Apply 7 empty_cpu \<lparr>max_bytes = Some 4096\<rparr> \<lparr>pids_max = None\<rparr>]"
  obtain rs d w' where r: "drive demo_fs ?ops (construct demo_fs (fresh_driver, [])) = (rs, d, w')"
    by (metis prod_cases3)
  have "length (fst (drive demo_fs ?ops (construct demo_fs (fresh_driver, [])))) = 1" by code_simp
  then obtain x where "rs = [x]" unfolding r by (auto simp: length_Suc_conv)
  with cgroup_never_applies [OF r] show ?thesis unfolding r by simp
qed

section \<open>What a driver that is available would do\<close>

lemma has_capability_or:
  "has_capability (a OR b) c \<longleftrightarrow> has_capability a c \<or> has_capability b c"
  by (simp add: has_capability_def bit.conj_disj_distrib2 or_eq_0_iff)

lemma has_capability_single:
  "has_capability CAP_CPU CAP_CPU" "\<not> has_capability CAP_CPU CAP_MEMORY" "\<not> has_capability CAP_CPU CAP_PIDS"
  "\<not> has_capability CAP_MEMORY CAP_CPU" "has_capability CAP_MEMORY CAP_MEMORY"
  "\<not> has_capability CAP_MEMORY CAP_PIDS" "\<not> has_capability CAP_PIDS CAP_CPU"
  "\<not> has_capability CAP_PIDS CAP_MEMORY" "has_capability CAP_PIDS CAP_PIDS"
  "\<not> has_capability CAP_NONE c"
  by (simp_all add: has_capability_def cap_defs)

lemmas capability_simps = has_capability_or has_capability_single

text \<open>
  A system that notes every file it is told to write, with the text and what came of it, in order. Nothing of the driver can
  look at the notes.
\<close>

type_synonym note_entry = "string \<times> string \<times> write_result"

definition noting :: "'w cgroup_fs \<Rightarrow> ('w \<times> note_entry list) cgroup_fs" where
  "noting os = \<lparr>fs_statfs = (\<lambda>(w, xs). fs_statfs os w), fs_controllers = (\<lambda>(w, xs). fs_controllers os w),
     fs_mkdir = (\<lambda>p (w, xs). let (e, w') = fs_mkdir os p w in (e, w', xs)),
     fs_accessible = (\<lambda>p (w, xs). fs_accessible os p w),
     fs_write = (\<lambda>p s (w, xs). let (res, w') = fs_write os p s w in (res, w', xs @ [(p, s, res)])),
     fs_rmdir = (\<lambda>p (w, xs). (fs_rmdir os p w, xs)),
     fs_strerror = fs_strerror os\<rparr>"

lemma noting_simps [simp]:
  "fs_mkdir (noting os) p (w, xs) = (let (e, w') = fs_mkdir os p w in (e, w', xs))"
  "fs_write (noting os) p s (w, xs) = (let (res, w') = fs_write os p s w in (res, w', xs @ [(p, s, res)]))"
  "fs_strerror (noting os) = fs_strerror os"
  by (simp_all add: noting_def)

definition asked_of :: "note_entry list \<Rightarrow> (string \<times> string) list" where
  "asked_of xs = map (\<lambda>(p, s, res). (p, s)) xs"

text \<open>Some text could be written to the file: it was opened.\<close>

definition opened :: "string \<Rightarrow> note_entry list \<Rightarrow> bool" where
  "opened p xs \<longleftrightarrow> (\<exists>s n e. (p, s, Wrote n e) \<in> set xs)"

lemma note_simps [simp]:
  "asked_of [] = []" "asked_of (xs @ ys) = asked_of xs @ asked_of ys" "asked_of ((p, s, res) # xs) = (p, s) # asked_of xs"
  "\<not> opened p []" "opened p (xs @ ys) \<longleftrightarrow> opened p xs \<or> opened p ys"
  "opened p ((q, s, res) # xs) \<longleftrightarrow> p = q \<and> (\<exists>n e. res = Wrote n e) \<or> opened p xs"
  by (auto simp: asked_of_def opened_def)

lemma opened_asked: "opened p xs \<Longrightarrow> \<exists>s. (p, s) \<in> set (asked_of xs)"
  by (force simp: opened_def asked_of_def image_iff)

text \<open>
  The file and the text of each limit that is asked for and whose controller was detected: a CPU share of
  \<open>p\<close> percent is \<open>p * 1000\<close> microseconds in every 100000.
\<close>

definition limit_file :: "cgroup_driver \<Rightarrow> int \<Rightarrow> capability \<Rightarrow> string" where
  "limit_file d pid c = pid_dir d pid @
     (if c = CAP_CPU then ''/cpu.max'' else if c = CAP_MEMORY then ''/memory.max'' else ''/pids.max'')"

definition limits_due :: "cgroup_driver \<Rightarrow> int \<Rightarrow> CpuPolicy \<Rightarrow> MemPolicy \<Rightarrow> PidsPolicy \<Rightarrow> (string \<times> string) list" where
  "limits_due d pid cpu mem pids =
     (case max_pct cpu of Some p \<Rightarrow> if has_capability (caps_found d) CAP_CPU
        then [(limit_file d pid CAP_CPU, show_nat (p * 1000) @ '' 100000'' @ newline)] else [] | None \<Rightarrow> []) @
     (case max_bytes mem of Some b \<Rightarrow> if has_capability (caps_found d) CAP_MEMORY
        then [(limit_file d pid CAP_MEMORY, show_nat b @ newline)] else [] | None \<Rightarrow> []) @
     (case pids_max pids of Some n \<Rightarrow> if has_capability (caps_found d) CAP_PIDS
        then [(limit_file d pid CAP_PIDS, show_nat n @ newline)] else [] | None \<Rightarrow> [])"

definition procs_file :: "cgroup_driver \<Rightarrow> int \<Rightarrow> string" where
  "procs_file d pid = pid_dir d pid @ ''/cgroup.procs''"

lemma write_limit_noted:
  assumes "write_limit (noting os) d cap path txt (a, w, xs) = (a', w', xs')"
  shows "\<exists>ys. xs' = xs @ ys \<and> write_limit os d cap path txt (a, w) = (a', w') \<and>
    asked_of ys = (case txt of Some s \<Rightarrow> if has_capability (caps_found d) cap then [(path, s)] else [] | None \<Rightarrow> []) \<and>
    a' = (if opened path ys then a OR cap else a)"
proof (cases "txt = None \<or> \<not> has_capability (caps_found d) cap")
  case True
  then show ?thesis using assms by (intro exI [of _ "[]"]) (auto simp: write_limit_def split: option.splits)
next
  case False
  then obtain s where s: "txt = Some s" by auto
  obtain res u where wr: "fs_write os path s w = (res, u)" by (metis surj_pair)
  show ?thesis
    using assms False s wr
    by (intro exI [of _ "[(path, s, res)]"]) (cases res; auto simp: write_limit_def)
qed

lemma limit_files_differ:
  "limit_file d pid CAP_CPU \<noteq> limit_file d pid CAP_MEMORY" "limit_file d pid CAP_CPU \<noteq> limit_file d pid CAP_PIDS"
  "limit_file d pid CAP_MEMORY \<noteq> limit_file d pid CAP_PIDS" "limit_file d pid c \<noteq> procs_file d pid"
  by (simp_all add: limit_file_def procs_file_def cap_defs)

lemma show_period: "show_nat kCpuPeriod = ''100000''"
  by code_simp

lemma all_limits_noted:
  assumes "all_limits (noting os) d pid cpu mem pids (w, xs) = (a, w', xs')"
  shows "\<exists>ys. xs' = xs @ ys \<and> all_limits os d pid cpu mem pids w = (a, w') \<and> asked_of ys = limits_due d pid cpu mem pids \<and>
    (\<forall>c \<in> {CAP_CPU, CAP_MEMORY, CAP_PIDS}. has_capability a c \<longleftrightarrow> opened (limit_file d pid c) ys)"
proof -
  let ?f = "limit_file d pid"
  have files: "pid_dir d pid @ ''/cpu.max'' = ?f CAP_CPU" "pid_dir d pid @ ''/memory.max'' = ?f CAP_MEMORY"
    "pid_dir d pid @ ''/pids.max'' = ?f CAP_PIDS" by (simp_all add: limit_file_def cap_defs)
  obtain a1 u1 x1 where s1: "write_limit (noting os) d CAP_CPU (?f CAP_CPU) (cpu_text cpu) (CAP_NONE, w, xs) = (a1, u1, x1)"
    by (metis prod_cases3)
  obtain a2 u2 x2 where s2: "write_limit (noting os) d CAP_MEMORY (?f CAP_MEMORY) (mem_text mem) (a1, u1, x1) = (a2, u2, x2)"
    by (metis prod_cases3)
  have s3: "write_limit (noting os) d CAP_PIDS (?f CAP_PIDS) (pids_text pids) (a2, u2, x2) = (a, w', xs')"
    using assms by (simp add: all_limits_def files s1 s2)
  obtain y1 where y1: "x1 = xs @ y1" "write_limit os d CAP_CPU (?f CAP_CPU) (cpu_text cpu) (CAP_NONE, w) = (a1, u1)"
    "asked_of y1 = (case cpu_text cpu of Some s \<Rightarrow> if has_capability (caps_found d) CAP_CPU then [(?f CAP_CPU, s)] else [] | None \<Rightarrow> [])"
    "a1 = (if opened (?f CAP_CPU) y1 then CAP_NONE OR CAP_CPU else CAP_NONE)"
    using write_limit_noted [OF s1] by blast
  obtain y2 where y2: "x2 = x1 @ y2" "write_limit os d CAP_MEMORY (?f CAP_MEMORY) (mem_text mem) (a1, u1) = (a2, u2)"
    "asked_of y2 = (case mem_text mem of Some s \<Rightarrow> if has_capability (caps_found d) CAP_MEMORY then [(?f CAP_MEMORY, s)] else [] | None \<Rightarrow> [])"
    "a2 = (if opened (?f CAP_MEMORY) y2 then a1 OR CAP_MEMORY else a1)"
    using write_limit_noted [OF s2] by blast
  obtain y3 where y3: "xs' = x2 @ y3" "write_limit os d CAP_PIDS (?f CAP_PIDS) (pids_text pids) (a2, u2) = (a, w')"
    "asked_of y3 = (case pids_text pids of Some s \<Rightarrow> if has_capability (caps_found d) CAP_PIDS then [(?f CAP_PIDS, s)] else [] | None \<Rightarrow> [])"
    "a = (if opened (?f CAP_PIDS) y3 then a2 OR CAP_PIDS else a2)"
    using write_limit_noted [OF s3] by blast
  have only: "opened (?f c) y1 \<Longrightarrow> ?f c = ?f CAP_CPU" "opened (?f c) y2 \<Longrightarrow> ?f c = ?f CAP_MEMORY"
    "opened (?f c) y3 \<Longrightarrow> ?f c = ?f CAP_PIDS" for c
    using opened_asked [of "?f c" y1] opened_asked [of "?f c" y2] opened_asked [of "?f c" y3]
    by (auto simp: y1(3) y2(3) y3(3) split: option.splits if_splits)
  have bits: "has_capability a c \<longleftrightarrow> opened (?f c) (y1 @ y2 @ y3)" if "c \<in> {CAP_CPU, CAP_MEMORY, CAP_PIDS}" for c
    using that only [of c] limit_files_differ [of d pid]
    by (auto simp: y1(4) y2(4) y3(4) capability_simps)
  have "asked_of (y1 @ y2 @ y3) = limits_due d pid cpu mem pids"
    by (simp add: y1(3) y2(3) y3(3) limits_due_def cpu_text_def mem_text_def pids_text_def show_period
        split: option.splits) (simp add: kCpuPeriod_def mult.commute)
  moreover have "all_limits os d pid cpu mem pids w = (a, w')" by (simp add: all_limits_def files y1(2) y2(2) y3(2))
  ultimately show ?thesis using bits by (intro exI [of _ "y1 @ y2 @ y3"]) (simp add: y1(1) y2(1) y3(1))
qed

lemma cg_apply_available:
  assumes "available d" and "fs_mkdir os (pid_dir d pid) w = (e, w1)"
  shows "cg_apply os pid cpu mem pids d w =
    (if e \<notin> {0, EEXIST} then (cg_fail e (''failed to create cgroup: '' @ fs_strerror os e), w1)
     else (case fs_write os (procs_file d pid) (show_int pid) w1 of
         (Open_Failed e, w2) \<Rightarrow> (cg_fail e (''failed to open cgroup.procs: '' @ fs_strerror os e), w2)
       | (Wrote n e, w2) \<Rightarrow>
           if n \<noteq> int (length (show_int pid)) then (cg_fail e ''failed to write pid to cgroup.procs'', w2)
           else let (applied, w3) = all_limits os d pid cpu mem pids w2
             in (cg_init\<lparr>cg_success := True, cg_applied := applied\<rparr>, w3)))"
  using assms by (simp add: cg_apply_def procs_file_def Let_def)

lemma cg_fail_simps [simp]: "\<not> cg_success (cg_fail e m)" "cg_applied (cg_fail e m) = CAP_NONE"
  by (simp_all add: cg_fail_def cg_init_def)

text \<open>
  C34: every application of limits, on whatever system. An available driver whose directory exists or could be created
  writes the pid to \<open>cgroup.procs\<close>; it is successful exactly when this file could be opened and took all of the pid, and
  then it writes, in this order and only then, the CPU, memory and process limits that the message sets and whose controller
  was detected. A limit is marked as applied exactly when its file could be opened. A driver that is not available writes
  nothing, marks nothing and reports success; the constructor makes only such drivers (\<open>cgroup_never_applies\<close>).
\<close>

theorem cgroup_applied_bits:
  assumes "cg_apply (noting os) pid cpu mem pids d (w, []) = (r, w', xs)" and "c \<in> {CAP_CPU, CAP_MEMORY, CAP_PIDS}"
  shows "cg_apply os pid cpu mem pids d w = (r, w') \<and>
    asked_of xs = (if \<not> available d \<or> fst (fs_mkdir os (pid_dir d pid) w) \<notin> {0, EEXIST} then []
      else (procs_file d pid, show_int pid) # (if cg_success r then limits_due d pid cpu mem pids else [])) \<and>
    (cg_success r \<longleftrightarrow> available d \<longrightarrow> (\<exists>e. (procs_file d pid, show_int pid, Wrote (int (length (show_int pid))) e) \<in> set xs)) \<and>
    (has_capability (cg_applied r) c \<longleftrightarrow> opened (limit_file d pid c) xs)"
proof (cases "\<not> available d")
  case True
  then show ?thesis using assms by (auto simp: cg_apply_def cg_init_def capability_simps)
next
  case av: False
  obtain e w1 where mk: "fs_mkdir os (pid_dir d pid) w = (e, w1)" by (metis surj_pair)
  then have noted: "fs_mkdir (noting os) (pid_dir d pid) (w, []) = (e, w1, [])" by simp
  note app = assms(1) [unfolded cg_apply_available [of d "noting os" pid "(w, [])", OF av [simplified] noted]]
    cg_apply_available [OF av [simplified] mk, of cpu mem pids]
  show ?thesis
  proof (cases "e \<notin> {0, EEXIST}")
    case True
    then show ?thesis using app av by (auto simp: mk capability_simps)
  next
    case made: False
    obtain res w2 where wr: "fs_write os (procs_file d pid) (show_int pid) w1 = (res, w2)" by (metis surj_pair)
    show ?thesis
    proof (cases "res = Wrote (int (length (show_int pid))) (case res of Wrote n e \<Rightarrow> e)")
      case False
      then show ?thesis
        using app av made limit_files_differ(4) [of d pid c]
        by (cases res) (auto simp: mk wr capability_simps split: if_splits)
    next
      case full: True
      then obtain e2 where res: "res = Wrote (int (length (show_int pid))) e2" by blast
      obtain a w3 x3 where al: "all_limits (noting os) d pid cpu mem pids (w2, [(procs_file d pid, show_int pid, res)]) = (a, w3, x3)"
        by (metis prod_cases3)
      obtain ys where ys: "x3 = [(procs_file d pid, show_int pid, res)] @ ys" "all_limits os d pid cpu mem pids w2 = (a, w3)"
        "asked_of ys = limits_due d pid cpu mem pids" "has_capability a c \<longleftrightarrow> opened (limit_file d pid c) ys"
        using all_limits_noted [OF al] assms(2) by blast
      let ?r = "cg_init\<lparr>cg_success := True, cg_applied := a\<rparr>"
      have end_state: "r = ?r" "w' = w3" "xs = x3" "cg_apply os pid cpu mem pids d w = (?r, w3)"
        using app made al ys(2) by (auto simp: mk wr res)
      have "cg_success ?r" "cg_applied ?r = a" by simp_all
      then show ?thesis
        using av made ys(3,4) limit_files_differ(4) [of d pid c] unfolding end_state ys(1)
        by (auto simp: mk res)
    qed
  qed
qed

definition ready :: cgroup_driver where
  "ready = fst (construct demo_fs (set_enabled True fresh_driver, []))"

text \<open>A system that refuses to open \<open>memory.max\<close>: the CPU limit is marked, the memory limit is not.\<close>

definition half_fs :: "nat cgroup_fs" where
  "half_fs = \<lparr>fs_statfs = (\<lambda>w. None), fs_controllers = (\<lambda>w. None), fs_mkdir = (\<lambda>p w. (EEXIST, w)),
     fs_accessible = (\<lambda>p w. True),
     fs_write = (\<lambda>p s w. (if p = kDefaultCgroupPath @ ''/7/memory.max'' then Open_Failed 13 else Wrote (int (length s)) 0, w + 1)),
     fs_rmdir = (\<lambda>p w. w), fs_strerror = (\<lambda>e. ''error'')\<rparr>"

theorem cgroup_applied_bits_witness:
  "let (r, w) = cg_apply half_fs 7 (empty_cpu\<lparr>max_pct := Some 50\<rparr>) \<lparr>max_bytes = Some 4096\<rparr> \<lparr>pids_max = None\<rparr> ready 0
   in cg_success r \<and> has_capability (cg_applied r) CAP_CPU \<and> \<not> has_capability (cg_applied r) CAP_MEMORY \<and> w = 3"
proof -
  let ?run = "cg_apply (noting half_fs) 7 (empty_cpu\<lparr>max_pct := Some 50\<rparr>) \<lparr>max_bytes = Some 4096\<rparr> \<lparr>pids_max = None\<rparr> ready (0, [])"
  obtain r w xs where r: "?run = (r, w, xs)" by (metis prod_cases3)
  have "fst (snd ?run) = 3" by code_simp
  moreover have "snd (snd ?run) =
     [(kDefaultCgroupPath @ ''/7/cgroup.procs'', ''7'', Wrote 1 0),
      (kDefaultCgroupPath @ ''/7/cpu.max'', ''50000 100000'' @ newline, Wrote 13 0),
      (kDefaultCgroupPath @ ''/7/memory.max'', ''4096'' @ newline, Open_Failed 13)]"
    by code_simp
  moreover have "limit_file ready 7 CAP_CPU = kDefaultCgroupPath @ ''/7/cpu.max''"
    "limit_file ready 7 CAP_MEMORY = kDefaultCgroupPath @ ''/7/memory.max''"
    "procs_file ready 7 = kDefaultCgroupPath @ ''/7/cgroup.procs''" "show_int 7 = ''7''"
    by code_simp+
  ultimately show ?thesis
    using cgroup_applied_bits [OF r, of CAP_CPU] cgroup_applied_bits [OF r, of CAP_MEMORY]
    by (simp add: r)
qed

section \<open>Detection\<close>

lemma tokens_step:
  assumes "dropWhile is_sep s = t" and "t \<noteq> []"
  shows "tokens s = takeWhile (\<lambda>c. \<not> is_sep c) t # tokens (dropWhile (\<lambda>c. \<not> is_sep c) t)"
  using assms by (subst tokens.simps) simp

lemma tokens_blank:
  assumes "is_sep b"
  shows "tokens (b # r) = tokens r"
proof -
  have "dropWhile is_sep (b # r) = dropWhile is_sep r" using assms by simp
  then show ?thesis using tokens.simps [of "b # r"] tokens.simps [of r] by argo
qed

lemma tokens_word:
  assumes "t \<noteq> []" and "\<forall>c \<in> set t. \<not> is_sep c" and "is_sep b"
  shows "tokens (t @ b # r) = t # tokens r"
proof -
  have drop: "dropWhile is_sep (t @ b # r) = t @ b # r" using assms(1,2) by (cases t) auto
  have take: "takeWhile (\<lambda>c. \<not> is_sep c) (t @ b # r) = t"
    using assms(2,3) by (simp add: takeWhile_append)
  have rest: "dropWhile (\<lambda>c. \<not> is_sep c) (t @ b # r) = b # r"
    using assms(2,3) by (simp add: dropWhile_append)
  have "tokens (t @ b # r) = t # tokens (b # r)"
    using tokens_step [OF drop] unfolding take rest by blast
  then show ?thesis unfolding tokens_blank [OF assms(3)] .
qed

text \<open>The file as the kernel prints it: the names, separated by blanks, and a newline.\<close>

fun controllers_line :: "string list \<Rightarrow> string" where
  "controllers_line [] = newline"
| "controllers_line [n] = n @ newline"
| "controllers_line (n # ns) = n @ '' '' @ controllers_line ns"

lemma tokens_end: "tokens newline = []"
  by (simp add: newline_def tokens_blank is_sep_def tokens.simps [of "[]"])

lemma tokens_line:
  "list_all (\<lambda>n. n \<noteq> [] \<and> (\<forall>c \<in> set n. \<not> is_sep c)) names \<Longrightarrow> tokens (controllers_line names) = names"
proof (induction names rule: controllers_line.induct)
  case (2 n)
  then show ?case
    using tokens_word [of n "CHR 0x0A" "[]"] by (simp add: newline_def is_sep_def tokens.simps [of "[]"])
next
  case (3 n m ns)
  then show ?case
    using tokens_word [of n "CHR '' ''" "controllers_line (m # ns)"] by (simp add: is_sep_def)
qed (simp add: tokens_end)

lemma controllers_line_shape:
  "list_all (\<lambda>n. n \<noteq> [] \<and> (\<forall>c \<in> set n. \<not> is_sep c)) names \<Longrightarrow>
   \<exists>t. controllers_line names = t @ newline \<and> CHR 0x0A \<notin> set t"
proof (induction names rule: controllers_line.induct)
  case (2 n)
  then show ?case by (auto simp: is_sep_def)
next
  case (3 n m ns)
  then obtain t where "controllers_line (m # ns) = t @ newline" "CHR 0x0A \<notin> set t" by auto
  then show ?case using 3(2) by (intro exI [of _ "n @ '' '' @ t"]) (auto simp: is_sep_def)
qed simp

lemma controllers_line_fgets:
  assumes "list_all (\<lambda>n. n \<noteq> [] \<and> (\<forall>c \<in> set n. \<not> is_sep c)) names"
    and "length (controllers_line names) \<le> 255"
  shows "fgets_n 256 (controllers_line names) = Some (controllers_line names)"
proof -
  obtain t where t: "controllers_line names = t @ newline" "CHR 0x0A \<notin> set t"
    using controllers_line_shape [OF assms(1)] by blast
  then have "takeWhile (\<lambda>c. c \<noteq> CHR 0x0A) (t @ newline) = t"
    by (simp add: newline_def takeWhile_append)
  with t assms(2) show ?thesis by (simp add: fgets_n_def newline_def)
qed

text \<open>
  detection reads the controllers file exactly: on a line of controller names that fits the
  buffer, the capabilities found are exactly the known controllers it lists, and the driver becomes
  available only if there is one.
\<close>

theorem detect_reads_controllers:
  assumes "is_cgroup2 os w" and "fs_controllers os w = Some (controllers_line names)"
    and "list_all (\<lambda>n. n \<noteq> [] \<and> (\<forall>c \<in> set n. \<not> is_sep c)) names"
    and "length (controllers_line names) \<le> 255" and "detect os (d, w) = (ok, d', w')"
  shows "(has_capability (caps_found d') CAP_CPU \<longleftrightarrow> ''cpu'' \<in> set names) \<and>
    (has_capability (caps_found d') CAP_MEMORY \<longleftrightarrow> ''memory'' \<in> set names) \<and>
    (has_capability (caps_found d') CAP_PIDS \<longleftrightarrow> ''pids'' \<in> set names) \<and>
    (ok \<longrightarrow> caps_found d' \<noteq> CAP_NONE \<and> base_path d' = kDefaultCgroupPath)"
proof -
  have whole: "fgets_n 256 (controllers_line names) = Some (controllers_line names)"
    by (rule controllers_line_fgets [OF assms(3,4)])
  have caps: "caps_found d' = caps_of_tokens names"
    using assms(1,2,5) tokens_line [OF assms(3)]
    by (auto simp: detect_def whole create_base_dir_def Let_def split: if_splits prod.splits)
  have "ok \<longrightarrow> caps_of_tokens names \<noteq> CAP_NONE \<and> base_path d' = kDefaultCgroupPath"
    using assms(1,2,5) tokens_line [OF assms(3)]
    by (auto simp: detect_def whole create_base_dir_def Let_def split: if_splits prod.splits)
  then show ?thesis
    unfolding caps by (simp add: caps_of_tokens_def capability_simps)
qed

theorem detect_reads_controllers_witness:
  "let d = fst (snd (detect demo_fs (fresh_driver, [])))
   in has_capability (caps_found d) CAP_CPU \<and> has_capability (caps_found d) CAP_PIDS"
proof -
  let ?names = "[''cpu'', ''io'', ''memory'', ''pids'']"
  obtain ok d w' where r: "detect demo_fs (fresh_driver, []) = (ok, d, w')" by (metis prod_cases3)
  have "is_cgroup2 demo_fs []" "fs_controllers demo_fs [] = Some (controllers_line ?names)"
    "list_all (\<lambda>n. n \<noteq> [] \<and> (\<forall>c \<in> set n. \<not> is_sep c)) ?names" "length (controllers_line ?names) \<le> 255"
    by (simp_all add: demo_fs_def newline_def is_sep_def is_cgroup2_def)
  from detect_reads_controllers [OF this r] show ?thesis by (simp add: r)
qed

end
