(* ===== verification/Slots.thy ===== *)
theory Slots
  imports Prelude
begin

text \<open>
  The fixed arrays of \<open>GroupPolicyStore\<close>: slots with an \<open>in_use\<close> flag and a time stamp, searched
  from the first index on, the oldest one evicted when all are taken. The store keeps two such
  arrays (groups, process ids); what it needs of either is the locale \<open>slot_table\<close>.
\<close>

section \<open>The loops\<close>

text \<open>The first index whose entry satisfies a predicate.\<close>

fun find_slot :: "('e \<Rightarrow> bool) \<Rightarrow> 'e list \<Rightarrow> nat option" where
  "find_slot P [] = None"
| "find_slot P (e # es) = (if P e then Some 0 else map_option Suc (find_slot P es))"

text \<open>The search for the oldest entry in use; \<open>- 1\<close> is \<open>UINT64_MAX\<close>.\<close>

definition oldest_step :: "('e \<Rightarrow> bool) \<Rightarrow> ('e \<Rightarrow> 64 word) \<Rightarrow> 'e list \<Rightarrow> nat \<Rightarrow> 64 word \<times> nat \<Rightarrow> 64 word \<times> nat" where
  "oldest_step used stamp es i = (\<lambda>(oldest, idx).
     (if used (es ! i) \<and> stamp (es ! i) < oldest then (stamp (es ! i), i) else (oldest, idx)))"

definition oldest_index :: "('e \<Rightarrow> bool) \<Rightarrow> ('e \<Rightarrow> 64 word) \<Rightarrow> 'e list \<Rightarrow> nat" where
  "oldest_index used stamp es = snd (fold (oldest_step used stamp es) [0..<length es] (- 1, 0))"

section \<open>Searching\<close>

lemma option_eqI: "(\<And>v. x = Some v \<longleftrightarrow> y = Some v) \<Longrightarrow> x = y"
  by (cases x; cases y) auto

lemma find_slot_Some:
  "find_slot P es = Some i \<longleftrightarrow> i < length es \<and> P (es ! i) \<and> (\<forall>j < i. \<not> P (es ! j))"
proof (induction es arbitrary: i)
  case Nil
  then show ?case by simp
next
  case (Cons e es)
  show ?case
  proof (cases i)
    case 0
    then show ?thesis by simp
  next
    case (Suc k)
    then show ?thesis using Cons.IH [of k] by (auto simp: less_Suc_eq_0_disj)
  qed
qed

lemma find_slot_None: "find_slot P es = None \<longleftrightarrow> (\<forall>e \<in> set es. \<not> P e)"
  by (induction es) auto

lemma find_slot_unique:
  assumes "i < length es" and "P (es ! i)" and "\<forall>j < length es. P (es ! j) \<longrightarrow> j = i"
  shows "find_slot P es = Some i"
  unfolding find_slot_Some using assms by (metis less_trans nat_neq_iff)

lemma find_slot_replicate [simp]: "find_slot P (replicate n e) = (if P e \<and> 0 < n then Some 0 else None)"
  by (induction n) auto

section \<open>The oldest entry\<close>

definition oldest_upto :: "('e \<Rightarrow> bool) \<Rightarrow> ('e \<Rightarrow> 64 word) \<Rightarrow> 'e list \<Rightarrow> nat \<Rightarrow> 64 word \<times> nat \<Rightarrow> bool" where
  "oldest_upto used stamp es n = (\<lambda>(b, k).
     (b = - 1 \<and> k = 0 \<and> (\<forall>i < n. used (es ! i) \<longrightarrow> stamp (es ! i) = - 1)) \<or>
     (k < n \<and> used (es ! k) \<and> b = stamp (es ! k) \<and>
       (\<forall>i < n. used (es ! i) \<longrightarrow> b \<le> stamp (es ! i)) \<and> (\<forall>i < k. used (es ! i) \<longrightarrow> b < stamp (es ! i))))"

lemma max_stamp: "\<not> (x :: 64 word) < - 1 \<longleftrightarrow> x = - 1" "(- 1 :: 64 word) \<le> x \<longleftrightarrow> x = - 1"
  by (simp_all add: not_less word_order.extremum_unique)

lemma oldest_step_upto:
  assumes "oldest_upto used stamp es n r"
  shows "oldest_upto used stamp es (Suc n) (oldest_step used stamp es n r)"
proof -
  obtain b k where r: "r = (b, k)" by (cases r)
  show ?thesis
  proof (cases "used (es ! n) \<and> stamp (es ! n) < b")
    case True
    then show ?thesis using assms
      by (auto simp: r oldest_upto_def oldest_step_def less_Suc_eq max_stamp intro: less_imp_le order_less_le_trans)
  next
    case False
    then show ?thesis using assms
      by (auto simp: r oldest_upto_def oldest_step_def less_Suc_eq max_stamp not_less)
  qed
qed

lemma oldest_fold: "oldest_upto used stamp es n (fold (oldest_step used stamp es) [0..<n] (- 1, 0))"
proof (induction n)
  case 0
  then show ?case by (simp add: oldest_upto_def)
next
  case (Suc n)
  then show ?case using oldest_step_upto [OF Suc] by simp
qed

lemma oldest_index_full:
  assumes "es \<noteq> []" and "\<forall>e \<in> set es. used e" and "k = oldest_index used stamp es"
  shows "k < length es \<and> (\<forall>i < length es. stamp (es ! k) \<le> stamp (es ! i)) \<and> (\<forall>i < k. stamp (es ! k) < stamp (es ! i))"
proof -
  obtain b where "oldest_upto used stamp es (length es) (b, k)"
    using oldest_fold [of used stamp es "length es"] assms(3) unfolding oldest_index_def
    by (metis prod.collapse)
  then show ?thesis using assms(1,2) by (auto simp: oldest_upto_def)
qed

section \<open>The contract of a table\<close>

locale slot_table =
  fixes used :: "'e \<Rightarrow> bool" and stamp :: "'e \<Rightarrow> 64 word" and release :: "'e \<Rightarrow> 'e" and vacant :: 'e
  assumes release_unused: "\<not> used (release e)"
    and vacant_unused: "\<not> used vacant"
begin

definition in_use_count :: "'e list \<Rightarrow> nat" where
  "in_use_count es = length (filter used es)"

definition evicted :: "'e list \<Rightarrow> 'e list" where
  "evicted es = (let i = oldest_index used stamp es in es[i := release (es ! i)])"

lemma count_split:
  "i < length es \<Longrightarrow> in_use_count (es[i := e]) + (if used (es ! i) then 1 else 0) = in_use_count es + (if used e then 1 else 0)"
proof -
  assume i: "i < length es"
  have "es = take i es @ es ! i # drop (Suc i) es" using i by (rule id_take_nth_drop)
  then have "in_use_count es = in_use_count (take i es @ es ! i # drop (Suc i) es)" by simp
  moreover have "es[i := e] = take i es @ e # drop (Suc i) es" using i by (rule upd_conv_take_nth_drop)
  ultimately show ?thesis by (simp add: in_use_count_def)
qed

lemma count_le: "in_use_count es \<le> length es"
  by (simp add: in_use_count_def)

lemma count_replicate: "in_use_count (replicate n vacant) = 0"
  by (simp add: in_use_count_def vacant_unused)

lemma no_free_slot: "find_slot (\<lambda>e. \<not> used e) es = None \<longleftrightarrow> in_use_count es = length es"
proof -
  have "in_use_count es = length es \<longleftrightarrow> (\<forall>e \<in> set es. used e)"
    unfolding in_use_count_def by (metis filter_True length_filter_less linorder_not_less nle_le)
  then show ?thesis by (simp add: find_slot_None)
qed

text \<open>Putting a used entry into the free slot found counts one more.\<close>

lemma count_insert:
  assumes "find_slot (\<lambda>e. \<not> used e) es = Some i" and "used e"
  shows "in_use_count (es[i := e]) = Suc (in_use_count es)"
  using assms count_split [of i es e] by (auto simp: find_slot_Some)

text \<open>A full table loses one entry, and the slot found next is the one that became free.\<close>

lemma evicted_free:
  assumes "es \<noteq> []" and "in_use_count es = length es"
  shows "find_slot (\<lambda>e. \<not> used e) (evicted es) = Some (oldest_index used stamp es)"
    and "Suc (in_use_count (evicted es)) = in_use_count es"
proof -
  let ?i = "oldest_index used stamp es"
  have all: "\<forall>e \<in> set es. used e" using assms(2) no_free_slot [of es] by (simp add: find_slot_None)
  have i: "?i < length es" using oldest_index_full [OF assms(1) all refl] by blast
  then show "Suc (in_use_count (evicted es)) = in_use_count es"
    using count_split [OF i, of "release (es ! ?i)"] all release_unused
    by (simp add: evicted_def Let_def split: if_splits)
  show "find_slot (\<lambda>e. \<not> used e) (evicted es) = Some ?i"
    by (rule find_slot_unique) (use i all release_unused in \<open>auto simp: evicted_def Let_def nth_list_update\<close>)
qed

end

section \<open>Tables with keys\<close>

text \<open>A table in which no two entries in use have the same key is a finite map.\<close>

locale keyed_table = slot_table used stamp release vacant
  for used :: "'e \<Rightarrow> bool" and stamp :: "'e \<Rightarrow> 64 word" and release :: "'e \<Rightarrow> 'e" and vacant :: 'e +
  fixes key :: "'e \<Rightarrow> 'k" and val :: "'e \<Rightarrow> 'v"
begin

definition uniq :: "'e list \<Rightarrow> bool" where
  "uniq es \<longleftrightarrow> (\<forall>i < length es. \<forall>j < length es.
     used (es ! i) \<and> used (es ! j) \<and> key (es ! i) = key (es ! j) \<longrightarrow> i = j)"

definition table :: "'e list \<Rightarrow> 'k \<Rightarrow> 'v option" where
  "table es k = map_option (\<lambda>i. val (es ! i)) (find_slot (\<lambda>e. used e \<and> key e = k) es)"

lemma table_SomeI:
  assumes "uniq es" and "i < length es" and "used (es ! i)" and "key (es ! i) = k"
  shows "find_slot (\<lambda>e. used e \<and> key e = k) es = Some i"
  by (rule find_slot_unique) (use assms in \<open>auto simp: uniq_def\<close>)

lemma table_iff:
  assumes "uniq es"
  shows "table es k = Some v \<longleftrightarrow> (\<exists>i < length es. used (es ! i) \<and> key (es ! i) = k \<and> val (es ! i) = v)"
  using table_SomeI [OF assms, of _ k] by (fastforce simp: table_def find_slot_Some)

lemma table_None: "table es k = None \<longleftrightarrow> (\<forall>i < length es. used (es ! i) \<longrightarrow> key (es ! i) \<noteq> k)"
  unfolding table_def option.map_disc_iff find_slot_None by (metis in_set_conv_nth)

lemma uniq_update:
  assumes "uniq es" and "i < length es"
    and "used e \<longrightarrow> (\<forall>j < length es. j \<noteq> i \<and> used (es ! j) \<longrightarrow> key (es ! j) \<noteq> key e)"
  shows "uniq (es[i := e])"
  unfolding uniq_def
proof (intro allI impI, goal_cases)
  case (1 a b)
  then show ?case using assms by (cases "a = i"; cases "b = i") (auto simp: uniq_def)
qed

text \<open>Removing the entry at an index, then filling a free one.\<close>

lemma table_remove:
  assumes u: "uniq es" and "i < length es" and "used (es ! i)" and "\<not> used e"
  shows "table (es[i := e]) = (table es)(key (es ! i) := None)"
proof
  fix k
  have u': "uniq (es[i := e])" using uniq_update [OF u assms(2)] assms(4) by blast
  show "table (es[i := e]) k = ((table es)(key (es ! i) := None)) k"
  proof (cases "k = key (es ! i)")
    case True
    have "table (es[i := e]) k = None"
      using u assms(2-4) True by (auto simp: table_None uniq_def nth_list_update)
    then show ?thesis using True by simp
  next
    case False
    have "table (es[i := e]) k = Some v \<longleftrightarrow> table es k = Some v" for v
      unfolding table_iff [OF u'] table_iff [OF u] using assms(2,4) False by (auto simp: nth_list_update)
    then show ?thesis using False by (auto intro: option_eqI)
  qed
qed

lemma table_updated:
  assumes u: "uniq es" and i: "i < length es" and e: "used e"
    and other: "\<forall>j < length es. j \<noteq> i \<and> used (es ! j) \<longrightarrow> key (es ! j) \<noteq> key e"
    and old: "used (es ! i) \<longrightarrow> key (es ! i) = key e"
  shows "uniq (es[i := e]) \<and> table (es[i := e]) = (table es)(key e \<mapsto> val e)"
proof
  show u': "uniq (es[i := e])" using uniq_update [OF u i] other by blast
  show "table (es[i := e]) = (table es)(key e \<mapsto> val e)"
  proof
    fix k
    show "table (es[i := e]) k = ((table es)(key e \<mapsto> val e)) k"
    proof (cases "k = key e")
      case True
      have "table (es[i := e]) k = Some (val e)"
        unfolding table_iff [OF u'] by (intro exI [of _ i]) (simp add: i e True)
      then show ?thesis using True by simp
    next
      case False
      have "table (es[i := e]) k = table es k"
      proof (rule option_eqI)
        fix v
        have "used (es[i := e] ! j) \<and> key (es[i := e] ! j) = k \<and> val (es[i := e] ! j) = v \<longleftrightarrow>
            used (es ! j) \<and> key (es ! j) = k \<and> val (es ! j) = v" if "j < length es" for j
          using False old i by (cases "j = i") auto
        then show "table (es[i := e]) k = Some v \<longleftrightarrow> table es k = Some v"
          unfolding table_iff [OF u'] table_iff [OF u] by auto
      qed
      then show ?thesis using False by simp
    qed
  qed
qed

lemma table_fill:
  assumes "uniq es" and "i < length es" and "\<not> used (es ! i)" and "used e" and "table es (key e) = None"
  shows "uniq (es[i := e]) \<and> table (es[i := e]) = (table es)(key e \<mapsto> val e)"
  using assms table_updated [of es i e] by (simp add: table_None)

lemma table_replace:
  assumes "uniq es" and "i < length es" and "used (es ! i)" and "used e" and "key e = key (es ! i)"
  shows "uniq (es[i := e]) \<and> table (es[i := e]) = (table es)(key e \<mapsto> val e)"
proof -
  have "\<forall>j < length es. j \<noteq> i \<and> used (es ! j) \<longrightarrow> key (es ! j) \<noteq> key e"
    using assms(1-3,5) unfolding uniq_def by metis
  then show ?thesis using table_updated [OF assms(1,2,4)] assms(5) by simp
qed

lemma card_table:
  assumes "uniq es"
  shows "card (dom (table es)) = in_use_count es"
proof -
  let ?I = "{i. i < length es \<and> used (es ! i)}"
  have "dom (table es) = (\<lambda>i. key (es ! i)) ` ?I"
    unfolding dom_def table_None by auto
  moreover have "inj_on (\<lambda>i. key (es ! i)) ?I"
    using assms by (auto simp: uniq_def inj_on_def)
  ultimately show ?thesis by (simp add: card_image in_use_count_def length_filter_conv_card)
qed

lemma uniq_replicate: "uniq (replicate n vacant)" and table_replicate: "table (replicate n vacant) k = None"
  by (simp_all add: uniq_def table_def vacant_unused)

end

end
