(* ===== verification/Group_Policy_Store.thy ===== *)
theory Group_Policy_Store
  imports Gov_Rule Slots
begin

text \<open>
  \<open>GroupPolicyStore\<close> (\<open>src/governor/group_policy_store.cpp\<close>, \<open>include/heidi-kernel/group_policy_store.h\<close>):
  a table of policies by group name and a table of process ids, both of fixed size with eviction of
  the oldest entry. The file is not part of the build: it reads fields of the message
  (\<open>group\<close>, \<open>action\<close>, \<open>timeouts\<close>, \<open>mem.high_bytes\<close>) that \<open>gov_rule.h\<close> does not declare, so the
  message is a record of the fields read here. An array of characters is the text before its first
  NUL. The steady clock is an argument \<open>clk\<close>.
\<close>

section \<open>Data\<close>

definition kMaxGroupIdLen :: nat where "kMaxGroupIdLen = 32"
definition kMaxGroups :: nat where "kMaxGroups = 256"
definition kMaxPidGroupMap :: nat where "kMaxPidGroupMap = 8192"
definition kTimeIncrement :: "64 word" where "kTimeIncrement = 1000000000"

datatype ViolationAction = VA_NONE | WARN | SOFT_KILL | HARD_KILL

record GroupPolicy =
  group_id :: string
  last_update_ns :: "64 word"
  cpu_max_pct :: "nat option"
  cpu_quota_us :: "nat option"
  cpu_period_us :: "nat option"
  mem_max_bytes :: "nat option"
  mem_high_bytes :: "nat option"
  gp_pids_max :: "nat option"
  default_action :: "ViolationAction option"
  apply_deadline_ms :: "nat option"

record GroupEntry =
  policy :: GroupPolicy
  g_in_use :: bool

record PidEntry =
  p_group_id :: string
  last_seen_ns :: "64 word"
  p_in_use :: bool

record group_stats =
  group_count :: nat
  pid_group_map_count :: nat
  group_evictions :: nat
  pidmap_evictions :: nat

record store =
  groups :: "GroupEntry list"
  pid_map :: "PidEntry list"
  n_groups :: nat
  n_pids :: nat
  st_stats :: group_stats
  test_seq :: "64 word"

record group_mem =
  gm_max_bytes :: "nat option"
  gm_high_bytes :: "nat option"

record group_msg =
  gm_group :: "string option"
  gm_cpu :: "CpuPolicy option"
  gm_mem :: "group_mem option"
  gm_pids :: "PidsPolicy option"
  gm_action :: "ViolationAction option"
  gm_timeouts :: "nat option option"

definition empty_policy :: GroupPolicy where
  "empty_policy = \<lparr>group_id = [], last_update_ns = 0, cpu_max_pct = None, cpu_quota_us = None,
     cpu_period_us = None, mem_max_bytes = None, mem_high_bytes = None, gp_pids_max = None,
     default_action = None, apply_deadline_ms = None\<rparr>"

definition empty_group :: GroupEntry where
  "empty_group = \<lparr>policy = empty_policy, g_in_use = False\<rparr>"

definition empty_pid :: PidEntry where
  "empty_pid = \<lparr>p_group_id = [], last_seen_ns = 0, p_in_use = False\<rparr>"

definition no_stats :: group_stats where
  "no_stats = \<lparr>group_count = 0, pid_group_map_count = 0, group_evictions = 0, pidmap_evictions = 0\<rparr>"

definition new_store :: store where
  "new_store = \<lparr>groups = replicate kMaxGroups empty_group, pid_map = replicate kMaxPidGroupMap empty_pid,
     n_groups = 0, n_pids = 0, st_stats = no_stats, test_seq = 0\<rparr>"

section \<open>Texts and time\<close>

text \<open>\<open>strncmp\<close> of a stored name and a text given as a pointer.\<close>

definition strncmp_eq :: "string \<Rightarrow> string \<Rightarrow> bool" where
  "strncmp_eq a b \<longleftrightarrow> take kMaxGroupIdLen a = take kMaxGroupIdLen (c_str b)"

definition get_time :: "64 word \<Rightarrow> store \<Rightarrow> 64 word" where
  "get_time clk s = (if test_seq s \<noteq> 0 then test_seq s else clk)"

definition store_tick :: "store \<Rightarrow> store" where
  "store_tick s = (if test_seq s \<noteq> 0 then s\<lparr>test_seq := test_seq s + kTimeIncrement\<rparr> else s)"

definition set_time_for_test :: "64 word \<Rightarrow> store \<Rightarrow> store" where
  "set_time_for_test t s = s\<lparr>test_seq := t\<rparr>"

definition has_any_policy :: "GroupPolicy \<Rightarrow> bool" where
  "has_any_policy p \<longleftrightarrow> cpu_max_pct p \<noteq> None \<or> cpu_quota_us p \<noteq> None \<or> cpu_period_us p \<noteq> None \<or>
     mem_max_bytes p \<noteq> None \<or> mem_high_bytes p \<noteq> None \<or> gp_pids_max p \<noteq> None \<or>
     default_action p \<noteq> None \<or> apply_deadline_ms p \<noteq> None"

section \<open>Groups\<close>

definition first_some :: "'a option \<Rightarrow> 'a option \<Rightarrow> 'a option" where
  "first_some x y = (case x of None \<Rightarrow> y | Some _ \<Rightarrow> x)"

text \<open>The update of a known group: what the message sets, field by field.\<close>

definition merge_policy :: "group_msg \<Rightarrow> 64 word \<Rightarrow> GroupPolicy \<Rightarrow> GroupPolicy" where
  "merge_policy m t p = p\<lparr>last_update_ns := t,
     cpu_max_pct := first_some (Option.bind (gm_cpu m) max_pct) (cpu_max_pct p),
     mem_max_bytes := first_some (Option.bind (gm_mem m) gm_max_bytes) (mem_max_bytes p),
     mem_high_bytes := first_some (Option.bind (gm_mem m) gm_high_bytes) (mem_high_bytes p),
     gp_pids_max := first_some (Option.bind (gm_pids m) pids_max) (gp_pids_max p),
     default_action := first_some (gm_action m) (default_action p),
     apply_deadline_ms := first_some (Option.bind (gm_timeouts m) (\<lambda>d. d)) (apply_deadline_ms p)\<rparr>"

definition is_group :: "string \<Rightarrow> GroupEntry \<Rightarrow> bool" where
  "is_group g e \<longleftrightarrow> g_in_use e \<and> strncmp_eq (group_id (policy e)) g"

definition fresh_group :: "string \<Rightarrow> 64 word \<Rightarrow> GroupEntry" where
  "fresh_group g t = \<lparr>policy = empty_policy\<lparr>group_id := c_str g, last_update_ns := t\<rparr>, g_in_use = True\<rparr>"

definition insert_group :: "string \<Rightarrow> 64 word \<Rightarrow> store \<Rightarrow> store option" where
  "insert_group g clk s = (case find_slot (\<lambda>e. \<not> g_in_use e) (groups s) of
      None \<Rightarrow> None
    | Some i \<Rightarrow> Some (s\<lparr>groups := (groups s)[i := fresh_group g (get_time clk s)], n_groups := n_groups s + 1\<rparr>))"

definition group_stamp :: "GroupEntry \<Rightarrow> 64 word" where
  "group_stamp e = last_update_ns (policy e)"

definition release_group :: "GroupEntry \<Rightarrow> GroupEntry" where
  "release_group e = e\<lparr>g_in_use := False\<rparr>"

definition evict_oldest_group :: "store \<Rightarrow> store" where
  "evict_oldest_group s = (let i = oldest_index g_in_use group_stamp (groups s) in
     s\<lparr>groups := (groups s)[i := release_group (groups s ! i)],
       n_groups := (if 0 < n_groups s then n_groups s - 1 else n_groups s)\<rparr>)"

definition count_group_eviction :: "store \<Rightarrow> store" where
  "count_group_eviction s = s\<lparr>st_stats := (st_stats s)\<lparr>group_evictions := group_evictions (st_stats s) + 1\<rparr>\<rparr>"

text \<open>The parameter \<open>group_id\<close> of the code is not used: the name is the one in the message.\<close>

definition upsert_group :: "64 word \<Rightarrow> string \<Rightarrow> group_msg \<Rightarrow> store \<Rightarrow> bool \<times> store" where
  "upsert_group clk group_id_arg m s = (case gm_group m of
      None \<Rightarrow> (False, s)
    | Some g \<Rightarrow>
        if kMaxGroupIdLen < length g then (False, s)
        else (case find_slot (is_group g) (groups s) of
          Some i \<Rightarrow> (let e = groups s ! i in
            (True, s\<lparr>groups := (groups s)[i := e\<lparr>policy := merge_policy m (get_time clk s) (policy e)\<rparr>]\<rparr>))
        | None \<Rightarrow> (case insert_group g clk s of
            Some s' \<Rightarrow> (True, s')
          | None \<Rightarrow> (let s1 = count_group_eviction (evict_oldest_group s) in
              (case insert_group g clk s1 of Some s' \<Rightarrow> (True, s') | None \<Rightarrow> (False, s1))))))"

definition get_group :: "store \<Rightarrow> string \<Rightarrow> GroupPolicy option" where
  "get_group s g = map_option (\<lambda>i. policy (groups s ! i)) (find_slot (is_group g) (groups s))"

section \<open>Process ids\<close>

text \<open>The entry in use whose index is the process id.\<close>

definition pid_slot :: "store \<Rightarrow> int \<Rightarrow> nat option" where
  "pid_slot s pid =
     find_slot (\<lambda>i. p_in_use (pid_map s ! i) \<and> as_int32 (int i) = pid) [0..<length (pid_map s)]"

definition fresh_pid :: "string \<Rightarrow> 64 word \<Rightarrow> PidEntry" where
  "fresh_pid g t = \<lparr>p_group_id = take kMaxGroupIdLen (c_str g), last_seen_ns = t, p_in_use = True\<rparr>"

definition insert_pid :: "string \<Rightarrow> 64 word \<Rightarrow> store \<Rightarrow> store option" where
  "insert_pid g clk s = (case find_slot (\<lambda>e. \<not> p_in_use e) (pid_map s) of
      None \<Rightarrow> None
    | Some i \<Rightarrow> Some (s\<lparr>pid_map := (pid_map s)[i := fresh_pid g (get_time clk s)], n_pids := n_pids s + 1\<rparr>))"

definition release_pid :: "PidEntry \<Rightarrow> PidEntry" where
  "release_pid e = e\<lparr>p_in_use := False\<rparr>"

definition evict_oldest_pid_entry :: "store \<Rightarrow> store" where
  "evict_oldest_pid_entry s = (let i = oldest_index p_in_use last_seen_ns (pid_map s) in
     s\<lparr>pid_map := (pid_map s)[i := release_pid (pid_map s ! i)],
       n_pids := (if 0 < n_pids s then n_pids s - 1 else n_pids s)\<rparr>)"

definition count_pid_eviction :: "store \<Rightarrow> store" where
  "count_pid_eviction s = s\<lparr>st_stats := (st_stats s)\<lparr>pidmap_evictions := pidmap_evictions (st_stats s) + 1\<rparr>\<rparr>"

definition map_pid_to_group :: "64 word \<Rightarrow> int \<Rightarrow> string \<Rightarrow> store \<Rightarrow> bool \<times> store" where
  "map_pid_to_group clk pid g s = (case pid_slot s pid of
      Some i \<Rightarrow> (let e = pid_map s ! i in
        (True, s\<lparr>pid_map := (pid_map s)[i := e\<lparr>p_group_id := take kMaxGroupIdLen (c_str g), last_seen_ns := get_time clk s\<rparr>]\<rparr>))
    | None \<Rightarrow> (case insert_pid g clk s of
        Some s' \<Rightarrow> (True, s')
      | None \<Rightarrow> (let s1 = count_pid_eviction (evict_oldest_pid_entry s) in
          (case insert_pid g clk s1 of Some s' \<Rightarrow> (True, s') | None \<Rightarrow> (False, s1)))))"

definition get_group_for_pid :: "store \<Rightarrow> int \<Rightarrow> string option" where
  "get_group_for_pid s pid = map_option (\<lambda>i. p_group_id (pid_map s ! i)) (pid_slot s pid)"

section \<open>The whole store\<close>

definition store_stats :: "store \<Rightarrow> group_stats" where
  "store_stats s = (st_stats s)\<lparr>group_count := n_groups s, pid_group_map_count := n_pids s\<rparr>"

definition clear :: "store \<Rightarrow> store" where
  "clear s = s\<lparr>groups := map (\<lambda>_. empty_group) (groups s), pid_map := map (\<lambda>_. empty_pid) (pid_map s),
     n_groups := 0, n_pids := 0, st_stats := no_stats\<rparr>"

datatype store_op =
    Upsert string group_msg
  | Map_Pid int string
  | Clear
  | Tick
  | Set_Time "64 word"

fun store_step :: "64 word \<times> store_op \<Rightarrow> store \<Rightarrow> store" where
  "store_step (clk, Upsert g m) s = snd (upsert_group clk g m s)"
| "store_step (clk, Map_Pid pid g) s = snd (map_pid_to_group clk pid g s)"
| "store_step (clk, Clear) s = clear s"
| "store_step (clk, Tick) s = store_tick s"
| "store_step (clk, Set_Time t) s = set_time_for_test t s"

definition store_run :: "(64 word \<times> store_op) list \<Rightarrow> store \<Rightarrow> store" where
  "store_run ops s = fold store_step ops s"

section \<open>The two tables\<close>

lemmas entry_simps = release_group_def release_pid_def empty_group_def empty_pid_def group_stamp_def
  fresh_group_def fresh_pid_def

interpretation gt: keyed_table g_in_use group_stamp release_group empty_group "\<lambda>e. group_id (policy e)" policy
  by unfold_locales (simp_all add: entry_simps)

interpretation pt: slot_table p_in_use last_seen_ns release_pid empty_pid
  by unfold_locales (simp_all add: entry_simps)

text \<open>The groups as a map from names to policies.\<close>

definition group_table :: "store \<Rightarrow> string \<Rightarrow> GroupPolicy option" where
  "group_table s k = map_option (\<lambda>i. policy (groups s ! i))
     (find_slot (\<lambda>e. g_in_use e \<and> group_id (policy e) = k) (groups s))"

lemma group_table_gt: "group_table s = gt.table (groups s)"
  by (simp add: fun_eq_iff group_table_def gt.table_def)

definition name_ok :: "string \<Rightarrow> bool" where
  "name_ok g \<longleftrightarrow> length g \<le> kMaxGroupIdLen \<and> CHR 0x00 \<notin> set g"

definition store_inv :: "store \<Rightarrow> bool" where
  "store_inv s \<longleftrightarrow> length (groups s) = kMaxGroups \<and> length (pid_map s) = kMaxPidGroupMap \<and>
     n_groups s = length (filter g_in_use (groups s)) \<and> n_pids s = length (filter p_in_use (pid_map s)) \<and>
     gt.uniq (groups s) \<and> (\<forall>e \<in> set (groups s). g_in_use e \<longrightarrow> name_ok (group_id (policy e)))"

lemma store_inv_counts:
  "store_inv s \<Longrightarrow> n_groups s = gt.in_use_count (groups s) \<and> n_pids s = pt.in_use_count (pid_map s)"
  by (simp add: store_inv_def gt.in_use_count_def pt.in_use_count_def)

lemma name_ok_c_str: "length g \<le> kMaxGroupIdLen \<Longrightarrow> name_ok (c_str g)"
  by (auto simp: name_ok_def c_str_def dest: set_takeWhileD intro: order_trans [OF length_takeWhile_le])

lemma take_c_str [simp]: "length g \<le> kMaxGroupIdLen \<Longrightarrow> take kMaxGroupIdLen (c_str g) = c_str g"
  using name_ok_c_str by (simp add: name_ok_def)

lemma find_slot_cong: "(\<And>e. e \<in> set es \<Longrightarrow> P e = Q e) \<Longrightarrow> find_slot P es = find_slot Q es"
  by (induction es) auto

lemma find_group:
  assumes "store_inv s"
  shows "find_slot (is_group g) (groups s) =
    find_slot (\<lambda>e. g_in_use e \<and> group_id (policy e) = take kMaxGroupIdLen (c_str g)) (groups s)"
  by (rule find_slot_cong) (use assms in \<open>auto simp: store_inv_def is_group_def strncmp_eq_def name_ok_def\<close>)

lemma get_group_table: "store_inv s \<Longrightarrow> get_group s g = group_table s (take kMaxGroupIdLen (c_str g))"
  by (simp add: get_group_def group_table_def find_group)

lemma new_store_inv: "store_inv new_store"
  using gt.uniq_replicate [of kMaxGroups]
  by (simp add: store_inv_def new_store_def entry_simps)

section \<open>Groups\<close>

definition fresh_policy :: "string \<Rightarrow> 64 word \<Rightarrow> GroupPolicy" where
  "fresh_policy g t = empty_policy\<lparr>group_id := c_str g, last_update_ns := t\<rparr>"

lemma fresh_group_simps [simp]:
  "g_in_use (fresh_group g t)" "policy (fresh_group g t) = fresh_policy g t" "group_id (fresh_policy g t) = c_str g"
  by (simp_all add: fresh_group_def fresh_policy_def)

text \<open>The group that is evicted from a full table.\<close>

definition oldest_group :: "store \<Rightarrow> string" where
  "oldest_group s = group_id (policy (groups s ! oldest_index g_in_use group_stamp (groups s)))"

lemma insert_group_table:
  assumes "store_inv s" and "n_groups s < kMaxGroups" and "group_table s (c_str g) = None" and "length g \<le> kMaxGroupIdLen"
  shows "\<exists>s'. insert_group g clk s = Some s' \<and> store_inv s' \<and> n_groups s' = n_groups s + 1 \<and>
    group_table s' = (group_table s)(c_str g \<mapsto> fresh_policy g (get_time clk s)) \<and> st_stats s' = st_stats s"
proof -
  let ?e = "fresh_group g (get_time clk s)"
  have "gt.in_use_count (groups s) \<noteq> length (groups s)"
    using assms(1,2) store_inv_counts [OF assms(1)] by (simp add: store_inv_def)
  then obtain i where i: "find_slot (\<lambda>e. \<not> g_in_use e) (groups s) = Some i"
    using gt.no_free_slot by blast
  have u: "gt.uniq (groups s)" using assms(1) by (simp add: store_inv_def)
  have ii: "i < length (groups s)" "\<not> g_in_use (groups s ! i)" using i by (simp_all add: find_slot_Some)
  have fill: "gt.uniq ((groups s)[i := ?e])"
    "gt.table ((groups s)[i := ?e]) = (gt.table (groups s))(c_str g \<mapsto> fresh_policy g (get_time clk s))"
    using gt.table_fill [OF u ii, of ?e] assms(3) by (simp_all add: group_table_gt)
  have count: "length (filter g_in_use ((groups s)[i := ?e])) = Suc (length (filter g_in_use (groups s)))"
    using gt.count_insert [OF i, of ?e] by (simp add: gt.in_use_count_def)
  have names: "\<forall>e \<in> set ((groups s)[i := ?e]). g_in_use e \<longrightarrow> name_ok (group_id (policy e))"
    using assms(1) name_ok_c_str [OF assms(4)] set_update_subset_insert [of "groups s" i ?e]
    by (auto simp: store_inv_def)
  let ?s = "s\<lparr>groups := (groups s)[i := ?e], n_groups := n_groups s + 1\<rparr>"
  have "insert_group g clk s = Some ?s" by (simp add: insert_group_def i)
  moreover have "store_inv ?s" using assms(1) fill(1) count names by (simp add: store_inv_def)
  ultimately show ?thesis using fill(2) by (simp add: group_table_gt)
qed

lemma evict_group_table:
  assumes "store_inv s" and "n_groups s = kMaxGroups"
  shows "store_inv (count_group_eviction (evict_oldest_group s))"
    and "n_groups (count_group_eviction (evict_oldest_group s)) < kMaxGroups"
    and "group_table (count_group_eviction (evict_oldest_group s)) = (group_table s)(oldest_group s := None)"
proof -
  let ?i = "oldest_index g_in_use group_stamp (groups s)"
  let ?s = "count_group_eviction (evict_oldest_group s)"
  have u: "gt.uniq (groups s)" and ne: "groups s \<noteq> []" using assms(1) by (auto simp: store_inv_def kMaxGroups_def)
  have full: "gt.in_use_count (groups s) = length (groups s)"
    using assms store_inv_counts [OF assms(1)] by (simp add: store_inv_def)
  then have all: "\<forall>e \<in> set (groups s). g_in_use e"
    using gt.no_free_slot [of "groups s"] by (simp add: find_slot_None)
  have i: "?i < length (groups s)" using oldest_index_full [OF ne all refl] by blast
  have used: "g_in_use (groups s ! ?i)" using all i by simp
  have gs: "groups ?s = gt.evicted (groups s)" "n_groups ?s = n_groups s - 1" "pid_map ?s = pid_map s" "n_pids ?s = n_pids s"
    by (simp_all add: count_group_eviction_def evict_oldest_group_def gt.evicted_def Let_def)
  have "gt.uniq (gt.evicted (groups s))"
    unfolding gt.evicted_def Let_def using gt.uniq_update [OF u i] by (simp add: gt.release_unused)
  moreover have "\<forall>e \<in> set (gt.evicted (groups s)). g_in_use e \<longrightarrow> name_ok (group_id (policy e))"
    using assms(1) set_update_subset_insert [of "groups s" ?i "release_group (groups s ! ?i)"] gt.release_unused
    unfolding gt.evicted_def Let_def store_inv_def by blast
  moreover have "length (gt.evicted (groups s)) = kMaxGroups"
    using assms(1) by (simp add: gt.evicted_def Let_def store_inv_def)
  moreover have "length (filter g_in_use (gt.evicted (groups s))) = n_groups s - 1"
    using gt.evicted_free(2) [OF ne full] store_inv_counts [OF assms(1)] by (simp add: gt.in_use_count_def)
  ultimately show "store_inv ?s"
    using assms(1) unfolding store_inv_def gs by simp
  show "n_groups ?s < kMaxGroups" using gs(2) assms(2) by (simp add: kMaxGroups_def)
  show "group_table ?s = (group_table s)(oldest_group s := None)"
    unfolding group_table_gt gs(1) gt.evicted_def Let_def oldest_group_def
    by (rule gt.table_remove [OF u i used gt.release_unused])
qed

text \<open>The evicted group has the smallest stamp of the table.\<close>

lemma oldest_group_oldest:
  assumes "store_inv s" and "n_groups s = kMaxGroups"
  shows "\<exists>p. group_table s (oldest_group s) = Some p \<and>
    (\<forall>h q. group_table s h = Some q \<longrightarrow> last_update_ns p \<le> last_update_ns q)"
proof -
  let ?i = "oldest_index g_in_use group_stamp (groups s)"
  have u: "gt.uniq (groups s)" and ne: "groups s \<noteq> []" using assms(1) by (auto simp: store_inv_def kMaxGroups_def)
  have "gt.in_use_count (groups s) = length (groups s)"
    using assms store_inv_counts [OF assms(1)] by (simp add: store_inv_def)
  then have all: "\<forall>e \<in> set (groups s). g_in_use e"
    using gt.no_free_slot [of "groups s"] by (simp add: find_slot_None)
  note old = oldest_index_full [OF ne all refl, of group_stamp]
  have "group_table s (oldest_group s) = Some (policy (groups s ! ?i))"
    unfolding group_table_gt gt.table_iff [OF u] oldest_group_def using old all by auto
  moreover have "\<forall>h q. group_table s h = Some q \<longrightarrow> last_update_ns (policy (groups s ! ?i)) \<le> last_update_ns q"
    unfolding group_table_gt gt.table_iff [OF u] using old by (auto simp: group_stamp_def)
  ultimately show ?thesis by blast
qed

lemma merge_policy_id [simp]: "group_id (merge_policy m t p) = group_id p"
  by (simp add: merge_policy_def)

text \<open>What an update does to the map of groups.\<close>

definition upserted :: "64 word \<Rightarrow> group_msg \<Rightarrow> string \<Rightarrow> store \<Rightarrow> string \<Rightarrow> GroupPolicy option" where
  "upserted clk m g s = (let T = group_table s; t = get_time clk s in
     case T (c_str g) of
       Some p \<Rightarrow> T(c_str g \<mapsto> merge_policy m t p)
     | None \<Rightarrow> (if n_groups s < kMaxGroups then T else T(oldest_group s := None))(c_str g \<mapsto> fresh_policy g t))"

lemma n_groups_le: "store_inv s \<Longrightarrow> n_groups s \<le> kMaxGroups"
  using store_inv_counts gt.count_le by (metis store_inv_def)

lemma upsert_unknown_group:
  assumes inv: "store_inv s" and g: "gm_group m = Some g" "length g \<le> kMaxGroupIdLen" and None: "group_table s (c_str g) = None"
  shows "\<exists>s'. upsert_group clk a m s = (True, s') \<and> store_inv s' \<and> group_table s' = upserted clk m g s"
proof -
  have nf: "find_slot (is_group g) (groups s) = None"
    using g(2) None by (simp add: find_group [OF inv] group_table_def)
  show ?thesis
  proof (cases "n_groups s < kMaxGroups")
    case True
    then show ?thesis
      using insert_group_table [OF inv True None g(2), of clk] nf g None
      by (auto simp: upsert_group_def upserted_def)
  next
    case False
    let ?s = "count_group_eviction (evict_oldest_group s)"
    have full: "n_groups s = kMaxGroups" using False n_groups_le [OF inv] by simp
    have "insert_group g clk s = None"
      using full store_inv_counts [OF inv] inv gt.no_free_slot [of "groups s"]
      by (simp add: insert_group_def store_inv_def)
    moreover note ev = evict_group_table [OF inv full]
    have "group_table ?s (c_str g) = None" using None ev(3) by simp
    moreover have "get_time clk ?s = get_time clk s"
      by (simp add: get_time_def count_group_eviction_def evict_oldest_group_def Let_def)
    ultimately show ?thesis
      using insert_group_table [OF ev(1,2) _ g(2), of clk] nf g None False ev(3)
      by (auto simp: upsert_group_def upserted_def)
  qed
qed

lemma upsert_known_group:
  assumes inv: "store_inv s" and g: "gm_group m = Some g" "length g \<le> kMaxGroupIdLen" and Some: "group_table s (c_str g) = Some p"
  shows "\<exists>s'. upsert_group clk a m s = (True, s') \<and> store_inv s' \<and> group_table s' = upserted clk m g s"
proof -
  let ?t = "get_time clk s"
  have u: "gt.uniq (groups s)" using inv by (simp add: store_inv_def)
  obtain i where i: "find_slot (is_group g) (groups s) = Some i" "policy (groups s ! i) = p"
    using Some g(2) by (auto simp: find_group [OF inv] group_table_def)
  then have ii: "i < length (groups s)" "g_in_use (groups s ! i)" "group_id p = c_str g"
    using g(2) by (auto simp: find_group [OF inv] find_slot_Some)
  let ?e = "(groups s ! i)\<lparr>policy := merge_policy m ?t p\<rparr>"
  let ?s = "s\<lparr>groups := (groups s)[i := ?e]\<rparr>"
  have rep: "gt.uniq ((groups s)[i := ?e])" "gt.table ((groups s)[i := ?e]) = (gt.table (groups s))(c_str g \<mapsto> merge_policy m ?t p)"
    using gt.table_replace [OF u ii(1,2), of ?e] ii(2,3) i(2) by simp_all
  have "length (filter g_in_use ((groups s)[i := ?e])) = length (filter g_in_use (groups s))"
    using gt.count_split [OF ii(1), of ?e] ii(2) by (simp add: gt.in_use_count_def)
  moreover have "\<forall>e \<in> set ((groups s)[i := ?e]). g_in_use e \<longrightarrow> name_ok (group_id (policy e))"
    using inv name_ok_c_str [OF g(2)] ii(3) set_update_subset_insert [of "groups s" i ?e]
    by (auto simp: store_inv_def)
  ultimately have "store_inv ?s" using inv rep(1) by (simp add: store_inv_def)
  moreover have "upsert_group clk a m s = (True, ?s)" using g i by (simp add: upsert_group_def Let_def)
  ultimately show ?thesis using Some rep(2) by (simp add: upserted_def group_table_gt)
qed

lemma upsert_group_core:
  assumes "store_inv s" and "gm_group m = Some g" "length g \<le> kMaxGroupIdLen"
  shows "\<exists>s'. upsert_group clk a m s = (True, s') \<and> store_inv s' \<and> group_table s' = upserted clk m g s"
  using upsert_unknown_group [OF assms] upsert_known_group [OF assms] by (cases "group_table s (c_str g)") auto

section \<open>Process ids\<close>

lemma pid_slot_index:
  assumes "store_inv s"
  shows "pid_slot s pid = (if 0 \<le> pid \<and> pid < int kMaxPidGroupMap \<and> p_in_use (pid_map s ! nat pid) then Some (nat pid) else None)"
proof -
  have len: "length (pid_map s) = kMaxPidGroupMap" using assms by (simp add: store_inv_def)
  have id: "as_int32 (int i) = int i" if "i < kMaxPidGroupMap" for i
    using as_int32_id that by (simp add: kMaxPidGroupMap_def)
  show ?thesis
  proof (cases "0 \<le> pid \<and> pid < int kMaxPidGroupMap \<and> p_in_use (pid_map s ! nat pid)")
    case True
    then obtain n where n: "pid = int n" "n < kMaxPidGroupMap" "p_in_use (pid_map s ! n)"
      by (intro that [of "nat pid"]) auto
    have "pid_slot s pid = Some n"
      unfolding pid_slot_def find_slot_Some len using n by (simp add: id)
    then show ?thesis using n by simp
  next
    case False
    then have "pid_slot s pid = None"
      unfolding pid_slot_def find_slot_None by (auto simp: len id)
    then show ?thesis using False by simp
  qed
qed

lemma group_for_pid_index:
  "store_inv s \<Longrightarrow> get_group_for_pid s pid =
     (if 0 \<le> pid \<and> pid < int kMaxPidGroupMap \<and> p_in_use (pid_map s ! nat pid)
      then Some (p_group_id (pid_map s ! nat pid)) else None)"
  by (simp add: get_group_for_pid_def pid_slot_index)

lemma fresh_pid_simps [simp]:
  "p_in_use (fresh_pid g t)" "p_group_id (fresh_pid g t) = take kMaxGroupIdLen (c_str g)"
  by (simp_all add: fresh_pid_def)

lemma store_inv_pid_map:
  assumes "store_inv s" and "length ps = kMaxPidGroupMap" and "n = length (filter p_in_use ps)"
    and "groups s' = groups s" and "n_groups s' = n_groups s" and "pid_map s' = ps" and "n_pids s' = n"
  shows "store_inv s'"
  using assms by (simp add: store_inv_def)

lemma insert_pid_core:
  assumes "store_inv s" and "n_pids s < kMaxPidGroupMap"
  shows "\<exists>s' i. find_slot (\<lambda>e. \<not> p_in_use e) (pid_map s) = Some i \<and> insert_pid g clk s = Some s' \<and> store_inv s' \<and>
    i < kMaxPidGroupMap \<and> pid_map s' = (pid_map s)[i := fresh_pid g (get_time clk s)]"
proof -
  let ?e = "fresh_pid g (get_time clk s)"
  have len: "length (pid_map s) = kMaxPidGroupMap" using assms(1) by (simp add: store_inv_def)
  have "pt.in_use_count (pid_map s) \<noteq> length (pid_map s)"
    using assms(2) store_inv_counts [OF assms(1)] len by simp
  then obtain i where i: "find_slot (\<lambda>e. \<not> p_in_use e) (pid_map s) = Some i"
    using pt.no_free_slot by blast
  let ?s = "s\<lparr>pid_map := (pid_map s)[i := ?e], n_pids := n_pids s + 1\<rparr>"
  have "length (filter p_in_use ((pid_map s)[i := ?e])) = n_pids s + 1"
    using pt.count_insert [OF i, of ?e] store_inv_counts [OF assms(1)] by (simp add: pt.in_use_count_def)
  then have "store_inv ?s" using store_inv_pid_map [OF assms(1), of "(pid_map s)[i := ?e]" "n_pids s + 1" ?s] len by simp
  moreover have "i < kMaxPidGroupMap" using i len by (simp add: find_slot_Some)
  ultimately show ?thesis using i by (simp add: insert_pid_def)
qed

lemma evict_pid_core:
  assumes "store_inv s" and "n_pids s = kMaxPidGroupMap"
  shows "store_inv (count_pid_eviction (evict_oldest_pid_entry s))"
    and "n_pids (count_pid_eviction (evict_oldest_pid_entry s)) < kMaxPidGroupMap"
    and "pid_map (count_pid_eviction (evict_oldest_pid_entry s)) = pt.evicted (pid_map s)"
    and "find_slot (\<lambda>e. \<not> p_in_use e) (pt.evicted (pid_map s)) = Some (oldest_index p_in_use last_seen_ns (pid_map s))"
proof -
  let ?s = "count_pid_eviction (evict_oldest_pid_entry s)"
  have len: "length (pid_map s) = kMaxPidGroupMap" using assms(1) by (simp add: store_inv_def)
  then have ne: "pid_map s \<noteq> []" by (auto simp: kMaxPidGroupMap_def)
  have full: "pt.in_use_count (pid_map s) = length (pid_map s)"
    using assms store_inv_counts [OF assms(1)] len by simp
  have ps: "pid_map ?s = pt.evicted (pid_map s)" "n_pids ?s = n_pids s - 1" "groups ?s = groups s" "n_groups ?s = n_groups s"
    by (simp_all add: count_pid_eviction_def evict_oldest_pid_entry_def pt.evicted_def Let_def)
  have "n_pids s - 1 = length (filter p_in_use (pt.evicted (pid_map s)))"
    using pt.evicted_free(2) [OF ne full] store_inv_counts [OF assms(1)] by (simp add: pt.in_use_count_def)
  then show "store_inv ?s"
    using store_inv_pid_map [OF assms(1) _ _ ps(3,4,1,2)] len by (simp add: pt.evicted_def Let_def)
  show "pid_map ?s = pt.evicted (pid_map s)" by (rule ps(1))
  show "n_pids ?s < kMaxPidGroupMap" using ps(2) assms(2) by (simp add: kMaxPidGroupMap_def)
  show "find_slot (\<lambda>e. \<not> p_in_use e) (pt.evicted (pid_map s)) = Some (oldest_index p_in_use last_seen_ns (pid_map s))"
    by (rule pt.evicted_free(1) [OF ne full])
qed

text \<open>Whatever case applies, one entry is written: the pid's own if it is in use, else another.\<close>

lemma map_pid_core:
  assumes inv: "store_inv s"
  shows "\<exists>s' i. map_pid_to_group clk pid g s = (True, s') \<and> store_inv s' \<and> i < kMaxPidGroupMap \<and>
    (pid_slot s pid \<noteq> None \<longrightarrow> int i = pid) \<and> pid_map s' = (pid_map s)[i := fresh_pid g (get_time clk s)]"
proof (cases "pid_slot s pid")
  case (Some i)
  have i: "i = nat pid" "0 \<le> pid" "i < kMaxPidGroupMap" "p_in_use (pid_map s ! i)"
    using Some pid_slot_index [OF inv, of pid] by (auto split: if_splits)
  have len: "length (pid_map s) = kMaxPidGroupMap" using inv by (simp add: store_inv_def)
  let ?e = "fresh_pid g (get_time clk s)"
  let ?s = "s\<lparr>pid_map := (pid_map s)[i := ?e]\<rparr>"
  have "(pid_map s ! i)\<lparr>p_group_id := take kMaxGroupIdLen (c_str g), last_seen_ns := get_time clk s\<rparr> = ?e"
    using i(4) by (simp add: fresh_pid_def)
  then have "map_pid_to_group clk pid g s = (True, ?s)"
    by (simp add: map_pid_to_group_def Some Let_def)
  moreover have "length (filter p_in_use ((pid_map s)[i := ?e])) = n_pids s"
    using pt.count_split [of i "pid_map s" ?e] i(3,4) len store_inv_counts [OF inv] by (simp add: pt.in_use_count_def)
  then have "store_inv ?s"
    using store_inv_pid_map [OF inv, of "(pid_map s)[i := ?e]" "n_pids s" ?s] len by simp
  ultimately show ?thesis using i Some by auto
next
  case None
  show ?thesis
  proof (cases "n_pids s < kMaxPidGroupMap")
    case True
    then show ?thesis
      using insert_pid_core [OF inv True, of g clk] None by (auto simp: map_pid_to_group_def)
  next
    case False
    let ?k = "oldest_index p_in_use last_seen_ns (pid_map s)"
    have full: "n_pids s = kMaxPidGroupMap"
      using False store_inv_counts [OF inv] pt.count_le [of "pid_map s"] inv by (simp add: store_inv_def)
    have "insert_pid g clk s = None"
      using full store_inv_counts [OF inv] inv pt.no_free_slot [of "pid_map s"]
      by (simp add: insert_pid_def store_inv_def)
    moreover have "get_time clk (count_pid_eviction (evict_oldest_pid_entry s)) = get_time clk s"
      by (simp add: get_time_def count_pid_eviction_def evict_oldest_pid_entry_def Let_def)
    moreover note ev = evict_pid_core [OF inv full]
    moreover have "(pt.evicted (pid_map s))[?k := e] = (pid_map s)[?k := e]" for e
      by (simp add: pt.evicted_def Let_def)
    ultimately show ?thesis
      using insert_pid_core [OF ev(1,2), of g clk] None by (auto simp: map_pid_to_group_def)
  qed
qed

section \<open>Runs\<close>

lemma clear_inv: "store_inv s \<Longrightarrow> store_inv (clear s)"
proof -
  assume "store_inv s"
  then have "clear s = new_store\<lparr>test_seq := test_seq s\<rparr>"
    by (simp add: clear_def new_store_def store_inv_def map_replicate_const)
  then show ?thesis using new_store_inv by (simp add: store_inv_def)
qed

lemma store_step_inv: "store_inv s \<Longrightarrow> store_inv (store_step (clk, op) s)"
proof (cases op)
  case (Upsert a m)
  assume inv: "store_inv s"
  show ?thesis
  proof (cases "\<exists>g. gm_group m = Some g \<and> length g \<le> kMaxGroupIdLen")
    case True
    then show ?thesis using upsert_group_core [OF inv, of m _ clk a] Upsert by fastforce
  next
    case False
    then have "upsert_group clk a m s = (False, s)"
      by (cases "gm_group m") (auto simp: upsert_group_def)
    then show ?thesis using inv Upsert by simp
  qed
next
  case (Map_Pid pid g)
  assume "store_inv s"
  then show ?thesis using map_pid_core [of s clk pid g] Map_Pid by auto
next
  case Clear
  assume "store_inv s"
  then show ?thesis using Clear clear_inv by simp
qed (simp_all add: store_tick_def set_time_for_test_def store_inv_def)

lemma store_run_keeps_inv: "store_inv s \<Longrightarrow> store_inv (store_run ops s)"
  unfolding store_run_def by (induction ops arbitrary: s) (auto simp: store_step_inv)

section \<open>Properties\<close>

text \<open>
  C22: in every reachable state the tables keep their sizes, the counters are the numbers of entries
  in use, and the names in use are pairwise different texts of at most 32 characters: the number of
  groups is the size of the map of groups.
\<close>

theorem store_run_inv:
  "let s = store_run ops new_store in store_inv s \<and>
     card (dom (group_table s)) = group_count (store_stats s) \<and> group_count (store_stats s) \<le> kMaxGroups \<and>
     pid_group_map_count (store_stats s) \<le> kMaxPidGroupMap"
proof -
  let ?s = "store_run ops new_store"
  have inv: "store_inv ?s" by (rule store_run_keeps_inv [OF new_store_inv])
  have "gt.uniq (groups ?s)" using inv by (simp add: store_inv_def)
  then have "card (dom (group_table ?s)) = n_groups ?s"
    using gt.card_table store_inv_counts [OF inv] by (simp add: group_table_gt)
  moreover have "n_pids ?s \<le> kMaxPidGroupMap"
    using store_inv_counts [OF inv] pt.count_le [of "pid_map ?s"] inv by (simp add: store_inv_def)
  ultimately show ?thesis using inv n_groups_le [OF inv] by (simp add: store_stats_def Let_def)
qed

text \<open>
  The store seen from outside: a map from the names of the groups to their settings and the time of the
  last change; what a message asks for is a map of settings as well.
\<close>

datatype setting = Cpu_Pct | Cpu_Quota | Cpu_Period | Mem_Max | Mem_High | Pids_Limit | Action | Deadline

datatype setting_value = Number nat | Violation ViolationAction

fun settings :: "GroupPolicy \<Rightarrow> setting \<Rightarrow> setting_value option" where
  "settings p Cpu_Pct = map_option Number (cpu_max_pct p)"
| "settings p Cpu_Quota = map_option Number (cpu_quota_us p)"
| "settings p Cpu_Period = map_option Number (cpu_period_us p)"
| "settings p Mem_Max = map_option Number (mem_max_bytes p)"
| "settings p Mem_High = map_option Number (mem_high_bytes p)"
| "settings p Pids_Limit = map_option Number (gp_pids_max p)"
| "settings p Action = map_option Violation (default_action p)"
| "settings p Deadline = map_option Number (apply_deadline_ms p)"

fun asked :: "group_msg \<Rightarrow> setting \<Rightarrow> setting_value option" where
  "asked m Cpu_Pct = (case gm_cpu m of None \<Rightarrow> None | Some c \<Rightarrow> map_option Number (max_pct c))"
| "asked m Mem_Max = (case gm_mem m of None \<Rightarrow> None | Some c \<Rightarrow> map_option Number (gm_max_bytes c))"
| "asked m Mem_High = (case gm_mem m of None \<Rightarrow> None | Some c \<Rightarrow> map_option Number (gm_high_bytes c))"
| "asked m Pids_Limit = (case gm_pids m of None \<Rightarrow> None | Some c \<Rightarrow> map_option Number (pids_max c))"
| "asked m Action = map_option Violation (gm_action m)"
| "asked m Deadline = (case gm_timeouts m of None \<Rightarrow> None | Some d \<Rightarrow> map_option Number d)"
| "asked m _ = None"

type_synonym group_view = "string \<Rightarrow> ((setting \<Rightarrow> setting_value option) \<times> 64 word) option"

definition store_view :: "store \<Rightarrow> group_view" where
  "store_view s k = map_option (\<lambda>p. (settings p, last_update_ns p)) (group_table s k)"

text \<open>
  What an update may make of the map: the settings of a known group are overridden by those asked for;
  a new group has none, and takes the place of one with the smallest time stamp when the map is full.
\<close>

definition view_upserted :: "64 word \<Rightarrow> group_msg \<Rightarrow> string \<Rightarrow> group_view \<Rightarrow> group_view \<Rightarrow> bool" where
  "view_upserted now m k A B \<longleftrightarrow> (case A k of
       Some (L, t) \<Rightarrow> B = A(k \<mapsto> (L ++ asked m, now))
     | None \<Rightarrow>
         if card (dom A) < 256 then B = A(k \<mapsto> (Map.empty, now))
         else \<exists>v L t. A v = Some (L, t) \<and> (\<forall>h L' t'. A h = Some (L', t') \<longrightarrow> t \<le> t') \<and>
           B = A(v := None, k \<mapsto> (Map.empty, now)))"

lemma settings_merge: "settings (merge_policy m t p) = settings p ++ asked m"
proof
  fix x show "settings (merge_policy m t p) x = (settings p ++ asked m) x"
    by (cases x) (simp_all add: merge_policy_def map_add_def first_some_def split: option.split)
qed

lemma settings_fresh: "settings (fresh_policy g t) = Map.empty"
proof
  fix x show "settings (fresh_policy g t) x = None"
    by (cases x) (simp_all add: fresh_policy_def empty_policy_def)
qed

lemma fresh_stamp: "last_update_ns (fresh_policy g t) = t" "last_update_ns (merge_policy m t p) = t"
  by (simp_all add: fresh_policy_def merge_policy_def)

lemma card_view:
  assumes "store_inv s"
  shows "card (dom (store_view s)) = n_groups s"
proof -
  have "gt.uniq (groups s)" using assms by (simp add: store_inv_def)
  moreover have "dom (store_view s) = dom (group_table s)" by (auto simp: store_view_def)
  ultimately show ?thesis using gt.card_table store_inv_counts [OF assms] by (simp add: group_table_gt)
qed

lemma upserted_view:
  assumes "store_inv s" and "group_table s' = upserted clk m g s"
  shows "view_upserted (get_time clk s) m (c_str g) (store_view s) (store_view s')"
proof (cases "group_table s (c_str g)")
  case (Some p)
  then show ?thesis
    by (auto simp: view_upserted_def store_view_def assms(2) upserted_def fun_eq_iff settings_merge fresh_stamp)
next
  case None
  have room: "n_groups s < kMaxGroups \<longleftrightarrow> card (dom (store_view s)) < 256"
    using card_view [OF assms(1)] by (simp add: kMaxGroups_def)
  show ?thesis
  proof (cases "n_groups s < kMaxGroups")
    case True
    then show ?thesis using None room
      by (auto simp: view_upserted_def store_view_def assms(2) upserted_def fun_eq_iff settings_fresh fresh_stamp)
  next
    case False
    then have "n_groups s = kMaxGroups" using n_groups_le [OF assms(1)] by simp
    from oldest_group_oldest [OF assms(1) this] obtain p where
      p: "group_table s (oldest_group s) = Some p" "\<forall>h q. group_table s h = Some q \<longrightarrow> last_update_ns p \<le> last_update_ns q"
      by blast
    have "store_view s' = (store_view s)(oldest_group s := None, c_str g \<mapsto> (Map.empty, get_time clk s))"
      using None False by (auto simp: store_view_def assms(2) upserted_def fun_eq_iff settings_fresh fresh_stamp)
    moreover have "store_view s (oldest_group s) = Some (settings p, last_update_ns p)" using p(1) by (simp add: store_view_def)
    moreover have "\<forall>h L t. store_view s h = Some (L, t) \<longrightarrow> last_update_ns p \<le> t" using p(2) by (auto simp: store_view_def)
    moreover have "store_view s (c_str g) = None" using None by (simp add: store_view_def)
    ultimately show ?thesis using False room unfolding view_upserted_def by auto
  qed
qed

lemma group_table_name:
  assumes "store_inv s" and "group_table s k = Some p"
  shows "group_id p = k"
proof -
  have "gt.uniq (groups s)" using assms(1) by (simp add: store_inv_def)
  then show ?thesis using assms(2) unfolding group_table_gt by (auto simp: gt.table_iff)
qed

text \<open>
  C14: an update refines an update of the map of settings: a known group keeps its settings but for those
  the message carries, which override them; a new one is added without settings, in a full map instead of a
  group with the smallest time stamp; and every later lookup reads this map at the first 32 characters
  of the name asked for.
\<close>

theorem upsert_refines:
  assumes "store_inv s" and "gm_group m = Some g" and "length g \<le> kMaxGroupIdLen"
  shows "\<exists>s'. upsert_group clk a m s = (True, s') \<and> store_inv s' \<and>
    view_upserted (get_time clk s) m (c_str g) (store_view s) (store_view s') \<and>
    (\<forall>h. map_option (\<lambda>p. (settings p, last_update_ns p)) (get_group s' h) =
       store_view s' (take kMaxGroupIdLen (c_str h))) \<and>
    (\<forall>h p. get_group s' h = Some p \<longrightarrow> group_id p = take kMaxGroupIdLen (c_str h))"
proof -
  obtain s' where s': "upsert_group clk a m s = (True, s')" "store_inv s'" "group_table s' = upserted clk m g s"
    using upsert_group_core [OF assms] by blast
  then show ?thesis
    using upserted_view [OF assms(1) s'(3)] get_group_table [OF s'(2)] group_table_name [OF s'(2)]
    by (auto simp: store_view_def)
qed

definition plain_msg :: "string \<Rightarrow> nat \<Rightarrow> group_msg" where
  "plain_msg g pct = \<lparr>gm_group = Some g, gm_cpu = Some \<lparr>affinity = None, nice = None, max_pct = Some pct\<rparr>,
     gm_mem = None, gm_pids = None, gm_action = None, gm_timeouts = None\<rparr>"

lemma new_store_table: "group_table new_store k = None"
  by (simp add: group_table_def new_store_def empty_group_def)

theorem upsert_refines_witness:
  "\<exists>s' s''. upsert_group 7 ''build'' (plain_msg ''build'' 50) new_store = (True, s') \<and>
     upsert_group 8 ''build'' (plain_msg ''build'' 50) s' = (True, s'') \<and>
     store_view s' ''build'' = Some (Map.empty, 7) \<and>
     (\<exists>L. store_view s'' ''build'' = Some (L, 8) \<and> L Cpu_Pct = Some (Number 50) \<and> L Mem_Max = None)"
proof -
  let ?m = "plain_msg ''build'' 50"
  have m: "gm_group ?m = Some ''build''" "length ''build'' \<le> kMaxGroupIdLen"
    by (simp_all add: plain_msg_def kMaxGroupIdLen_def)
  from upsert_refines [OF new_store_inv m, of 7 "''build''"]
  obtain s' where s': "upsert_group 7 ''build'' ?m new_store = (True, s')" "store_inv s'"
    "view_upserted (get_time 7 new_store) ?m (c_str ''build'') (store_view new_store) (store_view s')" by auto
  have t: "test_seq new_store = 0" "test_seq s' = 0"
    using s'(1) by (auto simp: new_store_def upsert_group_def insert_group_def count_group_eviction_def
        evict_oldest_group_def Let_def split: option.splits if_splits)
  have v': "store_view s' ''build'' = Some (Map.empty, 7)"
    using s'(3) t by (simp add: view_upserted_def store_view_def new_store_table get_time_def c_str_def dom_def)
  from upsert_refines [OF s'(2) m, of 8 "''build''"]
  obtain s'' where s'': "upsert_group 8 ''build'' ?m s' = (True, s'')"
    "view_upserted (get_time 8 s') ?m (c_str ''build'') (store_view s') (store_view s'')" by auto
  have "store_view s'' ''build'' = Some (Map.empty ++ asked ?m, 8)"
    using s''(2) v' t by (simp add: view_upserted_def get_time_def c_str_def)
  then show ?thesis using s'(1) s''(1) v' by (simp add: plain_msg_def)
qed

text \<open>
  the first message for a group sets none of its limits: a group that was not in the table is
  stored with its name and time only, whatever the message holds.
\<close>

theorem new_group_has_no_policy:
  assumes "store_inv s" and "gm_group m = Some g" and "length g \<le> kMaxGroupIdLen" and "get_group s g = None"
    and "upsert_group clk a m s = (ok, s')"
  shows "ok \<and> (\<exists>p. get_group s' g = Some p \<and> \<not> has_any_policy p)"
proof -
  obtain s1 where s1: "upsert_group clk a m s = (True, s1)" "store_inv s1" "group_table s1 = upserted clk m g s"
    using upsert_group_core [OF assms(1-3)] by blast
  have "group_table s (c_str g) = None" using assms(3,4) by (simp add: get_group_table [OF assms(1)])
  then have "get_group s1 g = Some (fresh_policy g (get_time clk s))"
    using assms(3) s1(3) by (simp add: get_group_table [OF s1(2)] upserted_def Let_def)
  then show ?thesis
    using s1(1) assms(5) by (simp add: has_any_policy_def fresh_policy_def empty_policy_def)
qed

theorem new_group_has_no_policy_witness:
  "\<exists>p. get_group (snd (upsert_group 7 ''build'' (plain_msg ''build'' 50) new_store)) ''build'' = Some p \<and>
     \<not> has_any_policy p"
proof -
  obtain ok s' where r: "upsert_group 7 ''build'' (plain_msg ''build'' 50) new_store = (ok, s')"
    by (metis surj_pair)
  have "gm_group (plain_msg ''build'' 50) = Some ''build''" "length ''build'' \<le> kMaxGroupIdLen"
    "get_group new_store ''build'' = None"
    by (simp_all add: plain_msg_def kMaxGroupIdLen_def get_group_table [OF new_store_inv] new_store_table)
  from new_group_has_no_policy [OF new_store_inv this r] show ?thesis by (simp add: r)
qed

text \<open>
  the process id is not stored: a mapping writes one slot, that of its own index only if it was
  in use, and the group is then found under the index of the slot and under no other process id. A
  process id outside the 8192 indexes is never found.
\<close>

theorem mapped_pid_is_slot:
  assumes "store_inv s" and "map_pid_to_group clk pid g s = (ok, s')"
  shows "ok \<and> (\<exists>i < kMaxPidGroupMap. (get_group_for_pid s pid \<noteq> None \<longrightarrow> int i = pid) \<and>
    (\<forall>q. get_group_for_pid s' q = (if q = int i then Some (take kMaxGroupIdLen (c_str g)) else get_group_for_pid s q)))"
proof -
  obtain s1 i where s1: "map_pid_to_group clk pid g s = (True, s1)" "store_inv s1" "i < kMaxPidGroupMap"
    "pid_slot s pid \<noteq> None \<longrightarrow> int i = pid" "pid_map s1 = (pid_map s)[i := fresh_pid g (get_time clk s)]"
    using map_pid_core [OF assms(1)] by blast
  have len: "length (pid_map s) = kMaxPidGroupMap" using assms(1) by (simp add: store_inv_def)
  have "get_group_for_pid s1 q = (if q = int i then Some (take kMaxGroupIdLen (c_str g)) else get_group_for_pid s q)" for q
    using s1(3) len
    by (cases "q = int i")
      (auto simp: group_for_pid_index [OF s1(2)] group_for_pid_index [OF assms(1)] s1(5) nth_list_update)
  then show ?thesis using s1(1,3,4) assms(2) by (auto simp: get_group_for_pid_def)
qed

theorem mapped_pid_is_slot_witness:
  "let s = snd (map_pid_to_group 7 9000 ''build'' new_store) in get_group_for_pid s 9000 = None"
proof -
  obtain ok s' where r: "map_pid_to_group 7 9000 ''build'' new_store = (ok, s')" by (metis surj_pair)
  from mapped_pid_is_slot [OF new_store_inv r]
  obtain i where i: "i < kMaxPidGroupMap"
    "\<forall>q. get_group_for_pid s' q = (if q = int i then Some (take kMaxGroupIdLen (c_str ''build'')) else get_group_for_pid new_store q)"
    by blast
  have "(9000 :: int) \<noteq> int i" using i(1) by (simp add: kMaxPidGroupMap_def)
  then have "get_group_for_pid s' 9000 = get_group_for_pid new_store 9000" using i(2) by simp
  then show ?thesis by (simp add: r Let_def group_for_pid_index [OF new_store_inv] kMaxPidGroupMap_def)
qed

end
