(* ===== verification/Event.thy ===== *)
theory Event
  imports Prelude
begin

text \<open>
  Events and their JSON text (\<open>include/heidi-kernel/event.h\<close>). A reader of JSON strings, written
  from the JSON grammar and not from the code, is what the escaping is proved against.
\<close>

section \<open>The code\<close>

definition quote_char :: char where "quote_char = CHR 0x22"
definition backslash :: char where "backslash = CHR 0x5C"

text \<open>A hexadecimal digit as \<open>std::hex\<close> prints it.\<close>

definition hex_char :: "nat \<Rightarrow> char" where
  "hex_char d = (if d < 10 then digit_char d else char_of (87 + d))"

definition escape_char :: "char \<Rightarrow> string" where
  "escape_char c =
     (if c = quote_char then [backslash, quote_char]
      else if c = backslash then [backslash, backslash]
      else if c = CHR 0x08 then backslash # ''b''
      else if c = CHR 0x0C then backslash # ''f''
      else if c = CHR 0x0A then backslash # ''n''
      else if c = CHR 0x0D then backslash # ''r''
      else if c = CHR 0x09 then backslash # ''t''
      else if (of_char c :: nat) < 32
        then backslash # ''u00'' @ [hex_char (of_char c div 16), hex_char (of_char c mod 16)]
      else [c])"

definition json_escape :: "string \<Rightarrow> string" where
  "json_escape s = quote_char # concat (map escape_char s) @ [quote_char]"

text \<open>The time stamp in milliseconds since the epoch.\<close>

record event =
  ev_id :: string
  ev_timestamp :: int
  ev_type :: string
  ev_payload :: string

definition to_json :: "event \<Rightarrow> string" where
  "to_json e = CHR ''{'' # quote_char # ''id'' @ quote_char # '':'' @ json_escape (ev_id e) @
     CHR '','' # quote_char # ''timestamp'' @ quote_char # '':'' @ show_int (ev_timestamp e) @
     CHR '','' # quote_char # ''type'' @ quote_char # '':'' @ json_escape (ev_type e) @
     CHR '','' # quote_char # ''payload'' @ quote_char # '':'' @ ev_payload e @ ''}''"

section \<open>Reading a JSON string\<close>

definition hex_value :: "char \<Rightarrow> nat option" where
  "hex_value c = (let n = of_char c in
     if 48 \<le> n \<and> n \<le> 57 then Some (n - 48)
     else if 97 \<le> n \<and> n \<le> 102 then Some (n - 87)
     else if 65 \<le> n \<and> n \<le> 70 then Some (n - 55) else None)"

definition simple_escape :: "char \<Rightarrow> char option" where
  "simple_escape c = (if c = quote_char \<or> c = backslash \<or> c = CHR ''/'' then Some c
     else if c = CHR ''b'' then Some (CHR 0x08) else if c = CHR ''f'' then Some (CHR 0x0C)
     else if c = CHR ''n'' then Some (CHR 0x0A) else if c = CHR ''r'' then Some (CHR 0x0D)
     else if c = CHR ''t'' then Some (CHR 0x09) else None)"

definition prepend :: "char \<Rightarrow> (string \<times> string) option \<Rightarrow> (string \<times> string) option" where
  "prepend c = map_option (\<lambda>(s, r). (c # s, r))"

text \<open>The characters up to the closing quote, and what follows it; code points below 256 only.\<close>

fun read_chars :: "string \<Rightarrow> (string \<times> string) option" where
  "read_chars [] = None"
| "read_chars (c # r) =
     (if c = quote_char then Some ([], r)
      else if c = backslash then
        (case r of
           [] \<Rightarrow> None
         | e # r1 \<Rightarrow>
             if e = CHR ''u'' then
               (case r1 of
                  a # b # x # y # r2 \<Rightarrow>
                    (case (hex_value a, hex_value b, hex_value x, hex_value y) of
                       (Some 0, Some 0, Some h, Some l) \<Rightarrow> prepend (char_of (16 * h + l)) (read_chars r2)
                     | _ \<Rightarrow> None)
                | _ \<Rightarrow> None)
             else (case simple_escape e of None \<Rightarrow> None | Some d \<Rightarrow> prepend d (read_chars r1)))
      else if (of_char c :: nat) < 32 then None
      else prepend c (read_chars r))"

definition read_json_string :: "string \<Rightarrow> (string \<times> string) option" where
  "read_json_string s = (case s of [] \<Rightarrow> None | c # r \<Rightarrow> if c = quote_char then read_chars r else None)"

section \<open>Escaping and reading\<close>

lemma hex_values: "list_all (\<lambda>d. hex_value (hex_char d) = Some d) [0..<16]"
  by code_simp

lemma hex_value_char: "d < 16 \<Longrightarrow> hex_value (hex_char d) = Some d"
  by (rule hex_values [unfolded list_all_iff, rule_format]) (simp only: set_upt atLeastLessThan_iff zero_le simp_thms)

lemma zero_hex: "hex_value (CHR ''0'') = Some 0"
  by (simp add: hex_value_def)

lemma read_escaped: "read_chars (escape_char c @ r) = prepend c (read_chars r)"
proof (cases "(of_char c :: nat) < 32 \<and> c \<notin> {CHR 0x08, CHR 0x0C, CHR 0x0A, CHR 0x0D, CHR 0x09}")
  case True
  let ?n = "of_char c :: nat"
  have "(of_char quote_char :: nat) = 34" "(of_char backslash :: nat) = 92"
    by (simp_all add: quote_char_def backslash_def)
  then have q: "c \<noteq> quote_char" "c \<noteq> backslash" using True by auto
  have "?n div 16 < 16" "?n mod 16 < 16" using True by auto
  note hex = hex_value_char [OF this(1)] hex_value_char [OF this(2)]
  have "char_of (16 * (?n div 16) + ?n mod 16) = c" by simp
  moreover have "escape_char c = backslash # ''u00'' @ [hex_char (?n div 16), hex_char (?n mod 16)]"
    using True q by (simp add: escape_char_def)
  moreover have "backslash \<noteq> quote_char" by (simp add: quote_char_def backslash_def)
  ultimately show ?thesis by (simp add: zero_hex hex)
next
  case False
  then show ?thesis
    by (auto simp: escape_char_def simple_escape_def quote_char_def backslash_def)
qed

lemma read_escaped_list: "read_chars (concat (map escape_char s) @ quote_char # r) = Some (s, r)"
  by (induction s) (simp_all add: read_escaped prepend_def)

text \<open>
  C24: escaping loses nothing: whatever bytes a text holds, a JSON reader reads the escaped text back
  to it and stops at the quote that closes it, so no text can break out of its string.
\<close>

theorem json_escape_roundtrip: "read_json_string (json_escape s @ r) = Some (s, r)"
  by (simp add: read_json_string_def json_escape_def read_escaped_list)

end
