(* ===== verification/Status_Socket.thy ===== *)
theory Status_Socket
  imports Event Ring_Buffer Procfs
begin

text \<open>
  \<open>StatusSocket\<close> (\<open>src/kernel/status.cpp\<close>, \<open>include/heidi-kernel/status.h\<close>): one iteration of the
  serving loop, the requests of a client, the events kept in the ring buffer and sent to the
  subscribers. The system calls are the parameters of the record \<open>status_os\<close> over its state \<open>'w\<close>.
\<close>

section \<open>State and system\<close>

definition kVersion :: string where "kVersion = ''0.1.0''"

record kernel_status =
  protocol_version :: nat
  ks_version :: string
  ks_pid :: int
  ks_start :: int
  queue_depth :: int

record status_socket =
  ss_path :: string
  server_fd :: int
  ks :: kernel_status
  stop_requested :: bool
  events :: "event ring"
  subscribers :: "int list"

text \<open>
  A readiness or result code is an \<open>int\<close> as in C; a \<open>read\<close> returns \<open>None\<close> for an error and the
  empty text at the end of the stream. \<open>so_write\<close> tells whether the other side is still open: if not,
  the signal \<open>SIGPIPE\<close> is raised, which the program does not handle; \<open>so_send\<close> is called with
  \<open>MSG_NOSIGNAL\<close>. \<open>so_select\<close> returns the code, whether \<open>errno\<close> is \<open>EINTR\<close>,
  and the descriptors that are ready.
\<close>

record 'w status_os =
  so_socket :: "'w \<Rightarrow> int \<times> 'w"
  so_bind :: "int \<Rightarrow> string \<Rightarrow> 'w \<Rightarrow> int \<times> 'w"
  so_listen :: "int \<Rightarrow> 'w \<Rightarrow> int \<times> 'w"
  so_chmod :: "string \<Rightarrow> 'w \<Rightarrow> 'w"
  so_unlink :: "string \<Rightarrow> 'w \<Rightarrow> 'w"
  so_close :: "int \<Rightarrow> 'w \<Rightarrow> 'w"
  so_accept :: "int \<Rightarrow> 'w \<Rightarrow> int \<times> 'w"
  so_select :: "int list \<Rightarrow> 'w \<Rightarrow> int \<times> bool \<times> int list \<times> 'w"
  so_ready :: "int \<Rightarrow> 'w \<Rightarrow> int \<times> 'w"
  so_read :: "int \<Rightarrow> nat \<Rightarrow> 'w \<Rightarrow> string option \<times> 'w"
  so_recv :: "int \<Rightarrow> 'w \<Rightarrow> int \<times> 'w"
  so_write :: "int \<Rightarrow> string \<Rightarrow> 'w \<Rightarrow> bool \<times> 'w"
  so_send :: "int \<Rightarrow> string \<Rightarrow> 'w \<Rightarrow> int \<times> 'w"
  so_now :: "'w \<Rightarrow> int"
  so_statm :: "'w \<Rightarrow> string option"
  so_self_status :: "'w \<Rightarrow> string option"

definition FD_SETSIZE :: int where "FD_SETSIZE = 1024"

text \<open>\<open>FD_SET\<close> writes outside the set for a descriptor that is not below \<open>FD_SETSIZE\<close>.\<close>

definition fd_ok :: "int \<Rightarrow> bool" where
  "fd_ok fd \<longleftrightarrow> 0 \<le> fd \<and> fd < FD_SETSIZE"

definition no_event :: event where
  "no_event = \<lparr>ev_id = [], ev_timestamp = 0, ev_type = [], ev_payload = []\<rparr>"

definition new_socket :: "string \<Rightarrow> int \<Rightarrow> int \<Rightarrow> status_socket" where
  "new_socket path pid now = \<lparr>ss_path = path, server_fd = - 1,
     ks = \<lparr>protocol_version = 1, ks_version = kVersion, ks_pid = pid, ks_start = now, queue_depth = 0\<rparr>,
     stop_requested = False, events = ring_new no_event 100, subscribers = []\<rparr>"

section \<open>What the process says of itself\<close>

text \<open>\<open>fscanf\<close> with \<open>"%*ld %ld"\<close>: the second of two numbers.\<close>

definition second_number :: "string \<Rightarrow> int option" where
  "second_number s =
     (let (a, r) = strtol s in
      if r = s then None
      else let (b, q) = strtol r in if q = r then None else Some b)"

definition get_rss_kb :: "string option \<Rightarrow> nat outcome" where
  "get_rss_kb statm = (case statm of
      None \<Rightarrow> Inr 0
    | Some content \<Rightarrow> (case second_number content of
        None \<Rightarrow> Inr 0
      | Some rss \<Rightarrow>
          if rss * 4096 < - (2 ^ 63) \<or> 2 ^ 63 \<le> rss * 4096 then Inl Undefined_Behaviour
          else Inr (as_uint64 (rss * 4096 div 1024))))"

text \<open>The lines that \<open>fgets\<close> reads into 256 bytes, one after the other.\<close>

function threads_loop :: "string \<Rightarrow> int" where
  "threads_loop s = (case fgets_n 256 s of
      None \<Rightarrow> 1
    | Some line \<Rightarrow>
        if take 8 line = ''Threads:'' then (case scan_int (drop 8 line) of None \<Rightarrow> 1 | Some (n, r) \<Rightarrow> n)
        else threads_loop (drop (length line) s))"
  by pat_completeness auto
termination
proof (relation "measure length")
  fix s line :: string assume "fgets_n 256 s = Some line"
  then have "s \<noteq> []" "line \<noteq> []"
    by (auto simp: fgets_n_def take_Cons' split: if_splits)
       (cases s; auto split: if_splits)
  then show "(drop (length line) s, s) \<in> measure length" by simp
qed simp

declare threads_loop.simps [simp del]

definition get_thread_count :: "string option \<Rightarrow> int" where
  "get_thread_count status = (case status of None \<Rightarrow> 1 | Some content \<Rightarrow> threads_loop content)"

section \<open>Replies\<close>

definition json_key :: "string \<Rightarrow> string" where
  "json_key k = quote_char # k @ [quote_char, CHR '':'']"

definition status_text :: "kernel_status \<Rightarrow> int \<Rightarrow> nat \<Rightarrow> int \<Rightarrow> string" where
  "status_text k uptime rss threads =
     ''{'' @ json_key ''protocol_version'' @ show_nat (protocol_version k) @ '','' @
     json_key ''version'' @ [quote_char] @ ks_version k @ [quote_char] @ '','' @
     json_key ''pid'' @ show_int (ks_pid k) @ '','' @ json_key ''uptime_ms'' @ show_int uptime @ '','' @
     json_key ''rss_kb'' @ show_nat rss @ '','' @ json_key ''threads'' @ show_int threads @ '','' @
     json_key ''queue_depth'' @ show_int (queue_depth k) @ ''}'' @ [CHR 0x0A]"

text \<open>
  \<open>snprintf\<close> writes at most 511 characters and the terminator into \<open>buf\<close> and returns the length of
  the whole text, of which the string is then made.
\<close>

definition string_of_buf :: "string \<Rightarrow> string outcome" where
  "string_of_buf t =
     (if length t < 512 then Inr t
      else if length t = 512 then Inr (take 511 t @ [CHR 0x00]) else Inl Undefined_Behaviour)"

definition format_status :: "'w status_os \<Rightarrow> kernel_status \<Rightarrow> 'w \<Rightarrow> string outcome" where
  "format_status os k w =
     (let uptime = (so_now os w - ks_start k) div 1000000 in
      case get_rss_kb (so_statm os w) of
        Inl e \<Rightarrow> Inl e
      | Inr rss \<Rightarrow> string_of_buf (status_text k uptime rss (get_thread_count (so_self_status os w))))"

definition version_text :: "kernel_status \<Rightarrow> string" where
  "version_text k = take 127 (''PROTOCOL '' @ show_nat (protocol_version k) @ '' DAEMON '' @ ks_version k @ [CHR 0x0A])"

definition strip_newlines :: "string \<Rightarrow> string" where
  "strip_newlines s = rev (dropWhile (\<lambda>c. c = CHR 0x0A \<or> c = CHR 0x0D) (rev s))"

fun send_events :: "'w status_os \<Rightarrow> int \<Rightarrow> event list \<Rightarrow> 'w \<Rightarrow> 'w" where
  "send_events os fd [] w = w"
| "send_events os fd (e # es) w = send_events os fd es (snd (so_send os fd (to_json e @ [CHR 0x0A]) w))"

text \<open>The reply to a request; \<open>SUBSCRIBE\<close> keeps the descriptor and replays the log.\<close>

definition respond :: "'w status_os \<Rightarrow> int \<Rightarrow> string \<Rightarrow> status_socket \<times> 'w \<Rightarrow> (string \<times> status_socket \<times> 'w) outcome" where
  "respond os fd request = (\<lambda>(s, w).
     (if request = ''ping'' then Inr (''PONG'' @ [CHR 0x0A], s, w)
      else if request = ''version'' then Inr (version_text (ks s), s, w)
      else if request = ''status'' \<or> request = ''status/json'' \<or> request = ''STATUS'' then
        (case format_status os (ks s) w of Inl e \<Rightarrow> Inl e | Inr t \<Rightarrow> Inr (t, s, w))
      else if request = ''SUBSCRIBE'' then
        Inr ([], s\<lparr>subscribers := subscribers s @ [fd]\<rparr>, send_events os fd (ring_last_n (events s) 100) w)
      else if request \<noteq> [] then Inr (''ERR UNKNOWN_COMMAND '' @ request @ [CHR 0x0A], s, w)
      else Inr ([], s, w)))"

definition handle_client :: "'w status_os \<Rightarrow> int \<Rightarrow> status_socket \<times> 'w \<Rightarrow> (status_socket \<times> 'w) outcome" where
  "handle_client os fd = (\<lambda>(s, w).
     (if \<not> fd_ok fd then Inl Undefined_Behaviour
      else let (ready, w1) = so_ready os fd w in
        if ready \<le> 0 then Inr (s, so_close os fd w1)
        else let (data, w2) = so_read os fd 127 w1 in
          if data = None \<or> data = Some [] then Inr (s, so_close os fd w2)
          else (case respond os fd (strip_newlines (c_str (the data))) (s, w2) of
              Inl e \<Rightarrow> Inl e
            | Inr (resp, s', w3) \<Rightarrow>
                if resp = [] then Inr (s', w3)
                else let (is_open, w4) = so_write os fd resp w3 in if is_open then Inr (s', w4) else Inl Killed)))"

section \<open>The server\<close>

definition ss_bind :: "'w status_os \<Rightarrow> status_socket \<times> 'w \<Rightarrow> status_socket \<times> 'w" where
  "ss_bind os = (\<lambda>(s, w).
     (let w1 = so_unlink os (c_str (ss_path s)) w; (fd, w2) = so_socket os w1 in
      if fd < 0 then (s\<lparr>server_fd := fd\<rparr>, w2)
      else let (e, w3) = so_bind os fd (take 107 (c_str (ss_path s))) w2 in
        if e < 0 then (s\<lparr>server_fd := - 1\<rparr>, so_close os fd w3)
        else let w4 = so_chmod os (c_str (ss_path s)) (so_chmod os (c_str (ss_path s)) w3);
                 (l, w5) = so_listen os fd w4 in
          if l < 0 then (s\<lparr>server_fd := - 1\<rparr>, so_close os fd w5) else (s\<lparr>server_fd := fd\<rparr>, w5)))"

definition ss_close :: "'w status_os \<Rightarrow> status_socket \<times> 'w \<Rightarrow> status_socket \<times> 'w" where
  "ss_close os = (\<lambda>(s, w).
     (let w1 = (if 0 \<le> server_fd s then so_close os (server_fd s) w else w)
      in (s\<lparr>stop_requested := True, server_fd := (if 0 \<le> server_fd s then - 1 else server_fd s)\<rparr>,
          so_unlink os (c_str (ss_path s)) w1)))"

definition set_stop :: "status_socket \<Rightarrow> status_socket" where
  "set_stop s = s\<lparr>stop_requested := True\<rparr>"

text \<open>The subscribers whose descriptor is ready are read; those that closed are dropped.\<close>

fun sweep :: "'w status_os \<Rightarrow> int list \<Rightarrow> int list \<Rightarrow> 'w \<Rightarrow> int list \<times> 'w" where
  "sweep os ready [] w = ([], w)"
| "sweep os ready (fd # fds) w =
     (if fd \<in> set ready then
        (let (n, w1) = so_recv os fd w in
         if n \<le> 0 then sweep os ready fds (so_close os fd w1)
         else (let (keep, w2) = sweep os ready fds w1 in (fd # keep, w2)))
      else (let (keep, w2) = sweep os ready fds w in (fd # keep, w2)))"

text \<open>One iteration of the loop: whether it goes on, and the new state.\<close>

definition serve_iter :: "'w status_os \<Rightarrow> status_socket \<times> 'w \<Rightarrow> (bool \<times> status_socket \<times> 'w) outcome" where
  "serve_iter os = (\<lambda>(s, w).
     (if \<not> (fd_ok (server_fd s) \<and> list_all fd_ok (subscribers s)) then Inl Undefined_Behaviour
      else let (n, eintr, ready, w1) = so_select os (server_fd s # subscribers s) w in
        if n < 0 then Inr (eintr, s, w1)
        else if n = 0 then Inr (True, s, w1)
        else
          let accepted =
            (if server_fd s \<in> set ready then
               (let (fd, w2) = so_accept os (server_fd s) w1 in
                if 0 \<le> fd then handle_client os fd (s, w2) else Inr (s, w2))
             else Inr (s, w1))
          in (case accepted of
                Inl e \<Rightarrow> Inl e
              | Inr (s2, w3) \<Rightarrow> (let (keep, w4) = sweep os ready (subscribers s2) w3
                                in Inr (True, s2\<lparr>subscribers := keep\<rparr>, w4)))))"

fun publish_loop :: "'w status_os \<Rightarrow> string \<Rightarrow> int list \<Rightarrow> 'w \<Rightarrow> int list \<times> 'w" where
  "publish_loop os m [] w = ([], w)"
| "publish_loop os m (fd # fds) w =
     (let (n, w1) = so_send os fd m w in
      if n < 0 then publish_loop os m fds (so_close os fd w1)
      else (let (keep, w2) = publish_loop os m fds w1 in (fd # keep, w2)))"

definition publish_event :: "'w status_os \<Rightarrow> event \<Rightarrow> status_socket \<times> 'w \<Rightarrow> (status_socket \<times> 'w) outcome" where
  "publish_event os e = (\<lambda>(s, w).
     (case ring_push e (events s) of
        Inl f \<Rightarrow> Inl f
      | Inr r \<Rightarrow> (let (keep, w1) = publish_loop os (to_json e @ [CHR 0x0A]) (subscribers s) w
                 in Inr (s\<lparr>events := r, subscribers := keep\<rparr>, w1))))"

text \<open>
  The serving thread and the others: an iteration (none once the server is stopped or not bound),
  binding, publishing, stopping and closing.
\<close>

datatype status_op = Bind_Op | Iterate | Publish event | Stop_Op | Close_Op

fun status_step :: "'w status_os \<Rightarrow> status_op \<Rightarrow> status_socket \<times> 'w \<Rightarrow> (status_socket \<times> 'w) outcome" where
  "status_step os Bind_Op c = Inr (ss_bind os c)"
| "status_step os Iterate (s, w) =
     (if server_fd s < 0 \<or> stop_requested s then Inr (s, w)
      else (case serve_iter os (s, w) of Inl e \<Rightarrow> Inl e | Inr (go_on, c) \<Rightarrow> Inr c))"
| "status_step os (Publish e) c = publish_event os e c"
| "status_step os Stop_Op (s, w) = Inr (set_stop s, w)"
| "status_step os Close_Op c = Inr (ss_close os c)"

fun status_run :: "'w status_os \<Rightarrow> status_op list \<Rightarrow> status_socket \<times> 'w \<Rightarrow> (status_socket \<times> 'w) outcome" where
  "status_run os [] c = Inr c"
| "status_run os (op # ops) c = (case status_step os op c of Inl e \<Rightarrow> Inl e | Inr c' \<Rightarrow> status_run os ops c')"

section \<open>The log of events\<close>

fun published :: "status_op list \<Rightarrow> event list" where
  "published [] = []"
| "published (Publish e # ops) = e # published ops"
| "published (_ # ops) = published ops"

definition log_of :: "status_socket \<Rightarrow> event list \<Rightarrow> bool" where
  "log_of s es \<longleftrightarrow> ring_inv (events s) \<and> capacity (events s) = 100 \<and> ring_contents (events s) = take_last 100 es"

lemma respond_events: "respond os fd r (s, w) = Inr (t, s', w') \<Longrightarrow> events s' = events s"
  by (auto simp: respond_def split: if_splits sum.splits)

lemma handle_client_events: "handle_client os fd (s, w) = Inr (s', w') \<Longrightarrow> events s' = events s"
  by (auto simp: handle_client_def Let_def split: if_splits prod.splits sum.splits dest: respond_events)

lemma serve_iter_events:
  assumes "serve_iter os (s, w) = Inr (b, s', w')"
  shows "events s' = events s"
  using assms unfolding serve_iter_def
  by (auto simp: Let_def split: if_splits prod.splits sum.splits dest!: handle_client_events)

lemma publish_events:
  assumes "publish_event os e (s, w) = Inr (s', w')"
  shows "ring_push e (events s) = Inr (events s')"
  using assms by (auto simp: publish_event_def Let_def split: sum.splits prod.splits)

lemma status_step_log:
  assumes "status_step os op (s, w) = Inr (s', w')" and "log_of s es"
  shows "log_of s' (es @ published [op])"
proof (cases op)
  case (Publish e)
  have p: "ring_push e (events s) = Inr (events s')"
    using assms(1) Publish publish_events by simp
  have inv: "ring_inv (events s)" "capacity (events s) = 100" "ring_contents (events s) = take_last 100 es"
    using assms(2) by (simp_all add: log_of_def)
  have "ring_contents (events s') = take_last 100 (es @ [e])"
    using ring.push_contents [OF inv(1) p] by (simp add: inv(2,3) take_last_append_take_last)
  then show ?thesis
    using ring.push_inv [OF inv(1) p] ring.push_cap [OF inv(1) p] inv(2) Publish by (simp add: log_of_def)
next
  case Iterate
  then have "events s' = events s"
    using assms(1) by (auto split: if_splits sum.splits dest: serve_iter_events)
  then show ?thesis using assms(2) Iterate by (simp add: log_of_def)
next
  case Bind_Op
  then have "events s' = events s"
    using assms(1) by (auto simp: ss_bind_def Let_def split: if_splits prod.splits)
  then show ?thesis using assms(2) Bind_Op by (simp add: log_of_def)
next
  case Stop_Op
  then show ?thesis using assms by (auto simp: log_of_def set_stop_def)
next
  case Close_Op
  then show ?thesis using assms by (auto simp: log_of_def ss_close_def Let_def)
qed

lemma published_append: "published (ops @ ops') = published ops @ published ops'"
  by (induction ops rule: published.induct) auto

lemma status_run_log:
  "status_run os ops (s, w) = Inr (s', w') \<Longrightarrow> log_of s es \<Longrightarrow> log_of s' (es @ published ops)"
proof (induction ops arbitrary: s w es)
  case Nil
  then show ?case by simp
next
  case (Cons op ops)
  obtain s1 w1 where st: "status_step os op (s, w) = Inr (s1, w1)" "status_run os ops (s1, w1) = Inr (s', w')"
    using Cons.prems(1) by (auto split: sum.splits)
  have "log_of s1 (es @ published [op])" by (rule status_step_log [OF st(1) Cons.prems(2)])
  from Cons.IH [OF st(2) this] show ?case
    using published_append [of "[op]" ops] by simp
qed

text \<open>The same system that also keeps a record of all that is written or sent to a descriptor.\<close>

definition kept :: "('w \<Rightarrow> 'a \<times> 'w) \<Rightarrow> 'w \<times> 'l \<Rightarrow> 'a \<times> 'w \<times> 'l" where
  "kept f = (\<lambda>(w, l). (fst (f w), snd (f w), l))"

definition noted :: "(int \<Rightarrow> string \<Rightarrow> 'w \<Rightarrow> 'a \<times> 'w) \<Rightarrow> int \<Rightarrow> string \<Rightarrow>
    'w \<times> (int \<times> string) list \<Rightarrow> 'a \<times> 'w \<times> (int \<times> string) list" where
  "noted f fd t = (\<lambda>(w, l). (fst (f fd t w), snd (f fd t w), l @ [(fd, t)]))"

definition recording :: "'w status_os \<Rightarrow> ('w \<times> (int \<times> string) list) status_os" where
  "recording os = \<lparr>so_socket = kept (so_socket os), so_bind = (\<lambda>fd p. kept (so_bind os fd p)),
     so_listen = (\<lambda>fd. kept (so_listen os fd)), so_chmod = (\<lambda>p. map_prod (so_chmod os p) id),
     so_unlink = (\<lambda>p. map_prod (so_unlink os p) id), so_close = (\<lambda>fd. map_prod (so_close os fd) id),
     so_accept = (\<lambda>fd. kept (so_accept os fd)),
     so_select = (\<lambda>fds (w, l). let (n, eintr, ready, w') = so_select os fds w in (n, eintr, ready, w', l)),
     so_ready = (\<lambda>fd. kept (so_ready os fd)), so_read = (\<lambda>fd n. kept (so_read os fd n)),
     so_recv = (\<lambda>fd. kept (so_recv os fd)), so_write = noted (so_write os), so_send = noted (so_send os),
     so_now = so_now os \<circ> fst, so_statm = so_statm os \<circ> fst, so_self_status = so_self_status os \<circ> fst\<rparr>"

lemma send_events_recorded:
  "send_events (recording os) fd es (w, l) =
     (send_events os fd es w, l @ map (\<lambda>e. (fd, to_json e @ [CHR 0x0A])) es)"
  by (induction es arbitrary: w l) (simp_all add: recording_def noted_def)

lemma status_run_ring:
  assumes "status_run os ops (new_socket path pid now, w) = Inr (s, w')"
  shows "ring_last_n (events s) 100 = take_last 100 (published ops)"
proof -
  have "log_of (new_socket path pid now) []"
    using ring_new_inv [of 100 no_event] ring_new_contents [of no_event 100]
    by (simp add: log_of_def new_socket_def) (simp add: ring_new_def)
  then have "log_of s (published ops)" using status_run_log [OF assms] by fastforce
  then show ?thesis using ring.last_n_contents [of "events s" 100] by (simp add: log_of_def)
qed

lemma handle_subscribe:
  assumes "fd_ok fd" and "so_ready os fd w = (n, w1)" and "0 < n" and "so_read os fd 127 w1 = (Some data, w2)"
    and "strip_newlines (c_str data) = ''SUBSCRIBE''"
  shows "handle_client os fd (s, w) =
    Inr (s\<lparr>subscribers := subscribers s @ [fd]\<rparr>, send_events os fd (ring_last_n (events s) 100) w2)"
proof -
  have "data \<noteq> []" using assms(5) by (auto simp: strip_newlines_def c_str_def)
  then show ?thesis using assms by (simp add: handle_client_def respond_def)
qed

text \<open>
  C16: whatever was bound, served, published and stopped before in whatever order, a client that asks to
  subscribe becomes a subscriber, and all that is written to any descriptor while it is handled are
  the last 100 published events, oldest first, each as a line of JSON to this client; keeping the
  record changes nothing else.
\<close>

theorem subscriber_replay:
  assumes "status_run os ops (new_socket path pid now, w0) = Inr (s, w)" and "fd_ok fd"
    and "so_ready os fd w = (n, w1)" and "0 < n" and "so_read os fd 127 w1 = (Some data, w2)"
    and "strip_newlines (c_str data) = ''SUBSCRIBE''"
  shows "\<exists>w'. handle_client os fd (s, w) = Inr (s\<lparr>subscribers := subscribers s @ [fd]\<rparr>, w') \<and>
    handle_client (recording os) fd (s, (w, l)) = Inr (s\<lparr>subscribers := subscribers s @ [fd]\<rparr>,
      (w', l @ map (\<lambda>e. (fd, to_json e @ [CHR 0x0A])) (take_last 100 (published ops))))"
proof -
  have "so_ready (recording os) fd (w, l) = (n, w1, l)" "so_read (recording os) fd 127 (w1, l) = (Some data, w2, l)"
    using assms(3,5) by (simp_all add: recording_def kept_def)
  from handle_subscribe [OF assms(2) this(1) assms(4) this(2) assms(6)] handle_subscribe [OF assms(2-6)]
  show ?thesis by (simp add: send_events_recorded status_run_ring [OF assms(1)])
qed

text \<open>A system whose state is the list of what was sent, on which all calls succeed.\<close>

definition echo_os :: "(int \<times> string) list status_os" where
  "echo_os = \<lparr>so_socket = (\<lambda>w. (3, w)), so_bind = (\<lambda>fd p w. (0, w)), so_listen = (\<lambda>fd w. (0, w)),
     so_chmod = (\<lambda>p w. w), so_unlink = (\<lambda>p w. w), so_close = (\<lambda>fd w. w), so_accept = (\<lambda>fd w. (4, w)),
     so_select = (\<lambda>fds w. (0, False, [], w)), so_ready = (\<lambda>fd w. (1, w)),
     so_read = (\<lambda>fd n w. (Some (''ping'' @ [CHR 0x0A]), w)), so_recv = (\<lambda>fd w. (0, w)),
     so_write = (\<lambda>fd t w. (True, w @ [(fd, t)])), so_send = (\<lambda>fd t w. (0, w @ [(fd, t)])), so_now = (\<lambda>w. 0),
     so_statm = (\<lambda>w. None), so_self_status = (\<lambda>w. None)\<rparr>"

theorem subscriber_replay_witness:
  "let os = echo_os\<lparr>so_read := (\<lambda>fd n w. (Some (''SUBSCRIBE'' @ [CHR 0x0A]), w))\<rparr>; e = no_event\<lparr>ev_id := ''a''\<rparr>
   in \<exists>s w s' w'. status_run os [Bind_Op, Publish e] (new_socket ''/s'' 7 0, []) = Inr (s, w) \<and>
     handle_client (recording os) 4 (s, (w, [])) = Inr (s', (w', [(4, to_json e @ [CHR 0x0A])]))"
proof -
  let ?os = "echo_os\<lparr>so_read := (\<lambda>fd n w. (Some (''SUBSCRIBE'' @ [CHR 0x0A]), w))\<rparr>" and ?e = "no_event\<lparr>ev_id := ''a''\<rparr>"
  let ?c = "(new_socket ''/s'' 7 0, [])" and ?ops = "[Bind_Op, Publish ?e]"
  obtain s w where r: "status_run ?os ?ops ?c = Inr (s, w)"
    by (simp add: ss_bind_def echo_os_def new_socket_def publish_event_def ring_push_def ring_new_def Let_def)
  have rd: "so_ready ?os 4 w = (1, w)" "so_read ?os 4 127 w = (Some (''SUBSCRIBE'' @ [CHR 0x0A]), w)"
    by (simp_all add: echo_os_def)
  have "fd_ok 4" "(0 :: int) < 1" "strip_newlines (c_str (''SUBSCRIBE'' @ [CHR 0x0A])) = ''SUBSCRIBE''"
    by (simp_all add: fd_ok_def FD_SETSIZE_def strip_newlines_def c_str_def)
  from subscriber_replay [OF r this(1) rd(1) this(2) rd(2) this(3), of "[]"]
  obtain s' w' where "handle_client (recording ?os) 4 (s, (w, [])) = Inr (s', (w', [(4, to_json ?e @ [CHR 0x0A])]))"
    by (auto simp: take_last_def)
  then show ?thesis using r unfolding Let_def by blast
qed

section \<open>Descriptors\<close>

lemma respond_plain:
  "request \<noteq> ''SUBSCRIBE'' \<Longrightarrow> respond os fd request (s, w) = Inr (t, s', w') \<Longrightarrow> s' = s \<and> w' = w"
  unfolding respond_def by (simp split: if_splits sum.splits)

text \<open>
  a client that is answered is never closed: after any request but \<open>SUBSCRIBE\<close> the only effect
  is one write of the reply, while the descriptor is neither closed nor kept, so it stays open for
  the life of the process.
\<close>

theorem answered_client_stays_open:
  assumes "so_ready os fd w = (n, w1)" and "0 < n" and "so_read os fd 127 w1 = (Some data, w2)" and "data \<noteq> []"
    and "strip_newlines (c_str data) \<noteq> ''SUBSCRIBE''" and "handle_client os fd (s, w) = Inr (s', w')"
  shows "s' = s \<and> (\<exists>resp. w' = (if resp = [] then w2 else snd (so_write os fd resp w2)))"
proof -
  let ?r = "respond os fd (strip_newlines (c_str data)) (s, w2)"
  have "fd_ok fd" using assms(6) by (cases "fd_ok fd") (simp_all add: handle_client_def)
  then have h: "handle_client os fd (s, w) = (case ?r of Inl e \<Rightarrow> Inl e
      | Inr (resp, s', w3) \<Rightarrow> if resp = [] then Inr (s', w3)
          else let (is_open, w4) = so_write os fd resp w3 in if is_open then Inr (s', w4) else Inl Killed)"
    using assms(1-4) by (simp add: handle_client_def)
  then obtain t s1 w3 where r: "?r = Inr (t, s1, w3)"
    using assms(6) by (cases ?r) (simp, metis prod_cases3)
  then have "s1 = s" "w3 = w2" using respond_plain [OF assms(5) r] by simp_all
  then show ?thesis using assms(6) h r
    by (intro conjI exI [of _ t]) (auto simp: split_beta split: if_splits)
qed

theorem answered_client_stays_open_witness:
  "handle_client echo_os 4 (new_socket ''/s'' 7 0, []) =
     Inr (new_socket ''/s'' 7 0, [(4, ''PONG'' @ [CHR 0x0A])])"
proof -
  let ?s = "new_socket ''/s'' 7 0"
  have rd: "so_ready echo_os 4 [] = (1, [])" "so_read echo_os 4 127 [] = (Some (''ping'' @ [CHR 0x0A]), [])"
    by (simp_all add: echo_os_def)
  have req: "strip_newlines (c_str (''ping'' @ [CHR 0x0A])) = ''ping''"
    by (simp add: strip_newlines_def c_str_def)
  have r: "handle_client echo_os 4 (?s, []) = Inr (?s, [(4, ''PONG'' @ [CHR 0x0A])])"
    by code_simp
  have "(1 :: int) > 0" "''ping'' @ [CHR 0x0A] \<noteq> []" "strip_newlines (c_str (''ping'' @ [CHR 0x0A])) \<noteq> ''SUBSCRIBE''"
    using req by simp_all
  from answered_client_stays_open [OF rd(1) this(1) rd(2) this(2,3) r] show ?thesis using r by simp
qed

text \<open>
  A client that has closed its end before the reply is written ends the whole process: the signal
  that \<open>write\<close> raises is not handled, other than for events, which are sent with \<open>MSG_NOSIGNAL\<close>.
\<close>

lemma closed_client_kills:
  "handle_client os fd (s, w) = Inl Killed \<longleftrightarrow>
     (\<exists>n w1 data w2 resp s' w3. fd_ok fd \<and> so_ready os fd w = (n, w1) \<and> 0 < n \<and>
        so_read os fd 127 w1 = (Some data, w2) \<and> data \<noteq> [] \<and>
        respond os fd (strip_newlines (c_str data)) (s, w2) = Inr (resp, s', w3) \<and> resp \<noteq> [] \<and>
        \<not> fst (so_write os fd resp w3))"
proof -
  obtain n w1 where rdy: "so_ready os fd w = (n, w1)" by fastforce
  obtain d w2 where rd: "so_read os fd 127 w1 = (d, w2)" by fastforce
  have "respond os fd r (s, w2) \<noteq> Inl Killed" for r
    by (simp add: respond_def format_status_def get_rss_kb_def string_of_buf_def Let_def
        split: option.split sum.split if_split)
  then show ?thesis
    by (auto simp: handle_client_def rdy rd split_beta split: if_splits sum.splits)
qed

section \<open>The length of the status text\<close>

lemma length_show_nat: "n < 10 ^ Suc k \<Longrightarrow> length (show_nat n) \<le> Suc k"
proof (induction k arbitrary: n)
  case 0
  then show ?case by (simp add: show_nat.simps [of n])
next
  case (Suc k)
  show ?case
  proof (cases "n < 10")
    case True
    then show ?thesis by (simp add: show_nat.simps [of n])
  next
    case False
    have "n div 10 < 10 ^ Suc k" using Suc.prems by (simp add: less_mult_imp_div_less)
    from Suc.IH [OF this] False show ?thesis by (simp add: show_nat.simps [of n])
  qed
qed

lemma length_show_int:
  assumes "\<bar>z\<bar> < 10 ^ Suc k"
  shows "length (show_int z) \<le> Suc (Suc k)"
proof -
  have "nat \<bar>z\<bar> < 10 ^ Suc k" using assms by (simp add: nat_less_iff)
  then have "length (show_nat (nat \<bar>z\<bar>)) \<le> Suc k" by (rule length_show_nat)
  then show ?thesis by (auto simp: show_int_def)
qed

text \<open>
  the buffer of the status reply is large enough: for every value its fields can hold the text is
  shorter than the buffer, so the reply is the whole text and nothing past the buffer is read.
\<close>

theorem status_text_fits:
  assumes "protocol_version k < 2 ^ 32" and "length (ks_version k) \<le> 64"
    and "\<bar>ks_pid k\<bar> \<le> 2 ^ 31" and "\<bar>uptime\<bar> \<le> 2 ^ 63" and "rss < 2 ^ 64" and "\<bar>threads\<bar> \<le> 2 ^ 31"
    and "\<bar>queue_depth k\<bar> \<le> 2 ^ 31"
  shows "length (status_text k uptime rss threads) \<le> 261 \<and>
    string_of_buf (status_text k uptime rss threads) = Inr (status_text k uptime rss threads)"
proof -
  have "length (show_nat (protocol_version k)) \<le> 10" using length_show_nat [of _ 9] assms(1) by simp
  moreover have "length (show_int (ks_pid k)) \<le> 11" using length_show_int [of _ 9] assms(3) by simp
  moreover have "length (show_int uptime) \<le> 20" using length_show_int [of _ 18] assms(4) by simp
  moreover have "length (show_nat rss) \<le> 20" using length_show_nat [of _ 19] assms(5) by simp
  moreover have "length (show_int threads) \<le> 11" using length_show_int [of _ 9] assms(6) by simp
  moreover have "length (show_int (queue_depth k)) \<le> 11" using length_show_int [of _ 9] assms(7) by simp
  ultimately have "length (status_text k uptime rss threads) \<le> 261"
    using assms(2) by (simp add: status_text_def json_key_def)
  then show ?thesis by (simp add: string_of_buf_def)
qed

theorem status_text_fits_witness:
  "string_of_buf (status_text (ks (new_socket ''/s'' 7 0)) 5000 1024 3) =
     Inr (status_text (ks (new_socket ''/s'' 7 0)) 5000 1024 3)"
  using status_text_fits [of "ks (new_socket ''/s'' 7 0)" 5000 1024 3] by (simp add: new_socket_def kVersion_def)

end
