(* ===== verification/Double_Text.thy ===== *)
theory Double_Text
  imports Binary64 Prelude
begin

text \<open>
  The text of a \<open>double\<close>: \<open>std::stod\<close> (\<open>strtod\<close> with its decimal, hexadecimal and named forms) and
  \<open>operator<<\<close> with the default precision of six significant digits. The sign of zero and of
  not-a-number is not represented. The decimal value is exact and rounded once.
\<close>

section \<open>\<open>std::stod\<close>\<close>

definition lower :: "char \<Rightarrow> char" where
  "lower c = (let n = (of_char c :: nat) in if 65 \<le> n \<and> n \<le> 90 then char_of (n + 32) else c)"

definition starts_lower :: "string \<Rightarrow> string \<Rightarrow> bool" where
  "starts_lower word s \<longleftrightarrow> map lower (take (length word) s) = word"

definition is_xdigit :: "char \<Rightarrow> bool" where
  "is_xdigit c \<longleftrightarrow> is_digit c \<or> lower c \<in> set ''abcdef''"

definition xdigit_val :: "char \<Rightarrow> nat" where
  "xdigit_val c = (if is_digit c then digit_val c else of_char (lower c) - 87)"

definition radix_value :: "nat \<Rightarrow> string \<Rightarrow> nat" where
  "radix_value b ds = foldl (\<lambda>n c. b * n + xdigit_val c) 0 ds"

text \<open>Digits, then a point and digits: the mantissa as digits and the number of them after the point.\<close>

definition scan_mantissa :: "(char \<Rightarrow> bool) \<Rightarrow> string \<Rightarrow> string \<times> nat \<times> string" where
  "scan_mantissa P s =
     (let i = takeWhile P s; r = dropWhile P s in
      case r of
        c # q \<Rightarrow> if c = CHR ''.'' then (i @ takeWhile P q, length (takeWhile P q), dropWhile P q) else (i, 0, r)
      | [] \<Rightarrow> (i, 0, []))"

text \<open>An exponent after its letter: a sign and digits, or nothing.\<close>

definition scan_exponent :: "char \<Rightarrow> string \<Rightarrow> int" where
  "scan_exponent letter s =
     (case s of
        [] \<Rightarrow> 0
      | c # r \<Rightarrow>
          if lower c \<noteq> letter then 0
          else (case r of
                  [] \<Rightarrow> 0
                | d # q \<Rightarrow>
                    if d = CHR ''-'' then - int (dec_value (takeWhile is_digit q))
                    else if d = CHR ''+'' then int (dec_value (takeWhile is_digit q))
                    else int (dec_value (takeWhile is_digit r))))"

text \<open>The exact value of a number in decimal or hexadecimal notation; \<open>None\<close> when there is none.\<close>

definition scan_number :: "string \<Rightarrow> rat option" where
  "scan_number s =
     (let (xs, xf, xr) = scan_mantissa is_xdigit (drop 2 s);
          (ds, f, r) = scan_mantissa is_digit s
      in if starts_lower ''0x'' s \<and> xs \<noteq> []
         then Some (of_nat (radix_value 16 xs) * 2 powi (scan_exponent (CHR ''p'') xr - 4 * int xf))
         else if ds = [] then None
         else Some (of_nat (dec_value ds) * 10 powi (scan_exponent (CHR ''e'') r - int f)))"

text \<open>
  \<open>errno\<close> is \<open>ERANGE\<close> on overflow and on an inexact result below the normal range.
\<close>

definition stod_round :: "bool \<Rightarrow> rat \<Rightarrow> double outcome" where
  "stod_round neg q =
     (case round64 q of
        Fin v \<Rightarrow> if v \<noteq> q \<and> v < 2 powi (- 1022) then Inl Out_Of_Range else Inr (Fin (if neg then - v else v))
      | _ \<Rightarrow> Inl Out_Of_Range)"

definition stod :: "string \<Rightarrow> double outcome" where
  "stod s =
     (let t = dropWhile is_space s;
          neg = (take 1 t = ''-'');
          r = (if neg \<or> take 1 t = ''+'' then drop 1 t else t)
      in if starts_lower ''inf'' r then Inr (Inf neg)
         else if starts_lower ''nan'' r then Inr NaN
         else (case scan_number r of None \<Rightarrow> Inl Invalid_Argument | Some q \<Rightarrow> stod_round neg q))"

section \<open>Printing\<close>

text \<open>The decimal exponent of a positive rational, and its six digits rounded to even.\<close>

definition exp10 :: "rat \<Rightarrow> int" where
  "exp10 q =
     (let (n, d) = quotient_of q;
          e = int (length (show_nat (nat n))) - int (length (show_nat (nat d)))
      in if 10 powi e \<le> q then e else e - 1)"

definition six_digits :: "rat \<Rightarrow> string \<times> int" where
  "six_digits q =
     (let e = exp10 q; m = nat (round_even (q * 10 powi (5 - e)))
      in if m = 1000000 then (''100000'', e + 1) else (show_nat m, e))"

definition strip_zeros :: "string \<Rightarrow> string" where
  "strip_zeros ds = rev (dropWhile (\<lambda>c. c = CHR ''0'') (rev ds))"

definition with_fraction :: "string \<Rightarrow> string \<Rightarrow> string" where
  "with_fraction i f = (if strip_zeros f = [] then i else i @ CHR ''.'' # strip_zeros f)"

definition show_exponent :: "int \<Rightarrow> string" where
  "show_exponent e =
     (if e < 0 then ''e-'' else ''e+'') @ (if \<bar>e\<bar> < 10 then ''0'' else []) @ show_nat (nat \<bar>e\<bar>)"

definition show_pos :: "rat \<Rightarrow> string" where
  "show_pos q =
     (let (ds, e) = six_digits q in
      if e < - 4 \<or> 6 \<le> e then with_fraction (take 1 ds) (drop 1 ds) @ show_exponent e
      else if 0 \<le> e then with_fraction (take (nat e + 1) ds) (drop (nat e + 1) ds)
      else with_fraction ''0'' (replicate (nat (- e - 1)) (CHR ''0'') @ ds))"

fun show_double :: "double \<Rightarrow> string" where
  "show_double NaN = ''nan''"
| "show_double (Inf s) = (if s then ''-inf'' else ''inf'')"
| "show_double (Fin v) =
     (if v = 0 then ''0'' else if v < 0 then CHR ''-'' # show_pos (- v) else show_pos v)"

section \<open>Integers\<close>

lemma show_nat_range:
  "0 < n \<Longrightarrow> 10 ^ (length (show_nat n) - 1) \<le> n \<and> n < 10 ^ length (show_nat n)"
proof (induction n rule: show_nat.induct)
  case (1 n)
  show ?case
  proof (cases "n < 10")
    case True
    then show ?thesis using 1(2) by (simp add: show_nat.simps [of n])
  next
    case False
    let ?m = "n div 10" and ?l = "length (show_nat (n div 10))"
    have m: "10 ^ (?l - 1) \<le> ?m" "?m < 10 ^ ?l" using 1(1) False by simp_all
    have l: "length (show_nat n) = Suc ?l" using False by (simp add: show_nat.simps [of n])
    have "0 < ?l" by simp
    then have "10 ^ ?l = 10 * (10 :: nat) ^ (?l - 1)" by (metis Suc_diff_1 power_Suc)
    then have "10 ^ ?l \<le> n" using m(1) by simp
    moreover have "n < 10 * 10 ^ ?l" using m(2) by simp
    ultimately show ?thesis by (simp add: l)
  qed
qed

lemma digit_char_values: "digit_char 0 = CHR ''0''" "digit_char 1 = CHR ''1''"
  by code_simp+

lemma show_nat_times_ten: "0 < n \<Longrightarrow> show_nat (n * 10 ^ j) = show_nat n @ replicate j (CHR ''0'')"
proof (induction j)
  case (Suc j)
  have "\<not> n * 10 ^ Suc j < 10" using Suc.prems by simp
  moreover have "n * 10 ^ Suc j div 10 = n * 10 ^ j" "n * 10 ^ Suc j mod 10 = 0" by simp_all
  ultimately show ?case
    using Suc digit_char_values(1) by (simp add: show_nat.simps [of "n * 10 ^ Suc j"] replicate_append_same del: power_Suc)
qed simp

lemma strip_zeros_replicate [simp]: "strip_zeros (replicate j (CHR ''0'')) = []"
  by (simp add: strip_zeros_def)

lemma show_double_nat:
  assumes "n < 10 ^ 6"
  shows "show_double (Fin (of_nat n)) = show_nat n"
proof (cases "n = 0")
  case True
  then show ?thesis by (simp add: show_nat.simps [of 0] digit_char_values)
next
  case False
  let ?l = "length (show_nat n)" and ?q = "of_nat n :: rat"
  have n: "10 ^ (?l - 1) \<le> n" "n < 10 ^ ?l" using show_nat_range [of n] False by simp_all
  have l: "1 \<le> ?l" "?l \<le> 6"
  proof -
    have "0 < ?l" by simp
    then show "1 \<le> ?l" by linarith
    have "(10 :: nat) ^ (?l - 1) < 10 ^ 6" using n(1) assms by linarith
    then have "?l - 1 < 6" by (rule power_less_imp_less_exp [rotated]) simp
    then show "?l \<le> 6" by simp
  qed
  have quo: "quotient_of ?q = (int n, 1)"
    using quotient_of_int [of "int n"] by simp
  have one: "length (show_nat (Suc 0)) = 1" by (simp add: show_nat.simps [of "Suc 0"])
  have "10 powi (int ?l - 1) \<le> ?q"
    using n(1) l(1) by (simp add: power_int_def nat_diff_distrib')
  then have e: "exp10 ?q = int (?l - 1)"
    using l(1) by (simp add: exp10_def quo one Let_def)
  have m: "?q * 10 powi (5 - int (?l - 1)) = of_int (int (n * 10 ^ (6 - ?l)))"
    using l by (simp add: power_int_def nat_diff_distrib')
  have "nat (round_even (?q * 10 powi (5 - int (?l - 1)))) = n * 10 ^ (6 - ?l)"
    unfolding m round_even_int by (rule nat_int)
  moreover have "n * 10 ^ (6 - ?l) \<noteq> 1000000"
  proof -
    have "n * 10 ^ (6 - ?l) < 10 ^ ?l * 10 ^ (6 - ?l)" using n(2) by simp
    then show ?thesis using l(2) by (simp flip: power_add)
  qed
  ultimately have ds: "six_digits ?q = (show_nat n @ replicate (6 - ?l) (CHR ''0''), int (?l - 1))"
    using False unfolding six_digits_def e Let_def by (simp only: show_nat_times_ten if_False neq0_conv)
  have "show_pos ?q = show_nat n"
    using l by (simp add: show_pos_def ds with_fraction_def)
  then show ?thesis using False by simp
qed

lemma stod_show_nat:
  assumes "n \<le> 2 ^ 53"
  shows "stod (CHR '' '' # show_nat n) = Inr (Fin (of_nat n))"
proof -
  obtain c cs where s: "show_nat n = c # cs" by (metis neq_Nil_conv show_nat_nonempty)
  have dig: "\<forall>x \<in> set (show_nat n). is_digit x" by (rule show_nat_digits)
  then have c: "is_digit c" using s by simp
  have tw: "takeWhile is_digit (show_nat n) = show_nat n" "dropWhile is_digit (show_nat n) = []"
    using dig by simp_all
  have blank: "is_space (CHR '' '')" by (simp add: is_space_def)
  have skip: "dropWhile is_space (CHR '' '' # show_nat n) = show_nat n"
    using s digit_not_space [OF c] blank by simp
  have sign: "take 1 (show_nat n) \<noteq> ''-''" "take 1 (show_nat n) \<noteq> ''+''"
    using s c by (auto simp: is_digit_def)
  have "lower c = c" using c by (auto simp: lower_def is_digit_def Let_def)
  then have words: "\<not> starts_lower ''inf'' (show_nat n)" "\<not> starts_lower ''nan'' (show_nat n)"
    using s c by (auto simp: starts_lower_def is_digit_def)
  have "\<not> starts_lower ''0x'' (show_nat n)"
  proof
    assume hex: "starts_lower ''0x'' (show_nat n)"
    then obtain d ds where d: "show_nat n = c # d # ds" "lower d = CHR ''x''"
      using s by (cases cs) (auto simp: starts_lower_def)
    then have "is_digit d" using dig by simp
    then have "lower d = d" by (auto simp: lower_def is_digit_def Let_def)
    then show False using d(2) \<open>is_digit d\<close> by (auto simp: is_digit_def)
  qed
  then have num: "scan_number (show_nat n) = Some (of_nat n)"
    by (simp add: scan_number_def scan_mantissa_def tw scan_exponent_def dec_value_show_nat Let_def split_beta)
  have "round64 (of_nat n) = Fin (of_nat n)" using round64_int [of "int n"] assms by simp
  then have "stod_round False (of_nat n) = Inr (Fin (of_nat n))" by (simp add: stod_round_def)
  then show ?thesis using skip sign words num by (simp add: stod_def)
qed

end
