(* ===== verification/Policy_File.thy ===== *)
theory Policy_File
  imports Resource_Governor Double_Text
begin

text \<open>
  The policy as text: the fields of a JSON object as \<open>PolicyStore::load\<close>
  (\<open>src/config/policy_store.cpp\<close>) and \<open>Daemon::update_policy\<close> (\<open>src/daemon/daemon.cpp\<close>) read them,
  the same loop in both, and the file that \<open>PolicyStore::save\<close> writes. The file system is a map from
  paths to contents; what can fail is the parameter \<open>disk\<close>.
\<close>

section \<open>Reading fields\<close>

definition is_padding :: "char \<Rightarrow> bool" where
  "is_padding c \<longleftrightarrow> is_space c \<or> c = CHR ''{'' \<or> c = CHR ''}''"

definition trim_by :: "(char \<Rightarrow> bool) \<Rightarrow> string \<Rightarrow> string" where
  "trim_by P s = rev (dropWhile P (rev (dropWhile P s)))"

text \<open>\<open>front\<close> and \<open>back\<close> of an empty string are undefined.\<close>

definition unquote_key :: "string \<Rightarrow> string outcome" where
  "unquote_key key =
     (if key = [] then Inl Undefined_Behaviour
      else let k = (if hd key = CHR 0x22 then tl key else key) in
        if k = [] then Inl Undefined_Behaviour
        else Inr (if last k = CHR 0x22 then butlast k else k))"

text \<open>The key and the value of a token, or nothing when it has no colon.\<close>

definition token_field :: "string \<Rightarrow> (string \<times> string) option outcome" where
  "token_field token =
     (let t = trim_by is_padding token in
      if CHR '':'' \<notin> set t then Inr None
      else (case unquote_key (takeWhile (\<lambda>c. c \<noteq> CHR '':'') t) of
              Inl e \<Rightarrow> Inl e
            | Inr key \<Rightarrow> Inr (Some (key, tl (dropWhile (\<lambda>c. c \<noteq> CHR '':'') t)))))"

text \<open>The field is set, or \<open>None\<close> for an unknown key.\<close>

definition set_field :: "string \<Rightarrow> string \<Rightarrow> GovernorPolicy \<Rightarrow> GovernorPolicy option outcome" where
  "set_field key v p =
     (if key = ''max_running_jobs'' then map_sum id (\<lambda>n. Some (p\<lparr>max_running_jobs := n\<rparr>)) (stoi v)
      else if key = ''max_queue_depth'' then map_sum id (\<lambda>n. Some (p\<lparr>max_queue_depth := n\<rparr>)) (stoi v)
      else if key = ''cpu_high_watermark_pct'' then map_sum id (\<lambda>d. Some (p\<lparr>cpu_high_watermark_pct := d\<rparr>)) (stod v)
      else if key = ''mem_high_watermark_pct'' then map_sum id (\<lambda>d. Some (p\<lparr>mem_high_watermark_pct := d\<rparr>)) (stod v)
      else if key = ''cooldown_ms'' then map_sum id (\<lambda>n. Some (p\<lparr>cooldown_ms := n\<rparr>)) (stoull v)
      else if key = ''min_start_gap_ms'' then map_sum id (\<lambda>n. Some (p\<lparr>min_start_gap_ms := n\<rparr>)) (stoull v)
      else Inr None)"

text \<open>
  The loop over the tokens; \<open>prep\<close> is what the reader does to a value first (the daemon trims it).
\<close>

fun read_fields :: "(string \<Rightarrow> string) \<Rightarrow> string list \<Rightarrow> GovernorPolicy \<Rightarrow> GovernorPolicy outcome" where
  "read_fields prep [] p = Inr p"
| "read_fields prep (t # ts) p =
     (case token_field t of
        Inl e \<Rightarrow> Inl e
      | Inr None \<Rightarrow> read_fields prep ts p
      | Inr (Some (k, v)) \<Rightarrow>
          (case set_field k (prep v) p of
             Inl e \<Rightarrow> Inl e
           | Inr None \<Rightarrow> read_fields prep ts p
           | Inr (Some p') \<Rightarrow> read_fields prep ts p'))"

section \<open>The file\<close>

type_synonym files = "string \<Rightarrow> string option"

definition check_counts :: "GovernorPolicy \<Rightarrow> GovernorPolicy" where
  "check_counts p =
     (let p1 = (if max_running_jobs p < 1 \<or> 1000 < max_running_jobs p then p\<lparr>max_running_jobs := 10\<rparr> else p)
      in if max_queue_depth p1 < 1 \<or> 10000 < max_queue_depth p1 then p1\<lparr>max_queue_depth := 100\<rparr> else p1)"

definition load_policy :: "string \<Rightarrow> files \<Rightarrow> GovernorPolicy outcome" where
  "load_policy path fs = (case fs path of
      None \<Rightarrow> Inr default_policy
    | Some content \<Rightarrow>
        map_sum id check_counts (read_fields (\<lambda>v. v) (getlines (CHR '','') content) default_policy))"

definition policy_line :: "string \<Rightarrow> string \<Rightarrow> string" where
  "policy_line key v = ''  '' @ [CHR 0x22] @ key @ [CHR 0x22] @ '': '' @ v"

definition policy_text :: "GovernorPolicy \<Rightarrow> string" where
  "policy_text p = ''{'' @ [CHR 0x0A] @
     policy_line ''max_running_jobs'' (show_int (max_running_jobs p)) @ '','' @ [CHR 0x0A] @
     policy_line ''max_queue_depth'' (show_int (max_queue_depth p)) @ '','' @ [CHR 0x0A] @
     policy_line ''cpu_high_watermark_pct'' (show_double (cpu_high_watermark_pct p)) @ '','' @ [CHR 0x0A] @
     policy_line ''mem_high_watermark_pct'' (show_double (mem_high_watermark_pct p)) @ '','' @ [CHR 0x0A] @
     policy_line ''cooldown_ms'' (show_nat (cooldown_ms p)) @ '','' @ [CHR 0x0A] @
     policy_line ''min_start_gap_ms'' (show_nat (min_start_gap_ms p)) @ [CHR 0x0A] @
     ''}'' @ [CHR 0x0A]"

text \<open>
  Whether the temporary file can be opened, how many characters can be written to it, whether it can
  be renamed. The state of the stream is not tested, so a short write is not noticed.
\<close>

record disk =
  can_open :: bool
  room :: nat
  can_rename :: bool

definition save_policy :: "disk \<Rightarrow> GovernorPolicy \<Rightarrow> string \<Rightarrow> files \<Rightarrow> unit outcome \<times> files" where
  "save_policy dk p path fs =
     (let tmp = path @ ''.tmp'' in
      if \<not> can_open dk then (Inl (Runtime_Error ''Failed to open temp policy file''), fs)
      else let fs1 = fs(tmp \<mapsto> take (room dk) (policy_text p)) in
        if \<not> can_rename dk then (Inl (Runtime_Error ''Failed to rename policy file''), fs1)
        else (Inr (), fs1(path := fs1 tmp, tmp := None)))"

section \<open>Reading what was written\<close>

lemma trim_padded:
  assumes "\<forall>c \<in> set a. P c" and "\<forall>c \<in> set b. P c" and "m \<noteq> []" and "\<not> P (hd m)" and "\<not> P (last m)"
  shows "trim_by P (a @ m @ b) = m"
proof -
  have "dropWhile P (a @ m @ b) = m @ b"
    using assms(1,3,4) by (cases m) (simp_all add: dropWhile_append)
  moreover have "dropWhile P (rev (m @ b)) = rev m"
    using assms(2,3,5) by (cases m rule: rev_cases) (simp_all add: dropWhile_append)
  ultimately show ?thesis by (simp add: trim_by_def)
qed

text \<open>A value: some text that is not padding at its end and holds no comma.\<close>

definition plain_value :: "string \<Rightarrow> bool" where
  "plain_value v \<longleftrightarrow> v \<noteq> [] \<and> \<not> is_padding (last v) \<and> CHR '','' \<notin> set v"

definition plain_key :: "string \<Rightarrow> bool" where
  "plain_key k \<longleftrightarrow> k \<noteq> [] \<and> CHR '':'' \<notin> set k \<and> CHR '','' \<notin> set k \<and> CHR 0x22 \<notin> set k"

lemma token_field_line:
  assumes "plain_key k" and "plain_value v" and "\<forall>c \<in> set a. is_padding c" and "\<forall>c \<in> set b. is_padding c"
  shows "token_field (a @ policy_line k v @ b) = Inr (Some (k, CHR '' '' # v))"
proof -
  let ?m = "CHR 0x22 # k @ CHR 0x22 # CHR '':'' # CHR '' '' # v"
  have pad: "is_padding (CHR '' '')" "\<not> is_padding (CHR 0x22)" by (simp_all add: is_padding_def is_space_def)
  have "policy_line k v = ''  '' @ ?m" by (simp add: policy_line_def)
  moreover have "last ?m = last v" using assms(2) by (simp add: plain_value_def)
  moreover have "trim_by is_padding ((a @ ''  '') @ ?m @ b) = ?m"
    by (rule trim_padded) (use assms pad in \<open>auto simp: plain_value_def\<close>)
  ultimately have t: "trim_by is_padding (a @ policy_line k v @ b) = ?m" by simp
  have "takeWhile (\<lambda>c. c \<noteq> CHR '':'') ?m = CHR 0x22 # k @ [CHR 0x22]"
    and "dropWhile (\<lambda>c. c \<noteq> CHR '':'') ?m = CHR '':'' # CHR '' '' # v"
    using assms(1) by (simp_all add: plain_key_def takeWhile_append dropWhile_append)
  moreover have "unquote_key (CHR 0x22 # k @ [CHR 0x22]) = Inr k"
    by (simp add: unquote_key_def Let_def)
  ultimately show ?thesis by (simp add: token_field_def t)
qed

lemma plain_show_nat: "plain_value (show_nat n)"
proof -
  have "is_digit (last (show_nat n))" using show_nat_digits [of n] by simp
  then have "\<not> is_padding (last (show_nat n))" by (auto simp: is_padding_def is_digit_def is_space_def)
  moreover have "CHR '','' \<notin> set (show_nat n)" using show_nat_digits [of n] by (auto simp: is_digit_def)
  ultimately show ?thesis by (simp add: plain_value_def)
qed

text \<open>A conversion skips white space, so what a reader does to a value does not matter to it.\<close>

definition keeps_value :: "(string \<Rightarrow> string) \<Rightarrow> bool" where
  "keeps_value prep \<longleftrightarrow> (\<forall>n. dropWhile is_space (prep (CHR '' '' # show_nat n)) = show_nat n)"

lemma no_space_show_nat: "dropWhile is_space (show_nat n) = show_nat n"
  using show_nat_digits [of n] digit_not_space by (cases "show_nat n") auto

lemma keeps_value_id: "keeps_value (\<lambda>v. v)"
  by (simp add: keeps_value_def no_space_show_nat) (simp add: is_space_def)

lemma keeps_value_trim: "keeps_value (trim_by is_space)"
proof -
  have "trim_by is_space ('' '' @ show_nat n @ []) = show_nat n" for n
  proof (rule trim_padded)
    show "\<not> is_space (hd (show_nat n))" "\<not> is_space (last (show_nat n))"
      using show_nat_digits [of n] digit_not_space by simp_all
  qed (simp_all add: is_space_def)
  then show ?thesis by (simp add: keeps_value_def no_space_show_nat)
qed

lemma sto_skip: "dropWhile is_space s = dropWhile is_space t \<Longrightarrow> sto_split s = sto_split t"
  by (simp add: sto_split_def)

lemma prepared_numbers:
  assumes "keeps_value prep"
  shows "n < 2 ^ 31 \<Longrightarrow> stoi (prep (CHR '' '' # show_nat n)) = Inr (int n)"
    and "n < 2 ^ 64 \<Longrightarrow> stoull (prep (CHR '' '' # show_nat n)) = Inr n"
    and "n \<le> 2 ^ 53 \<Longrightarrow> stod (prep (CHR '' '' # show_nat n)) = Inr (Fin (of_nat n))"
proof -
  let ?s = "prep (CHR '' '' # show_nat n)"
  have d: "dropWhile is_space ?s = show_nat n" using assms by (simp add: keeps_value_def)
  have split: "sto_split ?s = sto_split (show_nat n)"
    by (rule sto_skip) (simp add: d no_space_show_nat)
  show "n < 2 ^ 31 \<Longrightarrow> stoi ?s = Inr (int n)"
    using stoi_show_nat [of n] by (simp add: stoi_def sto_signed_def split)
  show "n < 2 ^ 64 \<Longrightarrow> stoull ?s = Inr n"
    using stoull_digits [OF show_nat_nonempty show_nat_digits, of n]
    by (simp add: stoull_def split dec_value_show_nat)
  have blank: "dropWhile is_space (CHR '' '' # show_nat n) = show_nat n"
    using no_space_show_nat [of n] by (simp add: is_space_def)
  show "n \<le> 2 ^ 53 \<Longrightarrow> stod ?s = Inr (Fin (of_nat n))"
    using stod_show_nat [of n] unfolding stod_def d blank .
qed

text \<open>Policies whose values the text represents: counts within \<open>int\<close>, whole percentages.\<close>

definition textual :: "GovernorPolicy \<Rightarrow> bool" where
  "textual p \<longleftrightarrow> 0 \<le> max_running_jobs p \<and> max_running_jobs p < 2 ^ 31 \<and>
     0 \<le> max_queue_depth p \<and> max_queue_depth p < 2 ^ 31 \<and> cooldown_ms p < 2 ^ 64 \<and> min_start_gap_ms p < 2 ^ 64 \<and>
     (\<exists>c < 10 ^ 6. cpu_high_watermark_pct p = Fin (of_nat c)) \<and>
     (\<exists>m < 10 ^ 6. mem_high_watermark_pct p = Fin (of_nat m))"

definition policy_values :: "GovernorPolicy \<Rightarrow> (string \<times> string) list" where
  "policy_values p =
     [(''max_running_jobs'', show_int (max_running_jobs p)), (''max_queue_depth'', show_int (max_queue_depth p)),
      (''cpu_high_watermark_pct'', show_double (cpu_high_watermark_pct p)),
      (''mem_high_watermark_pct'', show_double (mem_high_watermark_pct p)),
      (''cooldown_ms'', show_nat (cooldown_ms p)), (''min_start_gap_ms'', show_nat (min_start_gap_ms p))]"

lemma textual_values:
  assumes "textual p"
  obtains r q c m where "policy_values p =
     [(''max_running_jobs'', show_nat r), (''max_queue_depth'', show_nat q),
      (''cpu_high_watermark_pct'', show_nat c), (''mem_high_watermark_pct'', show_nat m),
      (''cooldown_ms'', show_nat (cooldown_ms p)), (''min_start_gap_ms'', show_nat (min_start_gap_ms p))]"
    and "r < 2 ^ 31" "q < 2 ^ 31" "c < 10 ^ 6" "m < 10 ^ 6"
    and "max_running_jobs p = int r" "max_queue_depth p = int q"
      "cpu_high_watermark_pct p = Fin (of_nat c)" "mem_high_watermark_pct p = Fin (of_nat m)"
proof -
  obtain c m where cm: "cpu_high_watermark_pct p = Fin (of_nat c)" "mem_high_watermark_pct p = Fin (of_nat m)"
    "c < 10 ^ 6" "m < 10 ^ 6" using assms unfolding textual_def by blast
  define r q where "r = nat (max_running_jobs p)" and "q = nat (max_queue_depth p)"
  have rq: "max_running_jobs p = int r" "max_queue_depth p = int q" "r < 2 ^ 31" "q < 2 ^ 31"
    using assms by (auto simp: textual_def r_def q_def nat_less_iff)
  have "show_int (int r) = show_nat r" "show_int (int q) = show_nat q" by (simp_all add: show_int_def)
  moreover note show_double_nat [OF cm(3)] show_double_nat [OF cm(4)]
  ultimately have "policy_values p =
     [(''max_running_jobs'', show_nat r), (''max_queue_depth'', show_nat q),
      (''cpu_high_watermark_pct'', show_nat c), (''mem_high_watermark_pct'', show_nat m),
      (''cooldown_ms'', show_nat (cooldown_ms p)), (''min_start_gap_ms'', show_nat (min_start_gap_ms p))]"
    by (simp only: policy_values_def rq cm)
  then show ?thesis by (rule that [OF _ rq(3,4) cm(3,4) rq(1,2) cm(1,2)])
qed

lemma read_policy_values:
  assumes "keeps_value prep" and "textual p"
    and "list_all2 (\<lambda>t (k, v). token_field t = Inr (Some (k, CHR '' '' # v))) ts (policy_values p)"
  shows "read_fields prep ts p0 = Inr p"
proof -
  obtain r q c m where v: "policy_values p =
     [(''max_running_jobs'', show_nat r), (''max_queue_depth'', show_nat q),
      (''cpu_high_watermark_pct'', show_nat c), (''mem_high_watermark_pct'', show_nat m),
      (''cooldown_ms'', show_nat (cooldown_ms p)), (''min_start_gap_ms'', show_nat (min_start_gap_ms p))]"
    and b: "r < 2 ^ 31" "q < 2 ^ 31" "c < 10 ^ 6" "m < 10 ^ 6"
    and p: "max_running_jobs p = int r" "max_queue_depth p = int q"
      "cpu_high_watermark_pct p = Fin (of_nat c)" "mem_high_watermark_pct p = Fin (of_nat m)"
    by (rule textual_values [OF assms(2)])
  note num = prepared_numbers [OF assms(1)]
  have "c \<le> 2 ^ 53" "m \<le> 2 ^ 53" "cooldown_ms p < 2 ^ 64" "min_start_gap_ms p < 2 ^ 64"
    using b(3,4) assms(2) by (simp_all add: textual_def)
  note vals = num(1) [OF b(1)] num(1) [OF b(2)] num(3) [OF this(1)] num(3) [OF this(2)]
    num(2) [OF this(3)] num(2) [OF this(4)]
  obtain t1 t2 t3 t4 t5 t6 where ts: "ts = [t1, t2, t3, t4, t5, t6]"
    and f: "token_field t1 = Inr (Some (''max_running_jobs'', CHR '' '' # show_nat r))"
      "token_field t2 = Inr (Some (''max_queue_depth'', CHR '' '' # show_nat q))"
      "token_field t3 = Inr (Some (''cpu_high_watermark_pct'', CHR '' '' # show_nat c))"
      "token_field t4 = Inr (Some (''mem_high_watermark_pct'', CHR '' '' # show_nat m))"
      "token_field t5 = Inr (Some (''cooldown_ms'', CHR '' '' # show_nat (cooldown_ms p)))"
      "token_field t6 = Inr (Some (''min_start_gap_ms'', CHR '' '' # show_nat (min_start_gap_ms p)))"
    using assms(3) unfolding v by (auto simp: list_all2_Cons2)
  show ?thesis
    by (simp add: ts f set_field_def vals p [symmetric])
qed

section \<open>The file read back\<close>

text \<open>Comma-separated lines, each with padding around it, are read as their fields.\<close>

definition line_with :: "string \<times> string \<Rightarrow> string \<times> string \<Rightarrow> string" where
  "line_with pad kv = fst pad @ policy_line (fst kv) (snd kv) @ snd pad"

definition pads_ok :: "(string \<times> string) list \<Rightarrow> bool" where
  "pads_ok pads \<longleftrightarrow> list_all (\<lambda>(a, b). (\<forall>c \<in> set a. is_padding c) \<and> (\<forall>c \<in> set b. is_padding c)) pads"

lemma padding_no_comma: "\<forall>c \<in> set a. is_padding c \<Longrightarrow> CHR '','' \<notin> set a"
  by (auto simp: is_padding_def is_space_def)

lemma line_with_no_comma:
  assumes "plain_key k" and "plain_value v" and "\<forall>c \<in> set a. is_padding c" and "\<forall>c \<in> set b. is_padding c"
  shows "line_with (a, b) (k, v) \<noteq> [] \<and> CHR '','' \<notin> set (line_with (a, b) (k, v))"
  using assms padding_no_comma by (simp add: line_with_def policy_line_def plain_key_def plain_value_def)

lemma padded_lines_fields:
  assumes "length pads = length kvs" and "pads_ok pads" and "list_all (\<lambda>(k, v). plain_key k \<and> plain_value v) kvs"
  shows "list_all2 (\<lambda>t (k, v). token_field t = Inr (Some (k, CHR '' '' # v)))
    (getlines (CHR '','') (join (map2 line_with pads kvs))) kvs"
proof -
  have "list_all (\<lambda>p. p \<noteq> [] \<and> CHR '','' \<notin> set p) (map2 line_with pads kvs) \<and>
    list_all2 (\<lambda>t (k, v). token_field t = Inr (Some (k, CHR '' '' # v))) (map2 line_with pads kvs) kvs"
    using assms
  proof (induction pads kvs rule: list_induct2)
    case (Cons pad pads kv kvs)
    obtain a b k v where x: "pad = (a, b)" "kv = (k, v)" by (metis surj_pair)
    have ok: "plain_key k" "plain_value v" "\<forall>c \<in> set a. is_padding c" "\<forall>c \<in> set b. is_padding c"
      using Cons.prems by (simp_all add: x pads_ok_def)
    then show ?case
      using Cons line_with_no_comma [OF ok] token_field_line [OF ok] by (simp add: x pads_ok_def) (simp add: line_with_def)
  qed simp
  then show ?thesis by (simp add: getlines_join)
qed

lemma policy_values_plain:
  assumes "textual p"
  shows "list_all (\<lambda>(k, v). plain_key k \<and> plain_value v) (policy_values p)"
  by (rule textual_values [OF assms]) (simp add: plain_show_nat plain_key_def)

lemma policy_text_tokens:
  assumes "textual p"
  shows "list_all2 (\<lambda>t (k, v). token_field t = Inr (Some (k, CHR '' '' # v)))
    (getlines (CHR '','') (policy_text p)) (policy_values p)"
proof -
  let ?n = "[CHR 0x0A]"
  let ?pads = "[(''{'' @ ?n, []), (?n, []), (?n, []), (?n, []), (?n, []), (?n, ?n @ ''}'' @ ?n)]"
  have "policy_text p = join (map2 line_with ?pads (policy_values p))"
    by (simp add: policy_text_def policy_values_def line_with_def)
  moreover have "pads_ok ?pads" by (simp add: pads_ok_def is_padding_def is_space_def)
  moreover have "length ?pads = length (policy_values p)" by (simp add: policy_values_def)
  ultimately show ?thesis using padded_lines_fields [OF _ _ policy_values_plain [OF assms]] by metis
qed

text \<open>
  C20: a saved policy is loaded back: when the file can be opened, has room for all of the text and can be renamed, a
  policy is read back from it unchanged if its percentages are whole numbers below a million, its counts are in the
  ranges \<open>load\<close> accepts (1 to 1000 jobs, a queue of 1 to 10000) and its times fit 64 bits; no other file is changed
  except that the temporary one is gone. Larger or fractional percentages are written with six digits only.
\<close>

theorem save_load:
  assumes "textual p" and "1 \<le> max_running_jobs p" and "max_running_jobs p \<le> 1000"
    and "1 \<le> max_queue_depth p" and "max_queue_depth p \<le> 10000"
    and "can_open dk" and "can_rename dk" and "length (policy_text p) \<le> room dk"
  shows "\<exists>fs'. save_policy dk p path fs = (Inr (), fs') \<and> load_policy path fs' = Inr p \<and>
    (\<forall>f. f \<noteq> path \<and> f \<noteq> path @ ''.tmp'' \<longrightarrow> fs' f = fs f)"
proof -
  let ?fs = "fs(path @ ''.tmp'' \<mapsto> policy_text p, path \<mapsto> policy_text p, path @ ''.tmp'' := None)"
  have "save_policy dk p path fs = (Inr (), ?fs)"
    using assms(6-8) by (simp add: save_policy_def Let_def)
  moreover have "read_fields (\<lambda>v. v) (getlines (CHR '','') (policy_text p)) default_policy = Inr p"
    by (rule read_policy_values [OF keeps_value_id assms(1) policy_text_tokens [OF assms(1)]])
  then have "load_policy path ?fs = Inr p"
    using assms(2-5) by (simp add: load_policy_def check_counts_def Let_def)
  ultimately show ?thesis by simp
qed

theorem save_load_witness:
  "\<exists>fs. save_policy \<lparr>can_open = True, room = 4096, can_rename = True\<rparr> default_policy ''/p'' (\<lambda>_. None) = (Inr (), fs) \<and>
     load_policy ''/p'' fs = Inr default_policy"
proof -
  have "textual default_policy"
    unfolding textual_def default_policy_def
    by (simp add: exI [of _ "85 :: nat"] exI [of _ "90 :: nat"])
  moreover have "length (policy_text default_policy) \<le> 4096" by code_simp
  ultimately show ?thesis
    using save_load [of default_policy "\<lparr>can_open = True, room = 4096, can_rename = True\<rparr>" "''/p''" "\<lambda>_. None"]
    by (auto simp: default_policy_def)
qed

text \<open>
  saving is atomic only if every write succeeds: after any failure the file is untouched, and
  otherwise it holds the first characters of the text that there was room for, without an error.
\<close>

theorem save_outcomes:
  assumes "save_policy dk p path fs = (r, fs')"
  shows "(case r of
      Inl e \<Rightarrow> fs' path = fs path \<and> (\<exists>m. e = Runtime_Error m)
    | Inr _ \<Rightarrow> fs' path = Some (take (room dk) (policy_text p)) \<and> fs' (path @ ''.tmp'') = None)"
  using assms by (auto simp: save_policy_def Let_def split: if_splits)

theorem save_outcomes_witness:
  "snd (save_policy \<lparr>can_open = True, room = 1, can_rename = True\<rparr> default_policy ''/p'' (\<lambda>_. None)) ''/p'' = Some ''{''"
proof -
  let ?dk = "\<lparr>can_open = True, room = 1, can_rename = True\<rparr>"
  obtain r fs where s: "save_policy ?dk default_policy ''/p'' (\<lambda>_. None) = (r, fs)" by (metis surj_pair)
  then have "r = Inr ()" by (simp add: save_policy_def Let_def)
  with save_outcomes [OF s] show ?thesis unfolding s by (simp add: policy_text_def)
qed

definition nan_file :: string where
  "nan_file = ''{'' @ [CHR 0x22] @ ''cpu_high_watermark_pct'' @ [CHR 0x22] @ '': nan}''"

text \<open>
  a loaded policy has its counts in range, but the percentages are not checked: a file with the
  word \<open>nan\<close> is loaded into a policy that an update would refuse and that never holds a start for
  its load.
\<close>

theorem load_checks_counts_only:
  "(load_policy path fs = Inr p \<longrightarrow> 1 \<le> max_running_jobs p \<and> max_running_jobs p \<le> 1000 \<and>
      1 \<le> max_queue_depth p \<and> max_queue_depth p \<le> 10000) \<and>
   (fs path = Some nan_file \<longrightarrow> (\<exists>q. load_policy path fs = Inr q \<and>
      \<not> upd_success (snd (validate_and_update default_policy q)) \<and>
      (\<forall>cpu mem r n. reason (decide q cpu mem r n) \<noteq> CPU_HIGH)))"
proof (intro conjI impI)
  assume "load_policy path fs = Inr p"
  then have "p = default_policy \<or> (\<exists>q. p = check_counts q)"
    by (auto simp: load_policy_def map_sum_def split: option.splits sum.splits)
  then show "1 \<le> max_running_jobs p" "max_running_jobs p \<le> 1000" "1 \<le> max_queue_depth p" "max_queue_depth p \<le> 10000"
    by (auto simp: default_policy_def check_counts_def Let_def)
next
  assume f: "fs path = Some nan_file"
  let ?q = "default_policy\<lparr>cpu_high_watermark_pct := NaN\<rparr>"
  have "token_field nan_file = Inr (Some (''cpu_high_watermark_pct'', '' nan''))" by code_simp
  moreover have "getlines (CHR '','') nan_file = [nan_file]"
    by (rule getlines_last) (simp_all add: nan_file_def)
  moreover have "stod '' nan'' = Inr NaN" by (simp add: stod_def is_space_def starts_lower_def lower_def Let_def)
  ultimately have "load_policy path fs = Inr ?q"
    by (simp add: load_policy_def f set_field_def) (simp add: check_counts_def default_policy_def)
  moreover have "\<not> upd_success (snd (validate_and_update default_policy ?q))"
    by (simp add: validate_and_update_def pct_out_of_range_def isnan_def default_policy_def)
  moreover have "reason (decide ?q cpu mem r n) \<noteq> CPU_HIGH" for cpu mem r n
    by (cases cpu) (auto simp: decide_def)
  ultimately show "\<exists>q. load_policy path fs = Inr q \<and> \<not> upd_success (snd (validate_and_update default_policy q)) \<and>
      (\<forall>cpu mem r n. reason (decide q cpu mem r n) \<noteq> CPU_HIGH)" by blast
qed

theorem load_checks_counts_only_witness:
  "\<exists>q. load_policy ''/p'' (\<lambda>f. Some nan_file) = Inr q \<and> max_running_jobs q \<le> 1000"
  using load_checks_counts_only [of "''/p''" "\<lambda>f. Some nan_file"] by blast

end
