(* ===== verification/Metrics.thy ===== *)
theory Metrics
  imports Policy_File
begin

text \<open>
  \<open>MetricsSampler\<close> and \<open>MetricsHistory\<close> (\<open>src/metrics/sampler.cpp\<close>,
  \<open>include/heidi-kernel/metrics.h\<close>): the load computed from two readings of \<open>/proc/stat\<close>, the memory
  from \<open>/proc/meminfo\<close>, and the log file with its rotation. The contents of \<open>/proc\<close> and the clock are
  arguments, the file system is a map from paths to contents.
\<close>

section \<open>Data\<close>

record CpuStats =
  cs_user :: "64 word"
  cs_nice :: "64 word"
  cs_system :: "64 word"
  cs_idle :: "64 word"
  cs_iowait :: "64 word"
  cs_irq :: "64 word"
  cs_softirq :: "64 word"

record MemStats =
  ms_total :: "64 word"
  ms_free :: "64 word"
  ms_available :: "64 word"
  ms_buffers :: "64 word"
  ms_cached :: "64 word"

record metrics =
  cpu_percent :: double
  mem :: MemStats
  timestamp :: "64 word"

record sampler =
  prev_cpu :: CpuStats
  first_sample :: bool

definition no_cpu :: CpuStats where
  "no_cpu = \<lparr>cs_user = 0, cs_nice = 0, cs_system = 0, cs_idle = 0, cs_iowait = 0, cs_irq = 0, cs_softirq = 0\<rparr>"

definition no_mem :: MemStats where
  "no_mem = \<lparr>ms_total = 0, ms_free = 0, ms_available = 0, ms_buffers = 0, ms_cached = 0\<rparr>"

definition no_metrics :: metrics where
  "no_metrics = \<lparr>cpu_percent = Fin 0, mem = no_mem, timestamp = 0\<rparr>"

definition new_sampler :: sampler where
  "new_sampler = \<lparr>prev_cpu = no_cpu, first_sample = True\<rparr>"

section \<open>Reading \<open>/proc\<close>\<close>

text \<open>
  Extraction of an unsigned number from a stream: nothing is stored when only white space is left, 0
  when no digit follows and the maximum on overflow, both of which fail the stream (\<open>None\<close> as rest).
\<close>

definition scan_u64 :: "string \<Rightarrow> 64 word option \<times> string option" where
  "scan_u64 s =
     (let t = dropWhile is_space s;
          neg = (take 1 t = ''-'');
          r = (if neg \<or> take 1 t = ''+'' then drop 1 t else t);
          ds = takeWhile is_digit r
      in if t = [] then (None, None)
         else if ds = [] then (Some 0, None)
         else if 2 ^ 64 \<le> dec_value ds then (Some (- 1), None)
         else (Some (if neg then - of_nat (dec_value ds) else of_nat (dec_value ds)), Some (dropWhile is_digit r)))"

text \<open>A word of a stream.\<close>

definition scan_word :: "string \<Rightarrow> (string \<times> string) option" where
  "scan_word s = (let t = dropWhile is_space s in
     if t = [] then None
     else Some (takeWhile (\<lambda>c. \<not> is_space c) t, dropWhile (\<lambda>c. \<not> is_space c) t))"

text \<open>Numbers read one after the other into members that hold 0; after a failure they keep it.\<close>

fun scan_numbers :: "nat \<Rightarrow> string option \<Rightarrow> 64 word list" where
  "scan_numbers 0 s = []"
| "scan_numbers (Suc n) None = 0 # scan_numbers n None"
| "scan_numbers (Suc n) (Some s) = (case scan_u64 s of
      (v, rest) \<Rightarrow> (case v of None \<Rightarrow> 0 | Some x \<Rightarrow> x) # scan_numbers n rest)"

definition cpu_of_line :: "string \<Rightarrow> CpuStats" where
  "cpu_of_line line =
     (case scan_numbers 7 (map_option snd (scan_word line)) of
        [a, b, c, d, e, f, g] \<Rightarrow>
          \<lparr>cs_user = a, cs_nice = b, cs_system = c, cs_idle = d, cs_iowait = e, cs_irq = f, cs_softirq = g\<rparr>
      | _ \<Rightarrow> no_cpu)"

definition read_cpu_stats :: "string option \<Rightarrow> CpuStats" where
  "read_cpu_stats stat = (case stat of
      None \<Rightarrow> no_cpu
    | Some content \<Rightarrow>
        (case find (\<lambda>l. take 3 l = ''cpu'') (getlines (CHR 0x0A) content) of
           None \<Rightarrow> no_cpu
         | Some line \<Rightarrow> cpu_of_line line))"

text \<open>
  The local \<open>value\<close> has no initial value: a line that ends after a known key stores an indeterminate
  one.
\<close>

definition store_mem :: "string \<Rightarrow> 64 word option \<Rightarrow> MemStats \<Rightarrow> MemStats outcome" where
  "store_mem key v m =
     (let put = (\<lambda>f. case v of None \<Rightarrow> Inl Undefined_Behaviour | Some x \<Rightarrow> Inr (f x)) in
      if key = ''MemTotal:'' then put (\<lambda>x. m\<lparr>ms_total := x\<rparr>)
      else if key = ''MemFree:'' then put (\<lambda>x. m\<lparr>ms_free := x\<rparr>)
      else if key = ''MemAvailable:'' then put (\<lambda>x. m\<lparr>ms_available := x\<rparr>)
      else if key = ''Buffers:'' then put (\<lambda>x. m\<lparr>ms_buffers := x\<rparr>)
      else if key = ''Cached:'' then put (\<lambda>x. m\<lparr>ms_cached := x\<rparr>)
      else Inr m)"

fun mem_lines :: "string list \<Rightarrow> MemStats \<Rightarrow> MemStats outcome" where
  "mem_lines [] m = Inr m"
| "mem_lines (l # ls) m =
     (case scan_word l of
        None \<Rightarrow> mem_lines ls m
      | Some (key, r) \<Rightarrow> (case store_mem key (fst (scan_u64 r)) m of Inl e \<Rightarrow> Inl e | Inr m' \<Rightarrow> mem_lines ls m'))"

definition read_mem_stats :: "string option \<Rightarrow> MemStats outcome" where
  "read_mem_stats meminfo = (case meminfo of
      None \<Rightarrow> Inr no_mem
    | Some content \<Rightarrow> mem_lines (getlines (CHR 0x0A) content) no_mem)"

section \<open>The load\<close>

definition cpu_total :: "CpuStats \<Rightarrow> 64 word" where
  "cpu_total c = cs_user c + cs_nice c + cs_system c + cs_idle c + cs_iowait c + cs_irq c + cs_softirq c"

definition cpu_usage :: "CpuStats \<Rightarrow> CpuStats \<Rightarrow> double" where
  "cpu_usage prev cur =
     (let delta_total = cpu_total cur - cpu_total prev; delta_idle = cs_idle cur - cs_idle prev in
      if 0 < delta_total
      then d_div (d_mul (Fin 100) (d_of_u64 (unat (delta_total - delta_idle)))) (d_of_u64 (unat delta_total))
      else Fin 0)"

definition sample :: "64 word \<Rightarrow> string option \<Rightarrow> string option \<Rightarrow> sampler \<Rightarrow> (metrics \<times> sampler) outcome" where
  "sample now stat meminfo s =
     (let cur = read_cpu_stats stat in
      case read_mem_stats meminfo of
        Inl e \<Rightarrow> Inl e
      | Inr m \<Rightarrow>
          Inr (\<lparr>cpu_percent = (if first_sample s then Fin 0 else cpu_usage (prev_cpu s) cur), mem = m, timestamp = now\<rparr>,
               \<lparr>prev_cpu = cur, first_sample = False\<rparr>))"

section \<open>The log\<close>

record history =
  state_dir :: string
  max_file_size :: nat
  max_files :: nat

definition log_base :: "history \<Rightarrow> string" where
  "log_base h = state_dir h @ ''/metrics.log''"

definition numbered :: "history \<Rightarrow> nat \<Rightarrow> string" where
  "numbered h i = log_base h @ ''.'' @ show_nat i"

definition log_path :: "history \<Rightarrow> nat \<Rightarrow> string" where
  "log_path h i = (if i = 0 then log_base h else numbered h i)"

definition rename_if_exists :: "string \<Rightarrow> string \<Rightarrow> files \<Rightarrow> files" where
  "rename_if_exists a b fs = (if fs a = None then fs else fs(b := fs a, a := None))"

text \<open>The loop counts down; \<open>max_files_ - 1\<close> is computed in \<open>size_t\<close>.\<close>

fun shift_files :: "history \<Rightarrow> nat \<Rightarrow> files \<Rightarrow> files" where
  "shift_files h 0 fs = fs"
| "shift_files h (Suc i) fs = shift_files h i (rename_if_exists (log_path h i) (numbered h (Suc i)) fs)"

definition rotate_files :: "history \<Rightarrow> files \<Rightarrow> files" where
  "rotate_files h fs =
     shift_files h (max_files h - 1) (fs(numbered h (as_uint64 (int (max_files h) - 1)) := None))"

definition metrics_line :: "metrics \<Rightarrow> string" where
  "metrics_line m = show_nat (unat (timestamp m)) @ '','' @ show_double (cpu_percent m) @ '','' @
     show_nat (unat (ms_total (mem m))) @ '','' @ show_nat (unat (ms_free (mem m))) @ '','' @
     show_nat (unat (ms_available (mem m))) @ [CHR 0x0A]"

definition append_metrics :: "history \<Rightarrow> metrics \<Rightarrow> files \<Rightarrow> files" where
  "append_metrics h m fs =
     (let fs1 = (case fs (log_base h) of
                   Some t \<Rightarrow> if max_file_size h < length t then rotate_files h fs else fs
                 | None \<Rightarrow> fs)
      in fs1(log_base h \<mapsto> (case fs1 (log_base h) of None \<Rightarrow> [] | Some t \<Rightarrow> t) @ metrics_line m))"

text \<open>The lines that \<open>tail\<close> parses.\<close>

definition tail_lines :: "history \<Rightarrow> nat \<Rightarrow> files \<Rightarrow> string list" where
  "tail_lines h n fs = (case fs (log_base h) of
      None \<Rightarrow> []
    | Some t \<Rightarrow> let ls = getlines (CHR 0x0A) t in drop (if n < length ls then length ls - n else 0) ls)"

section \<open>The load is a percentage\<close>

lemma percent_below:
  assumes "a \<le> b" and "0 < b" and "b \<le> 2 ^ 46"
  shows "\<exists>v. d_div (d_mul (Fin 100) (d_of_u64 a)) (d_of_u64 b) = Fin v \<and> 0 \<le> v \<and> v \<le> 100"
proof -
  have ab: "d_of_u64 a = Fin (of_nat a)" "d_of_u64 b = Fin (of_nat b)"
    using assms by (simp_all add: d_of_u64_int)
  have "round64 (of_int (100 * int a)) = Fin (of_int (100 * int a))"
    by (rule b64.rnd_int) (use assms in auto)
  then have mul: "round64 (100 * of_nat a) = Fin (100 * of_nat a)" by simp
  have "(100 * of_nat a) / of_nat b \<le> (of_int 100 :: rat)"
    using assms(1,2) by (simp add: divide_le_eq)
  then obtain v where "round64 ((100 * of_nat a) / of_nat b) = Fin v" "0 \<le> v" "v \<le> of_int 100"
    by (rule b64.rnd_small [rotated]) simp_all
  then show ?thesis using assms(2) by (simp add: ab mul)
qed

lemma percent_above:
  assumes "b < a" and "a < 2 ^ 64" and "0 < b" and "b \<le> 2 ^ 46"
  shows "d_ge (d_div (d_mul (Fin 100) (d_of_u64 a)) (d_of_u64 b)) (Fin 100)"
proof -
  let ?k = "100 * (int b + 1)"
  have b: "d_of_u64 b = Fin (of_nat b)" using assms(4) by (simp add: d_of_u64_int)
  obtain v where v: "d_of_u64 a = Fin v" using d_of_u64_finite [OF assms(2)] by blast
  have "d_le (d_of_u64 (b + 1)) (d_of_u64 a)" by (rule d_of_u64_mono) (use assms(1) in simp)
  then have "of_nat (b + 1) \<le> v" using d_of_u64_int [of "b + 1"] assms(4) v by simp
  then have "d_ge (round64 (100 * v)) (Fin (of_int ?k))"
    by (intro b64.rnd_ge_int) (use assms(4) in auto)
  moreover have "d_ge (d_div (Fin w) (Fin (of_nat b))) (Fin (of_int 100))" if "of_int ?k \<le> w" for w
  proof -
    have "of_int 100 \<le> w / of_nat b" using that assms(3) by (simp add: le_divide_eq)
    then have "d_ge (round64 (w / of_nat b)) (Fin (of_int 100))" by (intro b64.rnd_ge_int) auto
    then show ?thesis using assms(3) by simp
  qed
  ultimately show ?thesis
    using assms(3) by (cases "round64 (100 * v)") (auto simp: b v)
qed

text \<open>
  the load is between 0 and 100 whenever the idle time grew by no more than the total did; if the
  idle counter went back, or grew by more, the unsigned difference wraps and the load is at least 100,
  however idle the machine was.
\<close>

theorem cpu_usage_range:
  assumes "delta = cpu_total cur - cpu_total prev" and "0 < delta" and "unat delta \<le> 2 ^ 46"
  shows "if cs_idle cur - cs_idle prev \<le> delta
    then \<exists>v. cpu_usage prev cur = Fin v \<and> 0 \<le> v \<and> v \<le> 100
    else d_ge (cpu_usage prev cur) (Fin 100)"
proof -
  let ?i = "cs_idle cur - cs_idle prev"
  have pos: "0 < unat delta" using assms(2) by (simp add: word_less_nat_alt)
  have use_def: "cpu_usage prev cur = d_div (d_mul (Fin 100) (d_of_u64 (unat (delta - ?i)))) (d_of_u64 (unat delta))"
    using assms(1,2) by (simp add: cpu_usage_def Let_def)
  show ?thesis
  proof (cases "?i \<le> delta")
    case True
    then have "unat (delta - ?i) \<le> unat delta" by (simp add: unat_sub)
    then show ?thesis using True percent_below [OF _ pos assms(3)] use_def by simp
  next
    case False
    then have "delta < delta - ?i" by uint_arith
    then have "unat delta < unat (delta - ?i)" by (simp add: word_less_nat_alt)
    moreover have "unat (delta - ?i) < 2 ^ 64" using unsigned_less [of "delta - ?i"] by simp
    ultimately show ?thesis using False percent_above [OF _ _ pos assms(3)] use_def by simp
  qed
qed

theorem cpu_usage_range_witness:
  "\<exists>v. cpu_usage no_cpu (no_cpu\<lparr>cs_user := 30, cs_idle := 70\<rparr>) = Fin v \<and> 0 \<le> v \<and> v \<le> 100"
  using cpu_usage_range [of 100 "no_cpu\<lparr>cs_user := 30, cs_idle := 70\<rparr>" no_cpu]
  by (simp add: cpu_total_def no_cpu_def)

section \<open>Rotation\<close>

lemma numbered_inject: "numbered h i = numbered h j \<longleftrightarrow> i = j"
  using show_nat_inject by (auto simp: numbered_def)

lemma log_path_inject: "log_path h i = log_path h j \<longleftrightarrow> i = j"
  by (auto simp: log_path_def numbered_inject) (auto simp: numbered_def)

lemma log_path_Suc [simp]: "numbered h (Suc i) = log_path h (Suc i)"
  by (simp add: log_path_def)

text \<open>When the last name is free, every file moves to the next one and the first name becomes free.\<close>

lemma shift_files_moves:
  "fs (log_path h n) = None \<Longrightarrow>
   (\<forall>j \<le> n. shift_files h n fs (log_path h j) = (if j = 0 then None else fs (log_path h (j - 1)))) \<and>
   (\<forall>p. (\<forall>j \<le> n. p \<noteq> log_path h j) \<longrightarrow> shift_files h n fs p = fs p)"
proof (induction n arbitrary: fs)
  case 0
  then show ?case by simp
next
  case (Suc n)
  define fs1 where "fs1 = rename_if_exists (log_path h n) (log_path h (Suc n)) fs"
  have fs1: "fs1 (log_path h n) = None" "fs1 (log_path h (Suc n)) = fs (log_path h n)"
    "\<And>p. p \<noteq> log_path h n \<Longrightarrow> p \<noteq> log_path h (Suc n) \<Longrightarrow> fs1 p = fs p"
    using Suc.prems by (auto simp: fs1_def rename_if_exists_def log_path_inject)
  have sh: "shift_files h (Suc n) fs = shift_files h n fs1" by (simp add: fs1_def)
  note IH = Suc.IH [of fs1, OF fs1(1)]
  have "shift_files h n fs1 (log_path h j) = (if j = 0 then None else fs (log_path h (j - 1)))" if "j \<le> Suc n" for j
  proof (cases "j = Suc n")
    case True
    then show ?thesis using IH fs1(2) by (simp add: log_path_inject)
  next
    case False
    then have "j \<le> n" using that by simp
    then have "shift_files h n fs1 (log_path h j) = (if j = 0 then None else fs1 (log_path h (j - 1)))" using IH by blast
    moreover have "fs1 (log_path h (j - 1)) = fs (log_path h (j - 1))" if "j \<noteq> 0"
      using that \<open>j \<le> n\<close> by (intro fs1(3)) (auto simp: log_path_inject)
    ultimately show ?thesis by simp
  qed
  moreover have "shift_files h n fs1 p = fs p" if "\<forall>j \<le> Suc n. p \<noteq> log_path h j" for p
    using IH fs1(3) [of p] that by auto
  ultimately show ?case unfolding sh by blast
qed

lemma rotate_moves:
  assumes "2 \<le> max_files h" and "max_files h < 2 ^ 64"
  shows "(\<forall>j < max_files h. rotate_files h fs (log_path h j) = (if j = 0 then None else fs (log_path h (j - 1)))) \<and>
    (\<forall>p. (\<forall>j < max_files h. p \<noteq> log_path h j) \<longrightarrow> rotate_files h fs p = fs p)"
proof -
  obtain n where n: "max_files h = Suc n" "0 < n" using assms(1) by (cases "max_files h") auto
  have "as_uint64 (int (max_files h) - 1) = n" using n assms(2) by (simp add: as_uint64_def)
  then have last: "numbered h (as_uint64 (int (max_files h) - 1)) = log_path h n"
    using n(2) by (simp add: log_path_def)
  let ?fs = "fs(log_path h n := None)"
  have m: "(\<forall>j \<le> n. shift_files h n ?fs (log_path h j) = (if j = 0 then None else ?fs (log_path h (j - 1)))) \<and>
    (\<forall>p. (\<forall>j \<le> n. p \<noteq> log_path h j) \<longrightarrow> shift_files h n ?fs p = ?fs p)"
    by (rule shift_files_moves) simp
  have "?fs (log_path h (j - 1)) = fs (log_path h (j - 1))" if "j \<le> n" "j \<noteq> 0" for j
    using that by (auto simp: log_path_inject)
  moreover have "rotate_files h fs = shift_files h n ?fs" unfolding rotate_files_def last by (simp add: n(1))
  ultimately show ?thesis using m unfolding n(1) by (auto simp: less_Suc_eq_le)
qed

section \<open>What the log keeps\<close>

definition content :: "history \<Rightarrow> files \<Rightarrow> nat \<Rightarrow> string" where
  "content h fs j = (case fs (log_path h j) of None \<Rightarrow> [] | Some t \<Rightarrow> t)"

text \<open>All files of the log from the oldest to the newest.\<close>

definition log_text :: "history \<Rightarrow> files \<Rightarrow> string" where
  "log_text h fs = concat (map (content h fs) (rev [0..<max_files h]))"

text \<open>
  Files are filled in order: an older file that is not empty has been full, and so have the ones before it;
  \<open>older_full\<close> says that all but the current one are.
\<close>

definition filled :: "history \<Rightarrow> files \<Rightarrow> bool" where
  "filled h fs \<longleftrightarrow> (\<forall>j. 0 < j \<longrightarrow> j < max_files h \<longrightarrow> content h fs j \<noteq> [] \<longrightarrow>
     max_file_size h < length (content h fs j) \<and> (1 < j \<longrightarrow> content h fs (j - 1) \<noteq> []))"

definition older_full :: "history \<Rightarrow> files \<Rightarrow> bool" where
  "older_full h fs \<longleftrightarrow> (\<forall>j. 0 < j \<longrightarrow> j < max_files h \<longrightarrow> max_file_size h < length (content h fs j))"

definition log_inv :: "history \<Rightarrow> nat \<Rightarrow> string \<Rightarrow> files \<Rightarrow> bool" where
  "log_inv h len t fs \<longleftrightarrow> (\<exists>k \<le> length t. log_text h fs = drop k t \<and> (0 < k \<longrightarrow> older_full h fs)) \<and> filled h fs \<and>
     (\<forall>p s. fs p = Some s \<longrightarrow> (\<exists>j < max_files h. p = log_path h j) \<and> length s \<le> max_file_size h + len)"

lemma rev_upt_Suc: "rev [0..<Suc n] = map Suc (rev [0..<n]) @ [0]"
  by (simp only: rev_map [symmetric] map_Suc_upt upt_conv_Cons [of 0 "Suc n"]) simp

lemma rotate_log_text:
  assumes "2 \<le> max_files h" and "max_files h < 2 ^ 64"
  shows "log_text h fs = content h fs (max_files h - 1) @ log_text h (rotate_files h fs)"
    and "content h (rotate_files h fs) 0 = []"
proof -
  obtain n where n: "max_files h = Suc n" using assms(1) by (cases "max_files h") auto
  have c: "content h (rotate_files h fs) (Suc j) = content h fs j" if "j < n" for j
    using rotate_moves [OF assms, of fs] n that by (simp add: content_def)
  show c0: "content h (rotate_files h fs) 0 = []"
    using rotate_moves [OF assms, of fs] n by (simp add: content_def)
  have "map (content h (rotate_files h fs) \<circ> Suc) (rev [0..<n]) = map (content h fs) (rev [0..<n])"
    by (rule map_cong) (simp_all add: c)
  then have "log_text h (rotate_files h fs) = concat (map (content h fs) (rev [0..<n]))"
    unfolding log_text_def n rev_upt_Suc map_append map_map concat_append by (simp only: c0 list.map concat.simps append_Nil2)
  then show "log_text h fs = content h fs (max_files h - 1) @ log_text h (rotate_files h fs)"
    by (simp add: log_text_def n)
qed

lemma append_log_text:
  assumes "0 < max_files h"
  shows "log_text h (fs(log_base h \<mapsto> content h fs 0 @ l)) = log_text h fs @ l"
proof -
  obtain n where n: "max_files h = Suc n" using assms by (cases "max_files h") auto
  let ?fs = "fs(log_base h \<mapsto> content h fs 0 @ l)"
  have base: "log_path h 0 = log_base h" by (simp add: log_path_def)
  have "content h ?fs (Suc j) = content h fs (Suc j)" for j
    using log_path_inject [of h "Suc j" 0] by (simp add: content_def base)
  moreover have "content h ?fs 0 = content h fs 0 @ l" by (simp add: content_def base)
  ultimately show ?thesis unfolding log_text_def n rev_upt_Suc by (simp add: comp_def)
qed

lemma filled_last:
  assumes "filled h fs" and "2 \<le> max_files h" and "content h fs (max_files h - 1) \<noteq> []"
  shows "older_full h fs"
proof -
  have "content h fs (max_files h - 1 - i) \<noteq> []" if "i < max_files h - 1" for i
    using that
  proof (induction i)
    case (Suc i)
    let ?j = "max_files h - 1 - i"
    have "content h fs ?j \<noteq> []" "0 < ?j" "?j < max_files h" "1 < ?j" using Suc assms(2) by auto
    then have "content h fs (?j - 1) \<noteq> []" using assms(1) unfolding filled_def by blast
    then show ?case by simp
  qed (use assms(3) in simp)
  note used = this
  have "content h fs j \<noteq> []" if "0 < j" "j < max_files h" for j
  proof -
    have "max_files h - 1 - (max_files h - 1 - j) = j" "max_files h - 1 - j < max_files h - 1" using that by auto
    then show ?thesis using used [of "max_files h - 1 - j"] by simp
  qed
  then show ?thesis using assms(1) by (simp add: filled_def older_full_def)
qed

lemma rotate_content:
  assumes "2 \<le> max_files h" and "max_files h < 2 ^ 64" and "j < max_files h"
  shows "content h (rotate_files h fs) j = (if j = 0 then [] else content h fs (j - 1))"
  using rotate_moves [OF assms(1,2), of fs] assms(3) by (simp add: content_def)

text \<open>A rotation loses text only when all the files that are left are full afterwards.\<close>

lemma rotate_filled:
  assumes "2 \<le> max_files h" and "max_files h < 2 ^ 64" and "filled h fs" and "max_file_size h < length (content h fs 0)"
  shows "filled h (rotate_files h fs)"
    and "older_full h fs \<Longrightarrow> older_full h (rotate_files h fs)"
proof -
  note c = rotate_content [OF assms(1,2)]
  have big: "max_file_size h < length (content h fs (j - 1))" if "0 < j" "j < max_files h" "content h fs (j - 1) \<noteq> []" for j
    using assms(3,4) that by (cases "j = 1") (auto simp: filled_def)
  have "content h fs (j - 2) \<noteq> []" if "1 < j" "j < max_files h" "content h fs (j - 1) \<noteq> []" for j
    using assms(3) [unfolded filled_def, rule_format, of "j - 1"] assms(4) that
    by (cases "j = 2") (auto simp: numeral_2_eq_2)
  then show "filled h (rotate_files h fs)" using big unfolding filled_def by (auto simp: c numeral_2_eq_2)
  show "older_full h (rotate_files h fs)" if "older_full h fs"
    using that assms(4) unfolding older_full_def by (auto simp: c) (metis gr0I less_imp_diff_less)
qed

lemma older_full_length:
  assumes "older_full h fs"
  shows "(max_files h - 1) * (max_file_size h + 1) \<le> length (log_text h fs)"
proof (cases "max_files h")
  case (Suc n)
  have sum: "length xs * c \<le> sum_list (map f xs)" if "\<forall>x \<in> set xs. c \<le> f x" for c and f :: "nat \<Rightarrow> nat" and xs
    using that by (induction xs) auto
  have "length (rev [0..<n]) * (max_file_size h + 1) \<le> sum_list (map (\<lambda>j. length (content h fs (Suc j))) (rev [0..<n]))"
    using assms Suc by (intro sum) (auto simp: older_full_def Suc_le_eq)
  then show ?thesis
    unfolding log_text_def Suc rev_upt_Suc by (simp add: length_concat comp_def)
qed simp

lemma append_file_bound:
  assumes "2 \<le> max_files h" and "max_files h < 2 ^ 64" and "length (metrics_line m) \<le> len" and "log_inv h len t fs"
    and that: "append_metrics h m fs p = Some s"
  shows "(\<exists>j < max_files h. p = log_path h j) \<and> length s \<le> max_file_size h + len"
proof -
  let ?rot = "max_file_size h < length (content h fs 0)"
  define fs1 where "fs1 = (if ?rot then rotate_files h fs else fs)"
  have base: "log_path h 0 = log_base h" by (simp add: log_path_def)
  have app: "append_metrics h m fs = fs1(log_base h \<mapsto> content h fs1 0 @ metrics_line m)"
    by (auto simp: append_metrics_def fs1_def content_def base Let_def split: option.splits)
  show ?thesis
  proof (cases "p = log_base h")
    case True
    have "length (content h fs1 0) \<le> max_file_size h"
      using rotate_log_text(2) [OF assms(1,2), of fs] by (simp add: fs1_def)
    then show ?thesis using that True assms(1,3) base unfolding app by (auto intro!: exI [of _ 0])
  next
    case False
    then have p: "fs1 p = Some s" using that by (simp add: app)
    have all: "\<forall>p s. fs p = Some s \<longrightarrow> (\<exists>j < max_files h. p = log_path h j) \<and> length s \<le> max_file_size h + len"
      using assms(4) by (simp add: log_inv_def)
    show ?thesis
    proof (cases "?rot \<and> (\<exists>j < max_files h. p = log_path h j)")
      case True
      then obtain j where j: "j < max_files h" "p = log_path h j" by blast
      then have "fs (log_path h (j - 1)) = Some s"
        using rotate_moves [OF assms(1,2), of fs] p True by (auto simp: fs1_def split: if_splits)
      then show ?thesis using all j by blast
    next
      case False
      then have "fs p = Some s"
        using rotate_moves [OF assms(1,2), of fs] p by (auto simp: fs1_def split: if_splits)
      then show ?thesis using all by blast
    qed
  qed
qed

lemma append_content:
  "0 < j \<Longrightarrow> content h (fs(log_base h \<mapsto> t)) j = content h fs j"
  using log_path_inject [of h j 0] by (simp add: content_def) (simp add: log_path_def)

lemma append_log_inv:
  assumes "2 \<le> max_files h" and "max_files h < 2 ^ 64" and "length (metrics_line m) \<le> len" and "log_inv h len t fs"
  shows "log_inv h len (t @ metrics_line m) (append_metrics h m fs) \<and>
    (\<exists>k \<le> length t. log_text h (append_metrics h m fs) = drop k (t @ metrics_line m) \<and>
      (0 < k \<longrightarrow> older_full h (append_metrics h m fs)))"
proof -
  let ?rot = "max_file_size h < length (content h fs 0)"
  define fs1 where "fs1 = (if ?rot then rotate_files h fs else fs)"
  have base: "log_path h 0 = log_base h" by (simp add: log_path_def)
  have app: "append_metrics h m fs = fs1(log_base h \<mapsto> content h fs1 0 @ metrics_line m)"
    by (auto simp: append_metrics_def fs1_def content_def base Let_def split: option.splits)
  obtain k where k: "k \<le> length t" "log_text h fs = drop k t" "0 < k \<longrightarrow> older_full h fs" and f: "filled h fs"
    using assms(4) by (auto simp: log_inv_def)
  have f1: "filled h fs1" using rotate_filled(1) [OF assms(1,2) f] f by (simp add: fs1_def)
  have "\<exists>k \<le> length t. log_text h fs1 = drop k t \<and> (0 < k \<longrightarrow> older_full h fs1)"
  proof (cases ?rot)
    case True
    let ?lost = "content h fs (max_files h - 1)"
    have split: "drop k t = ?lost @ log_text h fs1"
      using rotate_log_text(1) [OF assms(1,2), of fs] True k(2) by (simp add: fs1_def)
    then have "log_text h fs1 = drop (length ?lost + k) t" by (simp flip: drop_drop)
    moreover have "length ?lost + k \<le> length t"
      using arg_cong [OF split, of length] k(1) by (simp only: length_drop length_append)
    moreover have "older_full h fs1" if "0 < length ?lost + k"
    proof -
      have "older_full h fs" using that k(3) filled_last [OF f assms(1)] by auto
      then show ?thesis using rotate_filled(2) [OF assms(1,2) f True] True by (simp add: fs1_def)
    qed
    ultimately show ?thesis by blast
  qed (use k in \<open>auto simp: fs1_def\<close>)
  then obtain k1 where k1: "k1 \<le> length t" "log_text h fs1 = drop k1 t" "0 < k1 \<longrightarrow> older_full h fs1" by blast
  let ?fs = "append_metrics h m fs"
  have "older_full h ?fs = older_full h fs1" "filled h ?fs"
    using f1 append_content unfolding app older_full_def filled_def by auto
  moreover have "log_text h ?fs = drop k1 (t @ metrics_line m)"
    unfolding app using append_log_text [of h fs1] assms(1) k1(1,2) by simp
  moreover have "(\<exists>j < max_files h. p = log_path h j) \<and> length s \<le> max_file_size h + len" if "?fs p = Some s" for p s
    by (rule append_file_bound [OF assms that])
  ultimately show ?thesis
    using k1(1,3) unfolding log_inv_def by (intro conjI exI [of _ k1]) auto
qed



end
