(* ===== verification/Double_Stream.thy ===== *)
theory Double_Stream
  imports Double_Text
begin

text \<open>
  Reading a \<open>double\<close> from a stream (\<open>operator>>\<close>, as the GNU library does it), and what is read of
  a number that was written with six significant digits.
\<close>

section \<open>Extraction\<close>

definition max_double :: rat where
  "max_double = of_int ((2 ^ 53 - 1) * 2 ^ 971)"

text \<open>A value that is too large is stored as the largest one and fails the stream.\<close>

definition stream_value :: "bool \<Rightarrow> rat \<Rightarrow> string \<Rightarrow> double option \<times> string option" where
  "stream_value neg q rest =
     (case round64 q of
        Fin v \<Rightarrow> (Some (Fin (if neg then - v else v)), Some rest)
      | _ \<Rightarrow> (Some (Fin (if neg then - max_double else max_double)), None))"

text \<open>
  Nothing is stored when only white space is left; 0 is stored and the stream fails when there is no
  digit, or none after the letter of the exponent.
\<close>

definition scan_double :: "string \<Rightarrow> double option \<times> string option" where
  "scan_double s =
     (let t = dropWhile is_space s;
          neg = (take 1 t = ''-'');
          r = (if neg \<or> take 1 t = ''+'' then drop 1 t else t);
          (ds, f, u) = scan_mantissa is_digit r
      in if t = [] then (None, None)
         else if ds = [] then (Some (Fin 0), None)
         else if map lower (take 1 u) = ''e'' then
           (let x = drop 1 u;
                eneg = (take 1 x = ''-'');
                y = (if eneg \<or> take 1 x = ''+'' then drop 1 x else x);
                es = takeWhile is_digit y
            in if es = [] then (Some (Fin 0), None)
               else stream_value neg (of_nat (dec_value ds) * 10 powi
                 ((if eneg then - int (dec_value es) else int (dec_value es)) - int f)) (dropWhile is_digit y))
         else stream_value neg (of_nat (dec_value ds) * 10 powi (- int f)) u)"

section \<open>Six digits\<close>

lemma powi_ten_pos [simp]: "0 < (10 :: rat) powi e"
  by (simp add: power_int_def)

lemma powi_ten_add: "(10 :: rat) powi (a + b) = 10 powi a * 10 powi b"
  by (simp add: power_int_add)

lemma powi_ten_nat: "(10 :: rat) powi (int n) = 10 ^ n"
  by (simp add: power_int_def)

lemma show_nat_range_rat:
  assumes "0 < k"
  shows "(10 :: rat) ^ (length (show_nat k) - 1) \<le> of_nat k" and "of_nat k < (10 :: rat) ^ length (show_nat k)"
proof -
  have "of_nat (10 ^ (length (show_nat k) - 1)) \<le> (of_nat k :: rat)"
    unfolding of_nat_le_iff using show_nat_range [OF assms] by simp
  then show "(10 :: rat) ^ (length (show_nat k) - 1) \<le> of_nat k" by simp
  have "(of_nat k :: rat) < of_nat (10 ^ length (show_nat k))"
    unfolding of_nat_less_iff using show_nat_range [OF assms] by simp
  then show "of_nat k < (10 :: rat) ^ length (show_nat k)" by simp
qed

lemma exp10_bounds:
  assumes "0 < q"
  shows "10 powi exp10 q \<le> q" and "q < 10 powi (exp10 q + 1)"
proof -
  obtain n d where nd: "quotient_of q = (n, d)" by fastforce
  define a b where "a = nat n" and "b = nat d"
  have d: "0 < d" using quotient_of_denom_pos [OF nd] .
  have q: "q = of_int n / of_int d" using quotient_of_div [OF nd] .
  then have n: "0 < n" using assms d by (simp add: zero_less_divide_iff)
  have ab: "0 < a" "0 < b" "of_int n = (of_nat a :: rat)" "of_int d = (of_nat b :: rat)"
    using n d by (simp_all add: a_def b_def)
  let ?la = "length (show_nat a)" and ?lb = "length (show_nat b)"
  let ?e = "int ?la - int ?lb"
  have len: "0 < ?la" "0 < ?lb" by simp_all
  note ra = show_nat_range_rat [OF ab(1)] and rb = show_nat_range_rat [OF ab(2)]
  have "?e + 1 + int (?lb - 1) = int ?la" "?e - 1 + int ?lb = int (?la - 1)" using len by linarith+
  then have prod: "10 powi (?e + 1) * (10 :: rat) ^ (?lb - 1) = 10 ^ ?la" "10 powi (?e - 1) * (10 :: rat) ^ ?lb = 10 ^ (?la - 1)"
    by (simp_all only: powi_ten_nat [symmetric] powi_ten_add [symmetric])
  have qb: "q * of_nat b = of_nat a" using ab by (simp add: q)
  have "q < 10 powi (?e + 1)"
  proof (rule ccontr)
    assume "\<not> ?thesis"
    then have "10 powi (?e + 1) * of_nat b \<le> q * of_nat b" using ab(2) by (intro mult_right_mono) simp_all
    moreover have "10 powi (?e + 1) * 10 ^ (?lb - 1) \<le> 10 powi (?e + 1) * (of_nat b :: rat)"
      using rb(1) by (intro mult_left_mono) (simp_all add: less_imp_le)
    ultimately show False using ra(2) qb prod(1) by linarith
  qed
  moreover have "10 powi (?e - 1) \<le> q"
  proof (rule ccontr)
    assume "\<not> ?thesis"
    then have "q * of_nat b \<le> 10 powi (?e - 1) * of_nat b" using ab(2) by (intro mult_right_mono) simp_all
    moreover have "10 powi (?e - 1) * (of_nat b :: rat) < 10 powi (?e - 1) * 10 ^ ?lb"
      using rb(2) by (intro mult_strict_left_mono) simp_all
    ultimately show False using ra(1) qb prod(2) by linarith
  qed
  moreover have "exp10 q = (if 10 powi ?e \<le> q then ?e else ?e - 1)"
    by (simp add: exp10_def nd a_def b_def Let_def)
  ultimately show "10 powi exp10 q \<le> q" "q < 10 powi (exp10 q + 1)" by (auto simp: not_le)
qed

text \<open>The rounded mantissa has six digits; its value differs by at most half a unit of the last one.\<close>

definition six_value :: "rat \<Rightarrow> rat" where
  "six_value q = (let (ds, e) = six_digits q in of_nat (dec_value ds) * 10 powi (e - 5))"

lemma six_digit_number:
  assumes "100000 \<le> k" and "k < 1000000"
  shows "length (show_nat k) = 6"
proof -
  have "10 ^ (length (show_nat k) - 1) \<le> k" "k < 10 ^ length (show_nat k)"
    using show_nat_range [of k] assms by simp_all
  then have "(10 :: nat) ^ (length (show_nat k) - 1) < 10 ^ 6" "(10 :: nat) ^ 5 < 10 ^ length (show_nat k)"
    using assms by simp_all
  then have "length (show_nat k) - 1 < 6" "5 < length (show_nat k)"
    using power_less_imp_less_exp [of "10 :: nat" "length (show_nat k) - 1" 6]
      power_less_imp_less_exp [of "10 :: nat" 5 "length (show_nat k)"] by simp_all
  then show ?thesis by simp
qed

lemma six_digits_shape:
  assumes "0 < q" and "six_digits q = (ds, e)"
  shows "length ds = 6 \<and> (\<forall>c \<in> set ds. is_digit c) \<and> ds \<noteq> [] \<and> \<bar>six_value q - q\<bar> \<le> q / 200000"
proof -
  define e0 where "e0 = exp10 q"
  define x where "x = q * 10 powi (5 - e0)"
  define m where "m = nat (round_even x)"
  have b: "10 powi e0 \<le> q" "q < 10 powi (e0 + 1)" using exp10_bounds [OF assms(1)] by (simp_all add: e0_def)
  have shift: "10 powi e0 * 10 powi (5 - e0) = (100000 :: rat)" "10 powi (e0 + 1) * 10 powi (5 - e0) = (1000000 :: rat)"
    using powi_ten_nat [of 5] powi_ten_nat [of 6] by (simp_all flip: powi_ten_add)
  have x: "100000 \<le> x" "x < 1000000"
    using mult_right_mono [OF b(1), of "10 powi (5 - e0)"] mult_strict_right_mono [OF b(2), of "10 powi (5 - e0)"]
    unfolding x_def shift by (simp_all add: less_imp_le)
  have "round_even (of_int 100000) \<le> round_even x" "round_even x \<le> round_even (of_int 1000000)"
    using x by (intro round_even_mono; simp)+
  then have m: "100000 \<le> m" "m \<le> 1000000" "of_nat m = (of_int (round_even x) :: rat)"
    unfolding round_even_int m_def by simp_all
  have unit: "10 powi (5 - e0) * 10 powi (e0 - 5) = (1 :: rat)" by (simp flip: powi_ten_add)
  have q: "q = x * 10 powi (e0 - 5)" using unit by (simp add: x_def mult.assoc)
  have val: "six_value q = of_nat m * 10 powi (e0 - 5)" and sh: "length ds = 6 \<and> (\<forall>c \<in> set ds. is_digit c) \<and> ds \<noteq> []"
  proof -
    have sd: "six_digits q = (if m = 1000000 then (''100000'', e0 + 1) else (show_nat m, e0))"
      by (simp add: six_digits_def e0_def x_def m_def Let_def)
    have hundred: "''100000'' = show_nat 100000" by code_simp
    show "length ds = 6 \<and> (\<forall>c \<in> set ds. is_digit c) \<and> ds \<noteq> []"
      using assms(2) m(1,2) show_nat_digits six_digit_number unfolding sd hundred by (auto split: if_splits)
    have "10 powi (e0 + 1 - 5) = 10 * (10 :: rat) powi (e0 - 5)"
      using powi_ten_add [of 1 "e0 - 5"] by (simp add: algebra_simps)
    then show "six_value q = of_nat m * 10 powi (e0 - 5)"
      unfolding six_value_def sd hundred by (auto simp: dec_value_show_nat)
  qed
  have "\<bar>of_nat m - x\<bar> \<le> 1 / 2" using round_even_bounds [of x] unfolding m(3) abs_le_iff by linarith
  then have "\<bar>of_nat m - x\<bar> \<le> x / 200000" using x(1) by linarith
  then have "\<bar>of_nat m - x\<bar> * 10 powi (e0 - 5) \<le> x / 200000 * 10 powi (e0 - 5)"
    by (intro mult_right_mono) (simp_all add: less_imp_le)
  moreover have "\<bar>six_value q - q\<bar> = \<bar>of_nat m - x\<bar> * 10 powi (e0 - 5)"
    unfolding val by (subst q) (simp add: abs_mult flip: left_diff_distrib)
  ultimately show ?thesis using sh q by simp
qed

section \<open>Reading what was written\<close>

lemma strip_zeros_split: "\<exists>k. f = strip_zeros f @ replicate k (CHR ''0'')"
proof -
  let ?z = "takeWhile (\<lambda>c. c = CHR ''0'') (rev f)"
  have z: "replicate (length ?z) (CHR ''0'') = ?z"
    by (rule replicate_length_same) (auto dest: set_takeWhileD)
  have "f = rev (?z @ dropWhile (\<lambda>c. c = CHR ''0'') (rev f))" by (simp only: takeWhile_dropWhile_id rev_rev_ident)
  then have "f = strip_zeros f @ rev ?z" by (simp only: rev_append strip_zeros_def)
  moreover have "rev ?z = replicate (length ?z) (CHR ''0'')" by (metis z rev_replicate)
  ultimately show ?thesis by metis
qed

lemma dec_value_zeros: "dec_value (x @ replicate k (CHR ''0'')) = dec_value x * 10 ^ k"
proof (induction k)
  case (Suc k)
  have "digit_val (CHR ''0'') = 0" by code_simp
  moreover have "x @ replicate (Suc k) (CHR ''0'') = (x @ replicate k (CHR ''0'')) @ [CHR ''0'']"
    by (simp add: replicate_append_same)
  ultimately show ?case using Suc by (simp only: dec_value_snoc) simp
qed simp

lemma dec_value_leading_zeros: "dec_value (replicate k (CHR ''0'') @ x) = dec_value x"
proof (induction k)
  case (Suc k)
  have "digit_val (CHR ''0'') = 0" by code_simp
  then show ?case using Suc by (simp add: dec_value_def)
qed simp

definition ends_number :: "string \<Rightarrow> bool" where
  "ends_number r \<longleftrightarrow> (r = [] \<or> \<not> is_digit (hd r) \<and> hd r \<noteq> CHR ''.'')"

lemma digits_split:
  assumes "\<forall>c \<in> set ds. is_digit c" and "r = [] \<or> \<not> is_digit (hd r)"
  shows "takeWhile is_digit (ds @ r) = ds" and "dropWhile is_digit (ds @ r) = r"
  using assms by (auto simp: text_simps dropWhile_append) (cases r; simp)+

text \<open>A number with its zeros stripped is scanned to a mantissa of the same value.\<close>

lemma scan_mantissa_fraction:
  assumes "\<forall>c \<in> set i. is_digit c" and "\<forall>c \<in> set f. is_digit c" and "ends_number r"
  shows "\<exists>ds n. scan_mantissa is_digit (with_fraction i f @ r) = (ds, n, r) \<and> (i \<noteq> [] \<longrightarrow> ds \<noteq> []) \<and>
    of_nat (dec_value ds) * 10 powi (- int n) = (of_nat (dec_value (i @ f)) * 10 powi (- int (length f)) :: rat)"
proof -
  define g where "g = strip_zeros f"
  obtain k where k: "f = g @ replicate k (CHR ''0'')" using strip_zeros_split g_def by blast
  have g: "\<forall>c \<in> set g. is_digit c" using assms(2) k by simp
  have "of_nat (dec_value (i @ f)) * 10 powi (- int (length f)) =
      of_nat (dec_value (i @ g)) * (10 ^ k * 10 powi (- int (length f)) :: rat)"
    using dec_value_zeros [of "i @ g" k] by (simp add: k mult.assoc)
  also have "10 ^ k * 10 powi (- int (length f)) = (10 :: rat) powi (- int (length g))"
  proof -
    have "int k + - int (length f) = - int (length g)" by (simp add: k)
    then show ?thesis by (simp only: powi_ten_nat [symmetric] powi_ten_add [symmetric])
  qed
  finally have val: "of_nat (dec_value (i @ f)) * 10 powi (- int (length f)) =
      (of_nat (dec_value (i @ g)) * 10 powi (- int (length g)) :: rat)" .
  have r: "r = [] \<or> \<not> is_digit (hd r)" "r = [] \<or> hd r \<noteq> CHR ''.''" using assms(3) by (auto simp: ends_number_def)
  have dot: "\<not> is_digit (CHR ''.'')" by code_simp
  show ?thesis
  proof (cases "g = []")
    case True
    then have "scan_mantissa is_digit (with_fraction i f @ r) = (i, 0, r)"
      using r(2) by (auto simp: scan_mantissa_def with_fraction_def Let_def digits_split [OF assms(1) r(1)] split: list.split
          simp flip: g_def)
    then show ?thesis using val True by (intro exI [of _ i] exI [of _ 0]) simp
  next
    case False
    have "takeWhile is_digit (i @ CHR ''.'' # g @ r) = i" "dropWhile is_digit (i @ CHR ''.'' # g @ r) = CHR ''.'' # g @ r"
      using digits_split [OF assms(1), of "CHR ''.'' # g @ r"] dot by simp_all
    then have "scan_mantissa is_digit (with_fraction i f @ r) = (i @ g, length g, r)"
      using digits_split [OF g r(1)] False by (simp add: scan_mantissa_def with_fraction_def Let_def flip: g_def)
    then show ?thesis using val by (intro exI [of _ "i @ g"] exI [of _ "length g"]) simp
  qed
qed

lemma scan_double_unsigned:
  assumes "s \<noteq> []" and "is_digit (hd s)" and "scan_mantissa is_digit s = (ds, f, u)" and "ds \<noteq> []"
  shows "map lower (take 1 u) \<noteq> ''e'' \<Longrightarrow>
      scan_double s = stream_value False (of_nat (dec_value ds) * 10 powi (- int f)) u"
    and "u = CHR ''e'' # sg # y \<Longrightarrow> sg \<in> {CHR ''-'', CHR ''+''} \<Longrightarrow> takeWhile is_digit y \<noteq> [] \<Longrightarrow>
      scan_double s = stream_value False (of_nat (dec_value ds) * 10 powi
        ((if sg = CHR ''-'' then - int (dec_value (takeWhile is_digit y)) else int (dec_value (takeWhile is_digit y))) - int f))
        (dropWhile is_digit y)"
proof -
  have blank: "dropWhile is_space s = s" using assms(1,2) digit_not_space by (cases s) auto
  have sign: "take (Suc 0) s \<noteq> ''-''" "take (Suc 0) s \<noteq> ''+''" using assms(1,2) by (cases s; auto simp: is_digit_def)+
  have le: "lower (CHR ''e'') = CHR ''e''" by code_simp
  show "map lower (take 1 u) \<noteq> ''e'' \<Longrightarrow>
      scan_double s = stream_value False (of_nat (dec_value ds) * 10 powi (- int f)) u"
    using assms(1,3,4) by (simp add: scan_double_def Let_def blank sign)
  show "u = CHR ''e'' # sg # y \<Longrightarrow> sg \<in> {CHR ''-'', CHR ''+''} \<Longrightarrow> takeWhile is_digit y \<noteq> [] \<Longrightarrow>
      scan_double s = stream_value False (of_nat (dec_value ds) * 10 powi
        ((if sg = CHR ''-'' then - int (dec_value (takeWhile is_digit y)) else int (dec_value (takeWhile is_digit y))) - int f))
        (dropWhile is_digit y)"
    using assms(1,3,4) by (auto simp: scan_double_def Let_def blank sign le)
qed

lemma with_fraction_hd: "i \<noteq> [] \<Longrightarrow> with_fraction i f \<noteq> [] \<and> hd (with_fraction i f @ r) = hd i"
  by (simp add: with_fraction_def)

text \<open>The exponent as it is written.\<close>

lemma show_exponent_parts:
  "\<exists>sg y. show_exponent e = CHR ''e'' # sg # y \<and> sg \<in> {CHR ''-'', CHR ''+''} \<and> y \<noteq> [] \<and> (\<forall>c \<in> set y. is_digit c) \<and>
     (if sg = CHR ''-'' then - int (dec_value y) else int (dec_value y)) = e"
proof -
  let ?y = "(if \<bar>e\<bar> < 10 then ''0'' else []) @ show_nat (nat \<bar>e\<bar>)"
  have "is_digit (CHR ''0'')" by code_simp
  then have d: "\<forall>c \<in> set ?y. is_digit c" using show_nat_digits by auto
  have v: "dec_value ?y = nat \<bar>e\<bar>"
    using dec_value_leading_zeros [of 1 "show_nat (nat \<bar>e\<bar>)"] by (simp add: dec_value_show_nat)
  show ?thesis
  proof (cases "e < 0")
    case True
    then show ?thesis using d v
      by (intro exI [of _ "CHR ''-''"] exI [of _ ?y]) (simp add: show_exponent_def)
  next
    case False
    then show ?thesis using d v
      by (intro exI [of _ "CHR ''+''"] exI [of _ ?y]) (simp add: show_exponent_def)
  qed
qed

text \<open>
  A positive number written with six significant digits is read back as the double nearest to their
  value, and reading stops behind it.
\<close>

lemma scan_plain:
  assumes r: "ends_number r" "map lower (take 1 r) \<noteq> ''e''"
    and i: "i \<noteq> []" "\<forall>c \<in> set i. is_digit c" and f: "\<forall>c \<in> set f. is_digit c"
  shows "scan_double (with_fraction i f @ r) =
    stream_value False (of_nat (dec_value (i @ f)) * 10 powi (- int (length f))) r"
proof -
  obtain xs n where sc: "scan_mantissa is_digit (with_fraction i f @ r) = (xs, n, r)" "xs \<noteq> []"
    "of_nat (dec_value xs) * 10 powi (- int n) = (of_nat (dec_value (i @ f)) * 10 powi (- int (length f)) :: rat)"
    using scan_mantissa_fraction [OF i(2) f r(1)] i(1) by blast
  have "is_digit (hd (with_fraction i f @ r))" using with_fraction_hd [OF i(1)] i by simp
  then show ?thesis
    using scan_double_unsigned(1) [OF _ _ sc(1,2) r(2)] with_fraction_hd [OF i(1)] sc(3) by simp
qed

lemma scan_exponent:
  assumes r: "ends_number r" and ds: "length ds = 6" "\<forall>c \<in> set ds. is_digit c"
  shows "scan_double (with_fraction (take 1 ds) (drop 1 ds) @ show_exponent e @ r) =
    stream_value False (of_nat (dec_value ds) * 10 powi (e - 5)) r"
proof -
  have part: "\<forall>c \<in> set (take k ds). is_digit c" "\<forall>c \<in> set (drop k ds). is_digit c" for k
    using ds(2) by (auto dest: in_set_takeD in_set_dropD)
  have ne: "ds \<noteq> []" using ds(1) by auto
  let ?w = "with_fraction (take 1 ds) (drop 1 ds)"
  have i: "take 1 ds \<noteq> []" using ne by simp
  obtain sg y where ex: "show_exponent e = CHR ''e'' # sg # y" "sg \<in> {CHR ''-'', CHR ''+''}" "y \<noteq> []"
    "\<forall>c \<in> set y. is_digit c" "(if sg = CHR ''-'' then - int (dec_value y) else int (dec_value y)) = e"
    using show_exponent_parts by blast
  have "ends_number (show_exponent e @ r)" by (simp add: ends_number_def ex(1) is_digit_def)
  then obtain xs n where sc: "scan_mantissa is_digit (?w @ show_exponent e @ r) = (xs, n, show_exponent e @ r)" "xs \<noteq> []"
    "of_nat (dec_value xs) * 10 powi (- int n) = (of_nat (dec_value ds) * 10 powi (- int (length (drop 1 ds))) :: rat)"
    using scan_mantissa_fraction [OF part] i append_take_drop_id [of 1 ds] by metis
  have y: "takeWhile is_digit (y @ r) = y" "dropWhile is_digit (y @ r) = r"
    using digits_split [OF ex(4), of r] r by (auto simp: ends_number_def)
  have "is_digit (hd (?w @ show_exponent e @ r))" using with_fraction_hd [OF i] ds(2) ne by (cases ds) auto
  then have "scan_double (?w @ show_exponent e @ r) =
      stream_value False (of_nat (dec_value xs) * 10 powi (e - int n)) r"
    using scan_double_unsigned(2) [OF _ _ sc(1,2), of sg "y @ r"] with_fraction_hd [OF i] ex(1-3)
    unfolding y ex(5) by simp
  moreover have "of_nat (dec_value xs) * 10 powi (e - int n) = (of_nat (dec_value ds) * 10 powi (e - 5) :: rat)"
  proof -
    have "of_nat (dec_value xs) * 10 powi (e - int n) = of_nat (dec_value xs) * 10 powi (- int n) * (10 powi e :: rat)"
      using powi_ten_add [of e "- int n"] by simp
    also have "\<dots> = of_nat (dec_value ds) * (10 powi e * 10 powi (- 5))" using ds(1) unfolding sc(3) by simp
    also have "10 powi e * 10 powi (- 5) = (10 :: rat) powi (e - 5)"
      by (simp only: powi_ten_add [symmetric] diff_conv_add_uminus)
    finally show ?thesis .
  qed
  ultimately show ?thesis by simp
qed

lemma scan_show_pos:
  assumes "0 < q" and "ends_number r" and "map lower (take 1 r) \<noteq> ''e''"
  shows "scan_double (show_pos q @ r) = stream_value False (six_value q) r"
proof -
  obtain ds e where six: "six_digits q = (ds, e)" by fastforce
  have ds: "length ds = 6" "\<forall>c \<in> set ds. is_digit c" "ds \<noteq> []" using six_digits_shape [OF assms(1) six] by simp_all
  have val: "six_value q = of_nat (dec_value ds) * 10 powi (e - 5)" by (simp add: six_value_def six)
  have part: "\<forall>c \<in> set (take k ds). is_digit c" "\<forall>c \<in> set (drop k ds). is_digit c" for k
    using ds(2) by (auto dest: in_set_takeD in_set_dropD)
  have zero: "is_digit (CHR ''0'')" by code_simp
  note plain = scan_plain [OF assms(2,3)]
  consider "e < - 4 \<or> 6 \<le> e" | "0 \<le> e" "e < 6" | "- 4 \<le> e" "e < 0" by linarith
  then show ?thesis
  proof cases
    case 1
    then have "show_pos q = with_fraction (take 1 ds) (drop 1 ds) @ show_exponent e" by (auto simp: show_pos_def six)
    then show ?thesis using scan_exponent [OF assms(2) ds(1,2)] by (simp add: val)
  next
    case 2
    then have "show_pos q = with_fraction (take (nat e + 1) ds) (drop (nat e + 1) ds)" by (simp add: show_pos_def six)
    moreover have "- int (length (drop (nat e + 1) ds)) = e - 5" using 2 ds(1) by simp
    ultimately show ?thesis
      using plain [of "take (nat e + 1) ds" "drop (nat e + 1) ds"] part ds(3) by (simp add: val)
  next
    case 3
    let ?f = "replicate (nat (- e - 1)) (CHR ''0'') @ ds"
    have "show_pos q = with_fraction ''0'' ?f" using 3 by (simp add: show_pos_def six)
    moreover have "- int (length ?f) = e - 5" using 3 ds(1) by simp
    moreover have "dec_value (''0'' @ ?f) = dec_value ds"
      using dec_value_leading_zeros [of "Suc (nat (- e - 1))" ds] by simp
    moreover have "\<forall>c \<in> set ?f. is_digit c" using ds(2) zero by auto
    from plain [OF _ _ this, of "''0''"] have
      "scan_double (with_fraction ''0'' ?f @ r) = stream_value False (of_nat (dec_value (''0'' @ ?f)) * 10 powi (- int (length ?f))) r"
      using zero by simp
    ultimately show ?thesis unfolding val by simp
  qed
qed

end
