(* ===== verification/Metrics_Tail.thy ===== *)
theory Metrics_Tail
  imports Metrics Double_Stream
begin

text \<open>
  \<open>MetricsHistory::tail\<close> (\<open>src/metrics/sampler.cpp\<close>): the last lines of the log, each parsed by
  extractions from a stream, and what is read back of the records that were appended.
\<close>

section \<open>Parsing a line\<close>

text \<open>
  Extractions from a stream that may have failed (\<open>None\<close>) into members that hold 0; a character is
  read after white space.
\<close>

fun get_u64 :: "string option \<Rightarrow> 64 word \<times> string option" where
  "get_u64 None = (0, None)"
| "get_u64 (Some s) = (case scan_u64 s of (v, rest) \<Rightarrow> (case v of None \<Rightarrow> 0 | Some x \<Rightarrow> x, rest))"

fun get_double :: "string option \<Rightarrow> double \<times> string option" where
  "get_double None = (Fin 0, None)"
| "get_double (Some s) = (case scan_double s of (v, rest) \<Rightarrow> (case v of None \<Rightarrow> Fin 0 | Some x \<Rightarrow> x, rest))"

fun get_char :: "string option \<Rightarrow> string option" where
  "get_char None = None"
| "get_char (Some s) = (case dropWhile is_space s of [] \<Rightarrow> None | c # r \<Rightarrow> Some r)"

definition parse_metrics :: "string \<Rightarrow> metrics" where
  "parse_metrics line =
     (let (t, s1) = get_u64 (Some line); (c, s2) = get_double (get_char s1);
          (total, s3) = get_u64 (get_char s2); (free, s4) = get_u64 (get_char s3);
          (avail, s5) = get_u64 (get_char s4)
      in \<lparr>cpu_percent = c, mem = no_mem\<lparr>ms_total := total, ms_free := free, ms_available := avail\<rparr>, timestamp = t\<rparr>)"

definition tail_metrics :: "history \<Rightarrow> nat \<Rightarrow> files \<Rightarrow> metrics list" where
  "tail_metrics h n fs = map parse_metrics (tail_lines h n fs)"

section \<open>A line read back\<close>

text \<open>What the log keeps of a record: the load to six significant digits, of the memory three of five members.\<close>

definition load_ok :: "metrics \<Rightarrow> bool" where
  "load_ok m \<longleftrightarrow> (case cpu_percent m of Fin v \<Rightarrow> 0 \<le> v \<and> v < 2 ^ 100 | _ \<Rightarrow> False)"

definition logged_load :: "double \<Rightarrow> double" where
  "logged_load d = (case d of Fin v \<Rightarrow> if v = 0 then Fin 0 else round64 (six_value v) | _ \<Rightarrow> d)"

definition logged :: "metrics \<Rightarrow> metrics" where
  "logged m = m\<lparr>cpu_percent := logged_load (cpu_percent m), mem := (mem m)\<lparr>ms_buffers := 0, ms_cached := 0\<rparr>\<rparr>"

lemma get_u64_show:
  assumes "r = [] \<or> \<not> is_digit (hd r)"
  shows "get_u64 (Some (show_nat (unat w) @ r)) = (w, Some r)"
proof -
  define s where "s = show_nat (unat w)"
  have s: "s \<noteq> []" "\<forall>c \<in> set s. is_digit c" "dec_value s = unat w"
    using show_nat_digits by (simp_all add: s_def dec_value_show_nat)
  have blank: "dropWhile is_space (s @ r) = s @ r" using s(1,2) digit_not_space by (cases s) auto
  have sign: "take (Suc 0) (s @ r) \<noteq> ''-''" "take (Suc 0) (s @ r) \<noteq> ''+''"
    using s(1,2) by (cases s; auto simp: is_digit_def)+
  have "unat w < 2 ^ 64" using unsigned_less [of w] by simp
  moreover define x where "x = s @ r"
  ultimately have "scan_u64 x = (Some w, Some r)"
    using s(1,3) digits_split [OF s(2) assms] blank sign unfolding x_def [symmetric]
    by (simp add: scan_u64_def Let_def) (simp add: x_def)
  then have "scan_u64 (s @ r) = (Some w, Some r)" by (simp add: x_def)
  then show ?thesis by (simp add: s_def)
qed

lemma get_char_comma: "get_char (Some (CHR '','' # r)) = Some r"
proof -
  have "\<not> is_space (CHR '','')" by code_simp
  then show ?thesis by simp
qed

lemma get_double_show:
  assumes "load_ok m"
  shows "get_double (Some (show_double (cpu_percent m) @ CHR '','' # r)) = (logged_load (cpu_percent m), Some (CHR '','' # r))"
proof -
  obtain v where v: "cpu_percent m = Fin v" "0 \<le> v" "v < 2 ^ 100"
    using assms by (auto simp: load_ok_def split: double.splits)
  have comma: "ends_number (CHR '','' # r)" "map lower (take 1 (CHR '','' # r)) \<noteq> ''e''"
    by (simp_all add: ends_number_def is_digit_def lower_def)
  show ?thesis
  proof (cases "v = 0")
    case True
    have zero: "is_digit (CHR ''0'')" "dec_value ''0'' = 0" by code_simp+
    have "scan_mantissa is_digit (''0'' @ CHR '','' # r) = (''0'', 0, CHR '','' # r)"
      using zero(1) comma(1) by (simp add: scan_mantissa_def ends_number_def)
    then have "scan_double (''0'' @ CHR '','' # r) = stream_value False (of_nat (dec_value ''0'') * 10 powi (- int 0)) (CHR '','' # r)"
      using zero(1) comma(2) by (intro scan_double_unsigned(1)) simp_all
    then show ?thesis using True v(1) zero(2) by (simp add: stream_value_def logged_load_def round64_def)
  next
    case False
    then have pos: "0 < v" using v(2) by simp
    obtain ds e where six: "six_digits v = (ds, e)" by fastforce
    have close: "\<bar>six_value v - v\<bar> \<le> v / 200000" using six_digits_shape [OF pos six] by simp
    have "six_value v \<le> 2 * v" "0 \<le> six_value v" using close pos by linarith+
    moreover have "2 * v < p2 1000"
    proof -
      have "2 * v < p2 101" using v(3) by simp
      also have "p2 101 < p2 1000" by (simp only: not_le [symmetric] p2_le_iff)
      finally show ?thesis .
    qed
    ultimately obtain x where x: "round64 (six_value v) = Fin x" using b64.rnd_finite [of "six_value v"] by auto
    show ?thesis
      using scan_show_pos [OF pos comma] False v(1,2) x by (simp add: stream_value_def logged_load_def)
  qed
qed

definition line_body :: "metrics \<Rightarrow> string" where
  "line_body m = butlast (metrics_line m)"

lemma metrics_line_body: "metrics_line m = line_body m @ [CHR 0x0A]"
  by (simp add: line_body_def metrics_line_def butlast_append)

lemma parse_line_body:
  assumes "load_ok m"
  shows "parse_metrics (line_body m) = logged m"
proof -
  have comma: "\<not> is_digit (CHR '','')" by code_simp
  have body: "line_body m = show_nat (unat (timestamp m)) @ CHR '','' # show_double (cpu_percent m) @ CHR '','' #
     show_nat (unat (ms_total (mem m))) @ CHR '','' # show_nat (unat (ms_free (mem m))) @ CHR '','' #
     show_nat (unat (ms_available (mem m))) @ []"
    by (simp add: line_body_def metrics_line_def butlast_append)
  show ?thesis
    unfolding parse_metrics_def body
    by (simp add: get_u64_show comma get_char_comma get_double_show [OF assms] logged_def no_mem_def
        del: get_u64.simps get_double.simps get_char.simps append_Nil2)
qed

section \<open>The lines of the log\<close>

lemma show_pos_chars:
  assumes "0 < q"
  shows "set (show_pos q) \<subseteq> {c. is_digit c} \<union> set ''.e+-''"
proof -
  obtain ds e where six: "six_digits q = (ds, e)" by fastforce
  have ds: "set ds \<subseteq> {c. is_digit c}" using six_digits_shape [OF assms six] by auto
  have zero: "is_digit (CHR ''0'')" by code_simp
  have frac: "set (with_fraction i f) \<subseteq> set i \<union> set f \<union> set ''.''" for i f
    using strip_zeros_split [of f] by (auto simp: with_fraction_def) (metis UnCI set_append)
  have expo: "set (show_exponent e) \<subseteq> {c. is_digit c} \<union> set ''e+-''"
    using show_nat_digits zero by (auto simp: show_exponent_def)
  have parts: "set (take k ds) \<subseteq> {c. is_digit c}" "set (drop k ds) \<subseteq> {c. is_digit c}" for k
    using ds set_take_subset [of k ds] set_drop_subset [of k ds] by blast+
  have split: "set (with_fraction (take k ds) (drop k ds)) \<subseteq> {c. is_digit c} \<union> set ''.e+-''" for k
    using frac [of "take k ds" "drop k ds"] parts [of k] by (simp, blast)
  consider "e < - 4 \<or> 6 \<le> e" | "0 \<le> e" "e < 6" | "- 4 \<le> e" "e < 0" by linarith
  then show ?thesis
  proof cases
    case 1
    then have "show_pos q = with_fraction (take 1 ds) (drop 1 ds) @ show_exponent e" by (auto simp: show_pos_def six)
    then show ?thesis using split [of 1] expo by (simp, blast)
  next
    case 2
    then have "show_pos q = with_fraction (take (nat e + 1) ds) (drop (nat e + 1) ds)" by (simp add: show_pos_def six)
    then show ?thesis using split [of "nat e + 1"] by simp
  next
    case 3
    let ?f = "replicate (nat (- e - 1)) (CHR ''0'') @ ds"
    have "show_pos q = with_fraction ''0'' ?f" using 3 by (simp add: show_pos_def six)
    moreover have "set ?f \<subseteq> {c. is_digit c}" using ds zero by auto
    ultimately show ?thesis using frac [of "''0''" ?f] zero by (auto 0 3)
  qed
qed

lemma line_body_newline:
  assumes "load_ok m"
  shows "CHR 0x0A \<notin> set (line_body m)"
proof -
  have digits: "CHR 0x0A \<notin> set (show_nat n)" for n using show_nat_digits [of n] by (auto simp: is_digit_def)
  obtain v where v: "cpu_percent m = Fin v" "0 \<le> v" using assms by (auto simp: load_ok_def split: double.splits)
  have "CHR 0x0A \<notin> {c. is_digit c} \<union> set ''.e+-''" by (simp add: is_digit_def)
  then have "CHR 0x0A \<notin> set (show_double (Fin v))" using show_pos_chars [of v] v(2) by auto
  then show ?thesis using digits v(1) by (simp add: line_body_def metrics_line_def butlast_append)
qed

lemma getlines_log:
  "\<forall>m \<in> set ms. load_ok m \<Longrightarrow> getlines (CHR 0x0A) (concat (map metrics_line ms)) = map line_body ms"
  by (induction ms) (simp_all add: metrics_line_body getlines_line line_body_newline)

lemma parse_lines:
  "\<forall>m \<in> set ms. load_ok m \<Longrightarrow> map parse_metrics (take_last n (map line_body ms)) = map logged (take_last n ms)"
  unfolding take_last_def by (auto simp: drop_map intro!: parse_line_body dest!: in_set_dropD)



end
