(* ===== verification/Ipc.thy ===== *)
theory Ipc
  imports Status_Socket
begin

text \<open>
  The line protocol and its server (\<open>src/ipc/ipc.cpp\<close>, \<open>include/heidi-kernel/ipc.h\<close>). A handler
  maps a request and the state of its owner to a reply and a new state, or throws; an exception
  leaves \<open>serve_forever\<close>. The socket calls are those of \<open>status_os\<close>.
\<close>

record IpcMessage =
  msg_type :: string

definition serialize :: "IpcMessage \<Rightarrow> string" where
  "serialize m = msg_type m @ [CHR 0x0A]"

text \<open>The first line; a message without one keeps its empty type.\<close>

definition deserialize :: "string \<Rightarrow> IpcMessage" where
  "deserialize s = \<lparr>msg_type = (case getlines (CHR 0x0A) s of [] \<Rightarrow> [] | l # _ \<Rightarrow> l)\<rparr>"

record server =
  sv_path :: string
  sv_fd :: int

definition server_new :: "'w status_os \<Rightarrow> string \<Rightarrow> 'w \<Rightarrow> server outcome \<times> 'w" where
  "server_new os path w =
     (let (fd, w1) = so_socket os w in
      if fd < 0 then (Inl (Runtime_Error ''Failed to create socket''), w1)
      else let (b, w3) = so_bind os fd (take 107 (c_str path)) (so_unlink os (c_str path) w1) in
        if b < 0 then (Inl (Runtime_Error ''Failed to bind socket''), w3)
        else let (l, w4) = so_listen os fd w3 in
          if l < 0 then (Inl (Runtime_Error ''Failed to listen''), w4)
          else (Inr \<lparr>sv_path = path, sv_fd = fd\<rparr>, w4))"

definition server_stop :: "'w status_os \<Rightarrow> server \<times> 'w \<Rightarrow> server \<times> 'w" where
  "server_stop os = (\<lambda>(s, w).
     (let w1 = (if 0 \<le> sv_fd s then so_close os (sv_fd s) w else w)
      in (s\<lparr>sv_fd := (if 0 \<le> sv_fd s then - 1 else sv_fd s)\<rparr>, so_unlink os (c_str (sv_path s)) w1)))"

type_synonym 's handler = "string \<Rightarrow> 's \<Rightarrow> (string \<times> 's) outcome"

text \<open>\<open>data\<close> is what one \<open>read\<close> of at most 1023 bytes returns; the result is what is written, if anything.\<close>

definition ipc_client :: "'s handler option \<Rightarrow> string option \<Rightarrow> 's \<Rightarrow> (string option \<times> 's) outcome" where
  "ipc_client h data s =
     (case data of
        None \<Rightarrow> Inr (None, s)
      | Some buf \<Rightarrow>
          if buf = [] then Inr (None, s)
          else let request = deserialize (c_str buf) in
            (case h of
               None \<Rightarrow> Inr (Some (serialize \<lparr>msg_type = ''error''\<rparr>), s)
             | Some f \<Rightarrow> (case f (msg_type request) s of Inl e \<Rightarrow> Inl e | Inr (r, s') \<Rightarrow> Inr (Some r, s'))))"

text \<open>
  The endless loop of \<open>serve_forever\<close> over what \<open>accept\<close> and \<open>read\<close> return: \<open>None\<close> is a failed
  \<open>accept\<close>, the flag tells whether the client is still there when it is answered; if not, the
  signal of \<open>write\<close> ends the process. The loop is left by an exception only.
\<close>

fun serve_one :: "'s handler option \<Rightarrow> string option \<times> bool \<Rightarrow> 's \<Rightarrow> (string option \<times> 's) outcome" where
  "serve_one h (data, is_open) s =
     (case ipc_client h data s of
        Inl e \<Rightarrow> Inl e
      | Inr (r, s') \<Rightarrow> if r \<noteq> None \<and> \<not> is_open then Inl Killed else Inr (r, s'))"

fun serve_all :: "'s handler option \<Rightarrow> (string option \<times> bool) option list \<Rightarrow> 's \<Rightarrow> (string option list \<times> 's) outcome" where
  "serve_all h [] s = Inr ([], s)"
| "serve_all h (None # cs) s = serve_all h cs s"
| "serve_all h (Some c # cs) s =
     (case serve_one h c s of
        Inl e \<Rightarrow> Inl e
      | Inr (r, s1) \<Rightarrow> (case serve_all h cs s1 of Inl e \<Rightarrow> Inl e | Inr (rs, s2) \<Rightarrow> Inr (r # rs, s2)))"

section \<open>Round trip\<close>

lemma deserialize_line: "CHR 0x0A \<notin> set l \<Longrightarrow> deserialize (l @ CHR 0x0A # r) = \<lparr>msg_type = l\<rparr>"
  by (simp add: deserialize_def getlines_line)

text \<open>What is kept of the front of a message without a newline in it.\<close>

lemma deserialize_prefix:
  assumes "CHR 0x0A \<notin> set p" and "p \<noteq> []"
  shows "\<exists>q. msg_type (deserialize (p @ r)) = p @ q"
proof (cases "CHR 0x0A \<in> set r")
  case True
  then obtain a b where r: "r = a @ CHR 0x0A # b" "CHR 0x0A \<notin> set a" by (metis split_list_first)
  then show ?thesis using deserialize_line [of "p @ a" b] assms(1) by simp
next
  case False
  then show ?thesis using assms getlines_last [of "CHR 0x0A" "p @ r"] by (simp add: deserialize_def)
qed

text \<open>
  a message whose type is one line is read back from its text, whatever follows it, and a client
  whose request is such a line of at most 1022 bytes without NUL gets the handler's reply to it.
\<close>

theorem serialize_roundtrip:
  assumes "CHR 0x0A \<notin> set (msg_type m)" and "CHR 0x00 \<notin> set (msg_type m)" and "h (msg_type m) s = Inr (r, s')"
  shows "deserialize (serialize m @ t) = m \<and> ipc_client (Some h) (Some (serialize m)) s = Inr (Some r, s')"
proof -
  have "c_str (serialize m) = serialize m" by (rule c_str_id) (use assms(2) in \<open>simp add: serialize_def\<close>)
  moreover have d: "deserialize (serialize m @ t) = m" for t
    using deserialize_line [OF assms(1)] by (simp add: serialize_def)
  moreover have "deserialize (serialize m) = m" using d [of "[]"] by simp
  ultimately show ?thesis using assms(3) by (simp add: ipc_client_def serialize_def)
qed

theorem serialize_roundtrip_witness:
  "ipc_client (Some (\<lambda>q s. Inr (rev q, s + 1))) (Some (serialize \<lparr>msg_type = ''ping''\<rparr>)) (0 :: nat) =
     Inr (Some ''gnip'', 1)"
  using serialize_roundtrip [of "\<lparr>msg_type = ''ping''\<rparr>" "\<lambda>q s. Inr (rev q, s + 1)" "0 :: nat" "''gnip''" 1 "[]"]
  by simp

end
