(* ===== verification/Daemon.thy ===== *)
theory Daemon
  imports Job Metrics Ipc
begin

text \<open>
  The daemon (\<open>src/daemon/daemon.cpp\<close>, \<open>include/heidi-kernel/daemon.h\<close>): its state behind the two
  mutexes, the requests it answers, the update of the policy and the monitor tick. Its threads are
  the interleaving of three kinds of operation: a request, a monitor tick, a sample.
\<close>

section \<open>State\<close>

record daemon =
  latest :: metrics
  d_policy :: GovernorPolicy
  d_runner :: runner
  running_jobs :: int
  queued_jobs :: int
  rejected_jobs :: int
  blocked_reason :: BlockReason
  d_retry_after_ms :: nat
  d_diagnostics :: TickDiagnostics
  d_started :: nat
  d_scanned :: nat

definition new_daemon :: daemon where
  "new_daemon = \<lparr>latest = no_metrics, d_policy = default_policy, d_runner = start (new_runner 10),
     running_jobs = 0, queued_jobs = 0, rejected_jobs = 0, blocked_reason = BR_NONE, d_retry_after_ms = 0,
     d_diagnostics = diagnostics (new_runner 10), d_started = 0, d_scanned = 0\<rparr>"

section \<open>Texts\<close>

abbreviation nl :: string where "nl \<equiv> [CHR 0x0A]"

fun reason_text :: "BlockReason \<Rightarrow> string" where
  "reason_text BR_NONE = ''none''"
| "reason_text CPU_HIGH = ''cpu_high''"
| "reason_text MEM_HIGH = ''mem_high''"
| "reason_text QUEUE_FULL = ''queue_full''"
| "reason_text RUNNING_LIMIT = ''running_limit''"

fun reason_name :: "BlockReason \<Rightarrow> string" where
  "reason_name BR_NONE = ''NONE''"
| "reason_name CPU_HIGH = ''CPU_HIGH''"
| "reason_name MEM_HIGH = ''MEM_HIGH''"
| "reason_name QUEUE_FULL = ''QUEUE_FULL''"
| "reason_name RUNNING_LIMIT = ''RUNNING_LIMIT''"

fun decision_name :: "GovernorDecision \<Rightarrow> string" where
  "decision_name START_NOW = ''START_NOW''"
| "decision_name HOLD_QUEUE = ''HOLD_QUEUE''"
| "decision_name REJECT_QUEUE_FULL = ''REJECT_QUEUE_FULL''"

definition used_pct :: "metrics \<Rightarrow> double" where
  "used_pct m = d_div (d_mul (d_of_u64 (unat (ms_total (mem m) - ms_free (mem m)))) (Fin 100))
     (d_of_u64 (unat (ms_total (mem m))))"

definition status_reply :: "daemon \<Rightarrow> string" where
  "status_reply d =
     ''status'' @ nl @ ''version: 0.1.0'' @ nl @ ''cpu: '' @ show_double (cpu_percent (latest d)) @ ''%'' @ nl @
     ''mem_total: '' @ show_nat (unat (ms_total (mem (latest d)))) @ nl @
     ''mem_free: '' @ show_nat (unat (ms_free (mem (latest d)))) @ nl @
     ''running_jobs: '' @ show_int (running_jobs d) @ nl @ ''queued_jobs: '' @ show_int (queued_jobs d) @ nl @
     ''rejected_jobs: '' @ show_int (rejected_jobs d) @ nl @
     ''blocked_reason: '' @ reason_text (blocked_reason d) @ nl @
     ''retry_after_ms: '' @ show_nat (d_retry_after_ms d) @ nl @
     ''cpu_pct: '' @ show_double (cpu_percent (latest d)) @ nl @ ''mem_pct: '' @ show_double (used_pct (latest d)) @ nl"

definition policy_lines :: "GovernorPolicy \<Rightarrow> string" where
  "policy_lines p =
     ''max_running_jobs: '' @ show_int (max_running_jobs p) @ nl @
     ''max_queue_depth: '' @ show_int (max_queue_depth p) @ nl @
     ''cpu_high_watermark_pct: '' @ show_double (cpu_high_watermark_pct p) @ nl @
     ''mem_high_watermark_pct: '' @ show_double (mem_high_watermark_pct p) @ nl @
     ''cooldown_ms: '' @ show_nat (cooldown_ms p) @ nl @
     ''min_start_gap_ms: '' @ show_nat (min_start_gap_ms p) @ nl"

definition diagnostics_reply :: "daemon \<Rightarrow> string" where
  "diagnostics_reply d = (let g = d_diagnostics d in
     ''governor/diagnostics'' @ nl @ ''last_decision: '' @ decision_name (last_decision g) @ nl @
     ''last_block_reason: '' @ reason_name (last_block_reason g) @ nl @
     ''last_retry_after_ms: '' @ show_nat (last_retry_after_ms g) @ nl @
     ''last_tick_now_ms: '' @ show_nat (unat (last_tick_now_ms g)) @ nl @
     ''last_tick_running: '' @ show_int (last_tick_running g) @ nl @
     ''last_tick_queued: '' @ show_int (last_tick_queued g) @ nl @
     ''jobs_started_this_tick: '' @ show_nat (d_started d) @ nl @
     ''jobs_scanned_this_tick: '' @ show_nat (d_scanned d) @ nl)"

section \<open>Requests\<close>

definition error_lines :: "PolicyValidationError list \<Rightarrow> string" where
  "error_lines errs = concat (map (\<lambda>e. err_field e @ '': '' @ err_message e @ nl) errs)"

text \<open>An exception of the conversions leaves the function, and through the handler the server.\<close>

definition daemon_update_policy :: "string \<Rightarrow> daemon \<Rightarrow> (string \<times> daemon) outcome" where
  "daemon_update_policy body d =
     (case read_fields (trim_by is_space) (getlines (CHR '','') body) (d_policy d) of
        Inl e \<Rightarrow> Inl e
      | Inr p \<Rightarrow> (let (q, res) = validate_and_update (d_policy d) p; d' = d\<lparr>d_policy := q\<rparr> in
          if \<not> upd_success res then Inr (''error'' @ nl @ ''validation_failed'' @ nl @ error_lines (upd_errors res), d')
          else Inr (''policy_updated'' @ nl @ policy_lines (effective_policy res), d')))"

definition update_command :: string where
  "update_command = ''governor/policy_update ''"

definition handle_request :: "string \<Rightarrow> daemon \<Rightarrow> (string \<times> daemon) outcome" where
  "handle_request request d =
     (if request = ''ping'' then Inr (''pong'' @ nl, d)
      else if request = ''status'' then Inr (status_reply d, d)
      else if take (length update_command) request = update_command
        then daemon_update_policy (drop (length update_command) request) d
      else if request = ''governor/policy'' then Inr (''governor/policy'' @ nl @ policy_lines (d_policy d), d)
      else if request = ''governor/diagnostics'' then Inr (diagnostics_reply d, d)
      else Inr (''error'' @ nl, d))"

section \<open>The monitor\<close>

text \<open>The loop that starts \<open>to_start\<close> jobs by counting them.\<close>

fun count_starts :: "nat \<Rightarrow> daemon \<Rightarrow> daemon" where
  "count_starts 0 d = d"
| "count_starts (Suc n) d = count_starts n (d\<lparr>queued_jobs := queued_jobs d - 1, running_jobs := running_jobs d + 1\<rparr>)"

definition to_start :: "daemon \<Rightarrow> int" where
  "to_start d = min 5 (min (queued_jobs d) (max_running_jobs (d_policy d) - running_jobs d))"

definition monitor_tick :: "'w job_os \<Rightarrow> 64 word \<Rightarrow> daemon \<times> 'w \<Rightarrow> daemon \<times> 'w" where
  "monitor_tick os now = (\<lambda>(d, w).
     (let res = decide (d_policy d) (cpu_percent (latest d)) (used_pct (latest d)) (running_jobs d) (queued_jobs d);
          d1 = d\<lparr>blocked_reason := reason res, d_retry_after_ms := retry_after_ms res\<rparr>;
          go = (decision res = START_NOW \<and> 0 < queued_jobs d1);
          d2 = (if go then count_starts (nat (to_start d1)) d1 else d1);
          started = (if go then as_uint64 (to_start d1) else 0);
          (r, w') = check_job_limits os 10 10 (d_runner d2, w)
      in (d2\<lparr>d_runner := r,
            d_diagnostics := \<lparr>last_decision = decision res, last_block_reason = reason res,
              last_retry_after_ms = retry_after_ms res, last_tick_now_ms = now,
              last_tick_running = running_jobs d2, last_tick_queued = queued_jobs d2\<rparr>,
            d_started := started, d_scanned := scanned_this_tick r\<rparr>, w')))"

section \<open>The threads\<close>

text \<open>One round of the sampling thread: the sample becomes the latest and is appended to the log.\<close>

definition sampling_round ::
  "64 word \<Rightarrow> string option \<Rightarrow> string option \<Rightarrow> history \<Rightarrow> sampler \<times> daemon \<times> files \<Rightarrow> (sampler \<times> daemon \<times> files) outcome" where
  "sampling_round now stat meminfo h = (\<lambda>(s, d, fs).
     (case sample now stat meminfo s of
        Inl e \<Rightarrow> Inl e
      | Inr (m, s') \<Rightarrow> Inr (s', d\<lparr>latest := m\<rparr>, append_metrics h m fs)))"

datatype daemon_op = Request string | Monitor "64 word" | Sampled metrics

fun daemon_step :: "'w job_os \<Rightarrow> daemon_op \<Rightarrow> daemon \<times> 'w \<Rightarrow> (string option \<times> daemon \<times> 'w) outcome" where
  "daemon_step os (Request q) (d, w) =
     (case handle_request q d of Inl e \<Rightarrow> Inl e | Inr (r, d') \<Rightarrow> Inr (Some r, d', w))"
| "daemon_step os (Monitor now) c = Inr (None, monitor_tick os now c)"
| "daemon_step os (Sampled m) (d, w) = Inr (None, d\<lparr>latest := m\<rparr>, w)"

fun daemon_run :: "'w job_os \<Rightarrow> daemon_op list \<Rightarrow> daemon \<times> 'w \<Rightarrow> (daemon \<times> 'w) outcome" where
  "daemon_run os [] c = Inr c"
| "daemon_run os (op # ops) c =
     (case daemon_step os op c of Inl e \<Rightarrow> Inl e | Inr (r, c') \<Rightarrow> daemon_run os ops c')"

section \<open>What the operations keep\<close>

definition idle :: "daemon \<Rightarrow> bool" where
  "idle d \<longleftrightarrow> running_jobs d = 0 \<and> queued_jobs d = 0 \<and> rejected_jobs d = 0 \<and> d_started d = 0 \<and>
     order (d_runner d) = [] \<and> policy_valid (d_policy d)"

lemma update_policy_frame:
  assumes "daemon_update_policy body d = Inr (r, d')"
  shows "\<exists>q. d' = d\<lparr>d_policy := q\<rparr> \<and> (q = d_policy d \<or> policy_valid q)"
proof -
  obtain p where p: "read_fields (trim_by is_space) (getlines (CHR '','') body) (d_policy d) = Inr p"
    using assms by (auto simp: daemon_update_policy_def split: sum.splits)
  then have "d' = d\<lparr>d_policy := fst (validate_and_update (d_policy d) p)\<rparr>"
    using assms by (simp add: daemon_update_policy_def Let_def split_beta split: if_splits)
  then show ?thesis unfolding validate_installs by (intro exI [of _ "if policy_valid p then p else d_policy d"]) simp
qed

lemma handle_request_frame:
  assumes "handle_request q d = Inr (r, d')"
  shows "\<exists>p. d' = d\<lparr>d_policy := p\<rparr> \<and> (p = d_policy d \<or> policy_valid p)"
proof (cases "d' = d")
  case True
  then show ?thesis by (intro exI [of _ "d_policy d"]) simp
next
  case False
  then have "daemon_update_policy (drop (length update_command) q) d = Inr (r, d')"
    using assms unfolding handle_request_def by (simp split: if_splits)
  then show ?thesis by (rule update_policy_frame)
qed

lemma check_no_jobs: "order r = [] \<Longrightarrow> check_job_limits os now n (r, w) = (r, w)"
  by (simp add: check_job_limits_def running_ids_def)

lemma monitor_idle:
  assumes "idle d"
  shows "\<exists>d'. monitor_tick os now (d, w) = (d', w) \<and> idle d'"
  using assms check_no_jobs [of "d_runner d" os 10 10 w]
  by (auto simp: monitor_tick_def idle_def Let_def)

lemma daemon_step_idle:
  assumes "daemon_step os op (d, w) = Inr (r, d', w')" and "idle d"
  shows "idle d' \<and> w' = w"
proof (cases op)
  case (Request q)
  then show ?thesis using assms by (auto simp: idle_def split: sum.splits dest!: handle_request_frame)
next
  case (Monitor now)
  then show ?thesis using assms monitor_idle [OF assms(2), of os now w] by auto
next
  case (Sampled m)
  then show ?thesis using assms by (auto simp: idle_def)
qed

lemma sampling_is_sampled:
  "sampling_round now stat meminfo h (s, d, fs) = Inr (s', d', fs') \<Longrightarrow>
   \<exists>m. daemon_step os (Sampled m) (d, w) = Inr (None, d', w) \<and> fs' = append_metrics h m fs"
  by (auto simp: sampling_round_def split: sum.splits)

lemma daemon_run_idle: "daemon_run os ops (d, w) = Inr (d', w') \<Longrightarrow> idle d \<Longrightarrow> idle d' \<and> w' = w"
proof (induction ops arbitrary: d)
  case Nil
  then show ?case by simp
next
  case (Cons op ops)
  obtain r d1 w1 where st: "daemon_step os op (d, w) = Inr (r, d1, w1)" "daemon_run os ops (d1, w1) = Inr (d', w')"
    using Cons.prems(1) by (auto split: sum.splits)
  then show ?case using daemon_step_idle [OF st(1) Cons.prems(2)] Cons.IH [of d1] by simp
qed

text \<open>
  C38: whatever is requested, sampled and ticked in whatever order, the policy in force is valid, and the
  daemon never has a job: nothing submits one to its runner and nothing changes its own counts, so
  no process is ever started or signalled and the decisions are taken with counts of 0.
\<close>

theorem daemon_never_runs_jobs:
  assumes "daemon_run os ops (new_daemon, w) = Inr (d, w')"
  shows "policy_valid (d_policy d) \<and> order (d_runner d) = [] \<and> running_jobs d = 0 \<and> queued_jobs d = 0 \<and>
    d_started d = 0 \<and> w' = w"
proof -
  have "idle new_daemon"
    by (simp add: idle_def new_daemon_def new_runner_def start_def default_policy_valid)
  from daemon_run_idle [OF assms this] show ?thesis by (simp add: idle_def)
qed

theorem daemon_never_runs_jobs_witness:
  "\<exists>d. daemon_run (undefined :: unit job_os) [Request ''ping'', Request ''job run make''] (new_daemon, ()) = Inr (d, ()) \<and>
     queued_jobs d = 0"
proof -
  let ?ops = "[Request ''ping'', Request ''job run make'']"
  have r: "daemon_run (undefined :: unit job_os) ?ops (new_daemon, ()) = Inr (new_daemon, ())"
    by (simp add: handle_request_def update_command_def)
  from daemon_never_runs_jobs [OF r] show ?thesis using r by simp
qed

section \<open>Updating the policy through a request\<close>

lemma stoi_no_digit:
  assumes "\<forall>c \<in> set s. \<not> is_digit c"
  shows "stoi s = Inl Invalid_Argument"
proof -
  have "takeWhile is_digit t = []" if "set t \<subseteq> set s" for t
    using assms that by (cases t) auto
  moreover have "set (dropWhile is_space s) \<subseteq> set s" by (auto dest: set_dropWhileD)
  ultimately have "snd (sto_split s) = []"
    using assms by (auto simp: sto_split_def Let_def split: list.splits)
  then show ?thesis by (simp add: stoi_def sto_signed_def split_beta)
qed

text \<open>A policy as one line of JSON.\<close>

definition policy_json :: "GovernorPolicy \<Rightarrow> string" where
  "policy_json p = ''{'' @ join (map (\<lambda>(k, v). policy_line k v) (policy_values p)) @ ''}''"

lemma policy_json_tokens:
  assumes "textual p"
  shows "list_all2 (\<lambda>t (k, v). token_field t = Inr (Some (k, CHR '' '' # v)))
    (getlines (CHR '','') (policy_json p)) (policy_values p)"
proof -
  let ?pads = "[(''{'', []), ([], []), ([], []), ([], []), ([], []), ([], ''}'')]"
  have "policy_json p = join (map2 line_with ?pads (policy_values p))"
    by (simp add: policy_json_def policy_values_def line_with_def)
  moreover have "pads_ok ?pads" by (simp add: pads_ok_def is_padding_def)
  moreover have "length ?pads = length (policy_values p)" by (simp add: policy_values_def)
  ultimately show ?thesis using padded_lines_fields [OF _ _ policy_values_plain [OF assms]] by metis
qed

text \<open>
  C18: a policy sent as JSON takes effect exactly as sent: if its values can be written and are in range
  it is in force after the request and is the policy of the reply, else the old one stays in force and
  the reply lists the errors.
\<close>

theorem policy_request_installs:
  assumes "textual p"
  shows "\<exists>errs. handle_request (update_command @ policy_json p) d =
    Inr (if policy_valid p then (''policy_updated'' @ nl @ policy_lines p, d\<lparr>d_policy := p\<rparr>)
         else (''error'' @ nl @ ''validation_failed'' @ nl @ error_lines errs, d))"
proof -
  let ?r = "validate_and_update (d_policy d) p"
  have read: "read_fields (trim_by is_space) (getlines (CHR '','') (policy_json p)) (d_policy d) = Inr p"
    by (rule read_policy_values [OF keeps_value_trim assms policy_json_tokens [OF assms]])
  have "handle_request (update_command @ policy_json p) d = daemon_update_policy (policy_json p) d"
    by (simp add: handle_request_def) (simp add: update_command_def)
  also have "\<dots> = Inr (if policy_valid p then (''policy_updated'' @ nl @ policy_lines p, d\<lparr>d_policy := p\<rparr>)
      else (''error'' @ nl @ ''validation_failed'' @ nl @ error_lines (upd_errors (snd ?r)), d))"
  proof (cases "policy_valid p")
    case True
    then have "upd_success (snd ?r)" "effective_policy (snd ?r) = p"
      using validate_success_iff [of "d_policy d" p] by (auto simp: validate_and_update_def Let_def split: if_splits)
    then show ?thesis using True
      by (simp add: daemon_update_policy_def read Let_def split_beta validate_installs)
  next
    case False
    then have "\<not> upd_success (snd ?r)" using validate_success_iff [of "d_policy d" p] by simp
    then show ?thesis using False
      by (simp add: daemon_update_policy_def read Let_def split_beta validate_installs)
  qed
  finally show ?thesis by blast
qed

theorem policy_request_installs_witness:
  "\<exists>r. handle_request (update_command @ policy_json (default_policy\<lparr>max_running_jobs := 20\<rparr>)) new_daemon =
     Inr (r, new_daemon\<lparr>d_policy := default_policy\<lparr>max_running_jobs := 20\<rparr>\<rparr>)"
proof -
  let ?p = "default_policy\<lparr>max_running_jobs := 20\<rparr>"
  have "textual ?p"
    unfolding textual_def default_policy_def by (simp add: exI [of _ "85 :: nat"] exI [of _ "90 :: nat"])
  moreover have "policy_valid ?p" using default_policy_valid by (simp add: policy_valid_def default_policy_def)
  ultimately show ?thesis using policy_request_installs [of ?p new_daemon] by auto
qed

text \<open>
  C39: one malformed number ends the daemon: the value of a count without a digit makes the conversion
  throw, nothing catches it on the way out of the handler, and the loop of the server is left.
\<close>

theorem malformed_update_ends_server:
  assumes "plain_value v" and "\<forall>c \<in> set v. \<not> is_digit c" and "CHR 0x0A \<notin> set v" and "CHR 0x00 \<notin> set v"
    and "k \<in> {''max_running_jobs'', ''max_queue_depth''}"
  shows "serve_all (Some handle_request)
    (Some (Some (update_command @ ''{'' @ policy_line k v @ ''}'' @ nl), is_open) # cs) d = Inl Invalid_Argument"
proof -
  define b where "b = ''{'' @ policy_line k v @ ''}''"
  have k: "plain_key k" "CHR 0x0A \<notin> set k" "CHR 0x00 \<notin> set k" using assms(5) by (auto simp: plain_key_def)
  have tok: "token_field b = Inr (Some (k, CHR '' '' # v))"
    unfolding b_def by (rule token_field_line [OF k(1) assms(1)]) (simp_all add: is_padding_def)
  have "CHR '','' \<notin> set b"
    using assms(1) k(1) by (simp add: plain_key_def plain_value_def policy_line_def b_def)
  then have lines: "getlines (CHR '','') b = [b]" by (rule getlines_last) (simp add: b_def)
  have "set (trim_by is_space (CHR '' '' # v)) \<subseteq> set (CHR '' '' # v)"
    unfolding trim_by_def by (auto dest!: set_dropWhileD split: if_splits)
  then have nd: "\<forall>c \<in> set (trim_by is_space (CHR '' '' # v)). \<not> is_digit c"
    using assms(2) by (auto simp: is_digit_def)
  have "stoi (trim_by is_space (CHR '' '' # v)) = Inl Invalid_Argument" by (rule stoi_no_digit [OF nd])
  then have "read_fields (trim_by is_space) [b] (d_policy d) = Inl Invalid_Argument"
    using assms(5) by (auto simp: tok set_field_def)
  then have "handle_request (update_command @ b) d = Inl Invalid_Argument"
    by (simp add: handle_request_def daemon_update_policy_def lines) (simp add: update_command_def)
  moreover have "CHR 0x0A \<notin> set (update_command @ b)" "CHR 0x00 \<notin> set (update_command @ b)"
    using k assms(3,4) by (simp_all add: update_command_def policy_line_def b_def)
  ultimately show ?thesis
    using deserialize_line [of "update_command @ b" "[]"] c_str_id [of "update_command @ b @ nl"]
    unfolding b_def by (simp add: ipc_client_def)
qed

theorem malformed_update_ends_server_witness:
  "serve_all (Some handle_request) [Some (Some (update_command @ ''{'' @ policy_line ''max_running_jobs'' ''x'' @ ''}'' @ nl), True)]
     new_daemon = Inl Invalid_Argument"
  using malformed_update_ends_server [of "''x''" "''max_running_jobs''" True "[]" new_daemon]
  by (simp add: plain_value_def is_padding_def is_space_def is_digit_def)

end
