(* ===== verification/Daemon_Main.thy ===== *)
theory Daemon_Main
  imports Daemon
begin

text \<open>
  The life of the daemon's process (\<open>src/daemon/main.cpp\<close>, \<open>Daemon::run\<close> in \<open>src/daemon/daemon.cpp\<close>):
  the start of its threads, its timer and its server, what happens to an exception on its way out,
  and the shutdown that \<open>run\<close> is meant to end with.
\<close>

section \<open>State and system\<close>

datatype thread_object = No_Object | Joinable | Joined_Object

record process =
  p_daemon :: daemon
  p_running :: bool
  g_running :: bool
  p_timer :: int
  p_sampler :: thread_object
  p_monitor :: thread_object
  p_server :: "server option"

text \<open>
  \<open>dm_mkdirs\<close> is the creation of the state directory with the text of the exception, if any;
  \<open>dm_timer_set\<close> tells whether the timer could be set.
\<close>

record 'w daemon_os =
  dm_jobs :: "'w job_os"
  dm_socket :: "'w status_os"
  dm_mkdirs :: "'w \<Rightarrow> string option \<times> 'w"
  dm_timer_create :: "'w \<Rightarrow> int \<times> 'w"
  dm_timer_set :: "int \<Rightarrow> 'w \<Rightarrow> bool \<times> 'w"
  dm_close :: "int \<Rightarrow> 'w \<Rightarrow> 'w"
  dm_what :: "fault \<Rightarrow> string"

section \<open>The start of \<open>run\<close>\<close>

text \<open>The result is the fault with the state in which it leaves \<open>run\<close>, or the serving process.\<close>

definition run_start :: "'w daemon_os \<Rightarrow> string \<Rightarrow> 'w \<Rightarrow> (fault \<times> process + process) \<times> 'w" where
  "run_start os path w =
     (let p = \<lparr>p_daemon = new_daemon, p_running = True, g_running = True, p_timer = - 1,
                p_sampler = Joinable, p_monitor = No_Object, p_server = None\<rparr>;
          (fd, w1) = dm_timer_create os w
      in if fd = - 1 then (Inl (Runtime_Error ''Failed to create timerfd'', p), w1)
         else let (ok, w2) = dm_timer_set os fd w1 in
           if \<not> ok then (Inl (Runtime_Error ''Failed to set timerfd'', p\<lparr>p_timer := fd\<rparr>), dm_close os fd w2)
           else let p1 = p\<lparr>p_timer := fd, p_monitor := Joinable\<rparr>; (sv, w3) = server_new (dm_socket os) path w2 in
             (case sv of
                Inl e \<Rightarrow> (Inl (e, p1), w3)
              | Inr s \<Rightarrow> (Inr (p1\<lparr>p_server := Some s\<rparr>), w3)))"

text \<open>
  An exception that leaves \<open>run\<close> destroys the \<open>Daemon\<close>; the destructor of a joinable thread terminates
  the process before the handler in \<open>main\<close> is reached.
\<close>

definition unwind :: "process \<Rightarrow> fault \<Rightarrow> fault" where
  "unwind p e = (if p_sampler p = Joinable \<or> p_monitor p = Joinable then Terminate else e)"

section \<open>Serving\<close>

text \<open>
  The serving loop accepts, the monitor thread returns from \<open>poll\<close> with the timer ready or not, the
  sampling thread has taken a sample, a signal arrives.
\<close>

datatype process_op = Accepted "(string option \<times> bool) option" | Polled bool "64 word" | Sampling metrics | Interrupt

definition signal_handler :: "process \<Rightarrow> process" where
  "signal_handler p = p\<lparr>g_running := False\<rparr>"

definition monitor_iteration :: "'w daemon_os \<Rightarrow> bool \<Rightarrow> 64 word \<Rightarrow> process \<times> 'w \<Rightarrow> process \<times> 'w" where
  "monitor_iteration os ready now = (\<lambda>(p, w).
     (if p_running p \<and> p_monitor p = Joinable \<and> ready
      then let (d, w') = monitor_tick (dm_jobs os) now (p_daemon p, w) in (p\<lparr>p_daemon := d\<rparr>, w')
      else (p, w)))"

fun process_step :: "'w daemon_os \<Rightarrow> process_op \<Rightarrow> process \<times> 'w \<Rightarrow> (process \<times> 'w) outcome" where
  "process_step os (Accepted None) c = Inr c"
| "process_step os (Accepted (Some client)) (p, w) =
     (case serve_one (Some handle_request) client (p_daemon p) of
        Inl e \<Rightarrow> Inl (if e = Killed then Killed else unwind p e)
      | Inr (r, d) \<Rightarrow> Inr (p\<lparr>p_daemon := d\<rparr>, w))"
| "process_step os (Polled ready now) c = Inr (monitor_iteration os ready now c)"
| "process_step os (Sampling m) (p, w) =
     Inr (if p_running p \<and> p_sampler p = Joinable then p\<lparr>p_daemon := (p_daemon p)\<lparr>latest := m\<rparr>\<rparr> else p, w)"
| "process_step os Interrupt (p, w) = Inr (signal_handler p, w)"

fun process_run :: "'w daemon_os \<Rightarrow> process_op list \<Rightarrow> process \<times> 'w \<Rightarrow> (process \<times> 'w) outcome" where
  "process_run os [] c = Inr c"
| "process_run os (op # ops) c =
     (case process_step os op c of Inl e \<Rightarrow> Inl e | Inr c' \<Rightarrow> process_run os ops c')"

section \<open>The shutdown\<close>

text \<open>
  What follows the serving loop in \<open>run\<close>. Joining waits until the thread has left its function, which
  it does at the test of \<open>running_\<close>; \<open>running_\<close> is cleared only before the sampling thread is joined.
\<close>

datatype shutdown_stmt = Server_Stop | Runner_Stop | Join_Monitor | Close_Timer | Stop_Sampling | Join_Sampler | Say_Stopped

definition shutdown_program :: "shutdown_stmt list" where
  "shutdown_program = [Server_Stop, Runner_Stop, Join_Monitor, Close_Timer, Stop_Sampling, Join_Sampler, Say_Stopped]"

fun shutdown_exec :: "'w daemon_os \<Rightarrow> shutdown_stmt \<Rightarrow> process \<times> 'w \<Rightarrow> (process \<times> 'w) option" where
  "shutdown_exec os Server_Stop (p, w) = (case p_server p of
      None \<Rightarrow> Some (p, w)
    | Some s \<Rightarrow> (let (s', w') = server_stop (dm_socket os) (s, w) in Some (p\<lparr>p_server := Some s'\<rparr>, w')))"
| "shutdown_exec os Runner_Stop (p, w) =
     Some (p\<lparr>p_daemon := (p_daemon p)\<lparr>d_runner := stop (d_runner (p_daemon p))\<rparr>\<rparr>, w)"
| "shutdown_exec os Join_Monitor (p, w) =
     (if p_monitor p = Joinable \<and> p_running p then None else Some (p\<lparr>p_monitor := Joined_Object\<rparr>, w))"
| "shutdown_exec os Close_Timer (p, w) =
     Some (if 0 \<le> p_timer p then (p\<lparr>p_timer := - 1\<rparr>, dm_close os (p_timer p) w) else (p, w))"
| "shutdown_exec os Stop_Sampling (p, w) = Some (p\<lparr>p_running := False\<rparr>, w)"
| "shutdown_exec os Join_Sampler (p, w) =
     (if p_sampler p = Joinable \<and> p_running p then None else Some (p\<lparr>p_sampler := Joined_Object\<rparr>, w))"
| "shutdown_exec os Say_Stopped c = Some c"

text \<open>\<open>None\<close> is waiting for ever: while \<open>main\<close> waits nothing else clears \<open>running_\<close>.\<close>

fun shutdown_run :: "'w daemon_os \<Rightarrow> shutdown_stmt list \<Rightarrow> process \<times> 'w \<Rightarrow> (process \<times> 'w) option" where
  "shutdown_run os [] c = Some c"
| "shutdown_run os (st # sts) c = Option.bind (shutdown_exec os st c) (shutdown_run os sts)"

section \<open>\<open>main\<close>\<close>

text \<open>\<open>Waiting\<close> is a process whose main thread waits for ever for another of its threads.\<close>

datatype 'w ending = Exited nat string | Aborted fault | Waiting | Still_Serving process 'w

definition socket_of_args :: "string list \<Rightarrow> string" where
  "socket_of_args argv = (case argv of _ # a # _ \<Rightarrow> a | _ \<Rightarrow> ''/tmp/heidi-kernel.sock'')"

text \<open>
  The handler of \<open>main\<close>: a \<open>std::runtime_error\<close> has its text, those of the other two exceptions are up to
  the library.
\<close>

fun caught :: "'w daemon_os \<Rightarrow> fault \<Rightarrow> 'w ending" where
  "caught os (Runtime_Error what) = Exited 1 (''Error: '' @ what @ nl)"
| "caught os Invalid_Argument = Exited 1 (''Error: '' @ dm_what os Invalid_Argument @ nl)"
| "caught os Out_Of_Range = Exited 1 (''Error: '' @ dm_what os Out_Of_Range @ nl)"
| "caught os e = Aborted e"

text \<open>
  \<open>early\<close> tells whether a signal arrived before the test of the serving loop, \<open>running_\<close> and \<open>g_running\<close>;
  the function called in the loop does not return, so the test is made once.
\<close>

definition daemon_main :: "'w daemon_os \<Rightarrow> string list \<Rightarrow> bool \<Rightarrow> process_op list \<Rightarrow> 'w \<Rightarrow> 'w ending" where
  "daemon_main os argv early ops w =
     (let (failed, w1) = dm_mkdirs os w in
      case failed of
        Some what \<Rightarrow> caught os (Runtime_Error what)
      | None \<Rightarrow> (let (started, w2) = run_start os (socket_of_args argv) w1 in
          (case started of
             Inl (e, p) \<Rightarrow> caught os (unwind p e)
           | Inr p0 \<Rightarrow> (let p = (if early then signal_handler p0 else p0) in
               if p_running p \<and> g_running p
               then (case process_run os ops (p, w2) of
                   Inl e \<Rightarrow> caught os e
                 | Inr (p', w') \<Rightarrow> Still_Serving p' w')
               else (case shutdown_run os shutdown_program (p, w2) of
                   None \<Rightarrow> Waiting
                 | Some _ \<Rightarrow> Exited 0 [])))))"

section \<open>The process never returns from serving\<close>

definition serving :: "process \<Rightarrow> bool" where
  "serving p \<longleftrightarrow> p_running p \<and> p_sampler p = Joinable \<and> p_monitor p = Joinable \<and> idle (p_daemon p)"

lemma serve_one_frame:
  assumes "serve_one (Some handle_request) client d = Inr (r, d')" and "idle d"
  shows "idle d'"
proof -
  have "d' = d \<or> (\<exists>q. handle_request q d = Inr (the r, d'))"
    using assms(1) by (cases client) (auto simp: ipc_client_def Let_def split: option.splits sum.splits if_splits)
  then show ?thesis using assms(2) by (auto simp: idle_def dest!: handle_request_frame)
qed

lemma monitor_iteration_serving:
  assumes "serving p"
  shows "\<exists>d. monitor_iteration os ready now (p, w) = (p\<lparr>p_daemon := d\<rparr>, w) \<and> idle d"
proof (cases ready)
  case True
  obtain d where "monitor_tick (dm_jobs os) now (p_daemon p, w) = (d, w)" "idle d"
    using monitor_idle [of "p_daemon p" "dm_jobs os" now w] assms by (auto simp: serving_def)
  then show ?thesis using assms True
    by (intro exI [of _ d]) (simp add: monitor_iteration_def serving_def)
next
  case False
  then show ?thesis using assms
    by (intro exI [of _ "p_daemon p"]) (simp add: monitor_iteration_def serving_def)
qed

lemma process_step_serving:
  assumes "process_step os op (p, w) = Inr (p', w')" and "serving p"
  shows "serving p' \<and> (g_running p' \<longleftrightarrow> g_running p \<and> op \<noteq> Interrupt)"
proof (cases op)
  case (Accepted client)
  then show ?thesis
    using assms serve_one_frame [of _ "p_daemon p"]
    by (cases client) (auto simp: serving_def split: sum.splits)
next
  case (Polled ready now)
  then show ?thesis
    using assms monitor_iteration_serving [OF assms(2), of os ready now w] by (auto simp: serving_def)
next
  case (Sampling m)
  then show ?thesis using assms by (auto simp: serving_def idle_def)
next
  case Interrupt
  then show ?thesis using assms by (auto simp: serving_def signal_handler_def)
qed

lemma process_step_fault:
  "process_step os op (p, w) = Inl e \<Longrightarrow> serving p \<Longrightarrow> e \<in> {Terminate, Killed}"
  by (cases "(os, op, (p, w))" rule: process_step.cases)
    (auto simp: serving_def unwind_def split: sum.splits)

lemma process_run_serving:
  "serving p \<Longrightarrow> case process_run os ops (p, w) of
      Inl e \<Rightarrow> e \<in> {Terminate, Killed}
    | Inr (p', w') \<Rightarrow> serving p' \<and> (g_running p' \<longleftrightarrow> g_running p \<and> Interrupt \<notin> set ops)"
proof (induction ops arbitrary: p w)
  case Nil
  then show ?case by simp
next
  case (Cons op ops)
  show ?case
  proof (cases "process_step os op (p, w)")
    case (Inl e)
    then show ?thesis using process_step_fault [OF Inl Cons.prems] by simp
  next
    case (Inr c)
    obtain p1 w1 where c: "c = (p1, w1)" by fastforce
    then show ?thesis
      using Cons.IH [of p1 w1] process_step_serving [of os op p w p1 w1] Cons.prems Inr
      by (auto split: sum.splits)
  qed
qed

lemma new_daemon_idle: "idle new_daemon"
  by (simp add: idle_def new_daemon_def new_runner_def start_def default_policy_valid)

lemma run_start_cases:
  assumes "run_start os path w = (r, w')"
  shows "case r of Inl (e, p) \<Rightarrow> p_sampler p = Joinable | Inr p \<Rightarrow> serving p \<and> g_running p"
  using assms new_daemon_idle
  by (auto simp: run_start_def Let_def serving_def split: if_splits prod.splits sum.splits)

text \<open>A run with signals is the run without them, but for the flag.\<close>

definition with_flag :: "bool \<Rightarrow> process \<times> 'w \<Rightarrow> process \<times> 'w" where
  "with_flag b = (\<lambda>(p, w). (p\<lparr>g_running := b\<rparr>, w))"

lemma process_step_flag:
  "op \<noteq> Interrupt \<Longrightarrow> process_step os op (with_flag b c) = map_sum id (with_flag b) (process_step os op c)"
  by (cases "(os, op, c)" rule: process_step.cases)
    (auto simp: with_flag_def monitor_iteration_def unwind_def split: sum.splits prod.splits option.splits)

lemma process_run_flag:
  "Interrupt \<notin> set ops \<Longrightarrow> process_run os ops (with_flag b c) = map_sum id (with_flag b) (process_run os ops c)"
proof (induction ops arbitrary: c)
  case (Cons op ops)
  have op: "op \<noteq> Interrupt" "Interrupt \<notin> set ops" using Cons.prems by auto
  show ?case
  proof (cases "process_step os op c")
    case (Inl e)
    then show ?thesis by (simp add: process_step_flag [OF op(1)])
  next
    case (Inr c')
    then show ?thesis using Cons.IH [OF op(2)] by (simp add: process_step_flag [OF op(1)])
  qed
qed simp

lemma with_flag_twice: "with_flag a (with_flag b c) = with_flag a c"
  by (simp add: with_flag_def split_beta)

theorem signals_ignored:
  "\<exists>b. process_run os ops c = map_sum id (with_flag b) (process_run os (filter (\<lambda>op. op \<noteq> Interrupt) ops) c)"
proof (induction ops arbitrary: c)
  case Nil
  have "with_flag (g_running (fst c)) c = c" by (cases c) (simp add: with_flag_def)
  then show ?case by (intro exI [of _ "g_running (fst c)"]) simp
next
  case (Cons op ops)
  show ?case
  proof (cases "op = Interrupt")
    case True
    have "process_step os Interrupt c = Inr (with_flag False c)"
      by (cases c) (simp add: with_flag_def signal_handler_def)
    moreover obtain b where "process_run os ops (with_flag False c) =
        map_sum id (with_flag b) (process_run os (filter (\<lambda>op. op \<noteq> Interrupt) ops) (with_flag False c))"
      using Cons.IH by blast
    moreover have "Interrupt \<notin> set (filter (\<lambda>op. op \<noteq> Interrupt) ops)" by simp
    ultimately show ?thesis
      using True process_run_flag [of "filter (\<lambda>op. op \<noteq> Interrupt) ops" os False c]
      by (intro exI [of _ b]) (simp add: sum.map_comp with_flag_twice id_def comp_def)
  next
    case False
    then show ?thesis using Cons.IH by (cases "process_step os op c") auto
  qed
qed

text \<open>The shutdown does not end: the monitor thread is joined before it is told to stop.\<close>

lemma shutdown_deadlocks: "p_monitor p = Joinable \<Longrightarrow> p_running p \<Longrightarrow> shutdown_run os shutdown_program (p, w) = None"
  by (cases "p_server p") (auto simp: shutdown_program_def split: prod.split)

text \<open>The first request that fails, and what its failure makes of the process.\<close>

definition request_failed :: "'w daemon_os \<Rightarrow> process_op list \<Rightarrow> process \<times> 'w \<Rightarrow> fault \<Rightarrow> bool" where
  "request_failed os ops c e \<longleftrightarrow> (\<exists>pre client post p w f. ops = pre @ Accepted (Some client) # post \<and>
     process_run os pre c = Inr (p, w) \<and> serve_one (Some handle_request) client (p_daemon p) = Inl f \<and>
     e = (if f = Killed then Killed else Terminate))"

lemma request_failed_Nil [simp]: "\<not> request_failed os [] c e"
  by (simp add: request_failed_def)

lemma request_failed_later:
  assumes "process_step os op c = Inr c'"
  shows "request_failed os (op # ops) c e \<longleftrightarrow> request_failed os ops c' e"
proof
  assume "request_failed os (op # ops) c e"
  then obtain pre client post p w f where *: "op # ops = pre @ Accepted (Some client) # post"
    "process_run os pre c = Inr (p, w)" "serve_one (Some handle_request) client (p_daemon p) = Inl f"
    "e = (if f = Killed then Killed else Terminate)" unfolding request_failed_def by blast
  show "request_failed os ops c' e"
  proof (cases pre)
    case Nil
    then show ?thesis using * assms by simp
  next
    case (Cons o' pre')
    then have "ops = pre' @ Accepted (Some client) # post" "process_run os pre' c' = Inr (p, w)" using * assms by simp_all
    then show ?thesis using *(3,4) unfolding request_failed_def by blast
  qed
next
  assume "request_failed os ops c' e"
  then obtain pre client post p w f where "ops = pre @ Accepted (Some client) # post"
    "process_run os pre c' = Inr (p, w)" "serve_one (Some handle_request) client (p_daemon p) = Inl f"
    "e = (if f = Killed then Killed else Terminate)" unfolding request_failed_def by blast
  then show "request_failed os (op # ops) c e"
    unfolding request_failed_def using assms by (intro exI [of _ "op # pre"]) auto
qed

lemma request_failed_now:
  assumes "process_step os op (p, w) = Inl e" and "serving p"
  shows "request_failed os (op # ops) (p, w) e"
proof -
  obtain client f where "op = Accepted (Some client)" "serve_one (Some handle_request) client (p_daemon p) = Inl f"
    "e = (if f = Killed then Killed else Terminate)"
    using assms by (cases "(os, op, (p, w))" rule: process_step.cases)
      (auto simp: serving_def unwind_def split: sum.splits)
  then show ?thesis unfolding request_failed_def by (intro exI [of _ "[]"]) auto
qed

lemma process_run_failed:
  "serving p \<Longrightarrow> case process_run os ops (p, w) of
      Inl e \<Rightarrow> request_failed os ops (p, w) e
    | Inr c' \<Rightarrow> \<forall>e. \<not> request_failed os ops (p, w) e"
proof (induction ops arbitrary: p w)
  case (Cons op ops)
  show ?case
  proof (cases "process_step os op (p, w)")
    case (Inl e)
    then show ?thesis using request_failed_now [OF Inl Cons.prems] by simp
  next
    case (Inr c)
    obtain p1 w1 where c: "c = (p1, w1)" by fastforce
    have "serving p1" using process_step_serving [of os op p w p1 w1] Cons.prems Inr c by simp
    then show ?thesis
      using Cons.IH [of p1 w1] Inr c request_failed_later [OF Inr, of ops] by (simp split: sum.splits)
  qed
qed simp

text \<open>
  C17: \<open>main\<close> of the daemon never returns from serving. It exits with an error exactly when the state
  directory cannot be created. A later failure of the timer or the socket, and the first request that fails
  while serving, terminate the process in the destructor of its running threads (or by \<open>SIGPIPE\<close>)
  instead of reaching the handler of \<open>main\<close>. A signal before the serving loop makes it wait for ever
  for the monitor thread. A signal while serving has no effect: without a failing request the
  daemon still serves, in the state of the same run without the signals but for a flag that
  is not tested again.
\<close>

theorem daemon_main_never_returns:
  "case dm_mkdirs os w of
     (Some what, w1) \<Rightarrow> daemon_main os argv early ops w = Exited 1 (''Error: '' @ what @ nl)
   | (None, w1) \<Rightarrow> (case run_start os (socket_of_args argv) w1 of
       (Inl failure, w2) \<Rightarrow> daemon_main os argv early ops w = Aborted Terminate
     | (Inr p, w2) \<Rightarrow>
         if early then daemon_main os argv early ops w = Waiting
         else let quiet = filter (\<lambda>op. op \<noteq> Interrupt) ops in (case process_run os quiet (p, w2) of
             Inl e \<Rightarrow> request_failed os quiet (p, w2) e \<and> daemon_main os argv early ops w = Aborted e
           | Inr (p', w') \<Rightarrow> (\<forall>e. \<not> request_failed os quiet (p, w2) e) \<and> serving p' \<and>
               (\<exists>b. daemon_main os argv early ops w = Still_Serving (p'\<lparr>g_running := b\<rparr>) w')))"
proof (cases "dm_mkdirs os w")
  case (Pair failed w1)
  show ?thesis
  proof (cases failed)
    case (Some what)
    then show ?thesis using Pair by (simp add: daemon_main_def)
  next
    case None
    obtain r w2 where r: "run_start os (socket_of_args argv) w1 = (r, w2)" by fastforce
    show ?thesis
    proof (cases r)
      case (Inl ep)
      then have "p_sampler (snd ep) = Joinable" using run_start_cases [OF r] by (simp add: split_beta)
      then show ?thesis using Pair None r Inl by (cases ep) (simp add: daemon_main_def unwind_def)
    next
      case (Inr p)
      then have p: "serving p" "g_running p" "p_running p" using run_start_cases [OF r] by (simp_all add: serving_def)
      let ?quiet = "filter (\<lambda>op. op \<noteq> Interrupt) ops"
      have "daemon_main os argv early ops w = Waiting" if early
        using that p(1) shutdown_deadlocks [of "signal_handler p" os w2] Pair None r Inr
        by (simp add: daemon_main_def signal_handler_def serving_def)
      moreover have main: "daemon_main os argv early ops w = (case process_run os ops (p, w2) of
          Inl e \<Rightarrow> caught os e | Inr (p', w') \<Rightarrow> Still_Serving p' w')" if "\<not> early"
        using that p Pair None r Inr by (simp add: daemon_main_def)
      moreover obtain b where "process_run os ops (p, w2) = map_sum id (with_flag b) (process_run os ?quiet (p, w2))"
        using signals_ignored by blast
      ultimately show ?thesis
        using process_run_failed [OF p(1), where os = os and ops = ?quiet and w = w2]
          process_run_serving [OF p(1), where os = os and ops = ?quiet and w = w2] Pair None r Inr
        by (auto simp: with_flag_def Let_def split: sum.splits prod.splits)
    qed
  qed
qed

end
