(* ===== verification/Kernelctl.thy ===== *)
theory Kernelctl
  imports Prelude
begin

text \<open>
  The control tool (\<open>src/tools/kernelctl.cpp\<close>): which request its arguments make, to which socket, and
  what it prints. The system calls are the record \<open>ctl_os\<close> over the state of the system.
\<close>

section \<open>Arguments\<close>

datatype ctl = Print_Exit string | Send string string

definition default_socket :: string where "default_socket = ''/tmp/heidi-kernel.sock''"

definition usage_text :: string where
  "usage_text = ''Usage: heidi-kernelctl <command> [--socket <path>]'' @ [CHR 0x0A] @
     ''Commands: ping, status, metrics latest|tail <n>, job run|status|tail|cancel'' @ [CHR 0x0A]"

text \<open>The path after the last \<open>--socket\<close> that has one, from the third argument on.\<close>

fun socket_arg :: "string \<Rightarrow> string list \<Rightarrow> string" where
  "socket_arg path (a # b # r) = (if a = ''--socket'' then socket_arg b r else socket_arg path (b # r))"
| "socket_arg path _ = path"

definition line :: "string \<Rightarrow> string" where
  "line s = s @ [CHR 0x0A]"

definition metrics_request :: "string list \<Rightarrow> string + string" where
  "metrics_request argv =
     (if 2 < length argv \<and> argv ! 2 = ''latest'' then Inr (line ''metrics latest'')
      else if 3 < length argv \<and> argv ! 2 = ''tail'' then Inr (line (''metrics tail '' @ argv ! 3))
      else Inl (line ''Usage: heidi-kernelctl metrics latest|tail <n> [--socket <path>]''))"

definition job_request :: "string list \<Rightarrow> string + string" where
  "job_request argv =
     (if length argv < 3 then
        Inl (line ''Usage: heidi-kernelctl job run <command>|status [id]|tail <id>|cancel <id> [--socket <path>]'')
      else if argv ! 2 = ''run'' then
        (if length argv < 4 then Inl (line ''Usage: heidi-kernelctl job run <command> [--socket <path>]'')
         else Inr (line (''job run '' @ argv ! 3 @
           concat (map (\<lambda>a. '' '' @ a) (takeWhile (\<lambda>a. a \<noteq> ''--socket'') (drop 4 argv))))))
      else if argv ! 2 = ''status'' then
        (if 4 \<le> length argv \<and> argv ! 3 \<noteq> ''--socket'' then Inr (line (''job status '' @ argv ! 3))
         else Inr (line ''job status''))
      else if argv ! 2 = ''tail'' then
        (if length argv < 4 then Inl (line ''Usage: heidi-kernelctl job tail <id> [--socket <path>]'')
         else Inr (line (''job tail '' @ argv ! 3)))
      else if argv ! 2 = ''cancel'' then
        (if length argv < 4 then Inl (line ''Usage: heidi-kernelctl job cancel <id> [--socket <path>]'')
         else Inr (line (''job cancel '' @ argv ! 3)))
      else Inl (line (''Unknown job subcommand: '' @ argv ! 2)))"

definition ctl_request :: "string list \<Rightarrow> string + string" where
  "ctl_request argv =
     (if argv ! 1 = ''ping'' then Inr (line ''ping'')
      else if argv ! 1 = ''status'' then Inr (line ''status'')
      else if argv ! 1 = ''metrics'' then metrics_request argv
      else if argv ! 1 = ''job'' then job_request argv
      else Inl (line (''Unknown command: '' @ argv ! 1) @
        line ''Available: ping, status, metrics latest|tail <n>, job run|status|tail|cancel''))"

definition ctl_action :: "string list \<Rightarrow> ctl" where
  "ctl_action argv =
     (if length argv < 2 then Print_Exit usage_text
      else (case ctl_request argv of
              Inl t \<Rightarrow> Print_Exit t
            | Inr q \<Rightarrow> Send (socket_arg default_socket (drop 2 argv)) q))"

section \<open>The exchange\<close>

record 'w ctl_os =
  co_socket :: "'w \<Rightarrow> int \<times> 'w"
  co_connect :: "int \<Rightarrow> string \<Rightarrow> 'w \<Rightarrow> int \<times> 'w"
  co_write :: "int \<Rightarrow> string \<Rightarrow> 'w \<Rightarrow> 'w"
  co_read :: "int \<Rightarrow> nat \<Rightarrow> 'w \<Rightarrow> string option \<times> 'w"
  co_close :: "int \<Rightarrow> 'w \<Rightarrow> 'w"

definition send_request :: "'w ctl_os \<Rightarrow> string \<Rightarrow> string \<Rightarrow> 'w \<Rightarrow> string outcome \<times> 'w" where
  "send_request os path request w =
     (let (fd, w1) = co_socket os w in
      if fd < 0 then (Inl (Runtime_Error ''Failed to create socket''), w1)
      else let (c, w2) = co_connect os fd (take 107 (c_str path)) w1 in
        if c < 0 then (Inl (Runtime_Error ''Failed to connect to daemon''), co_close os fd w2)
        else let (data, w3) = co_read os fd 1023 (co_write os fd request w2); w4 = co_close os fd w3 in
          (case data of
             None \<Rightarrow> (Inl (Runtime_Error ''Failed to read response''), w4)
           | Some t \<Rightarrow> if t = [] then (Inl (Runtime_Error ''Failed to read response''), w4) else (Inr (c_str t), w4)))"

text \<open>The exit code, what is printed, and what is printed on the error stream.\<close>

definition ctl_main :: "'w ctl_os \<Rightarrow> string list \<Rightarrow> 'w \<Rightarrow> (int \<times> string \<times> string) \<times> 'w" where
  "ctl_main os argv w =
     (case ctl_action argv of
        Print_Exit t \<Rightarrow> ((1, t, []), w)
      | Send path q \<Rightarrow>
          (case send_request os path q w of
             (Inr r, w') \<Rightarrow> ((0, r, []), w')
           | (Inl (Runtime_Error m), w') \<Rightarrow> ((1, [], line (''Error: '' @ m)), w')
           | (Inl e, w') \<Rightarrow> ((1, [], line ''Error: ''), w')))"

section \<open>Facts\<close>

lemma ctl_request_shape:
  assumes "ctl_request argv = Inr q"
  shows "q = line ''ping'' \<or> q = line ''status'' \<or> take 8 q = ''metrics '' \<or> take 4 q = ''job ''"
proof -
  have "metrics_request argv = Inr q \<Longrightarrow> take 8 q = ''metrics ''"
    unfolding metrics_request_def line_def by (auto split: if_splits)
  moreover have "job_request argv = Inr q \<Longrightarrow> take 4 q = ''job ''"
    unfolding job_request_def line_def by (auto split: if_splits)
  ultimately show ?thesis using assms unfolding ctl_request_def by (simp split: if_splits)
qed

lemma socket_arg_none: "''--socket'' \<notin> set xs \<Longrightarrow> socket_arg d xs = d"
  by (induction d xs rule: socket_arg.induct) auto

text \<open>The path after the option is used, wherever the option stands.\<close>

lemma socket_arg_found:
  assumes "''--socket'' \<notin> set pre" and "''--socket'' \<notin> set post"
  shows "socket_arg d (pre @ ''--socket'' # p # post) = p"
  using assms(1)
proof (induction pre)
  case Nil
  then show ?case using socket_arg_none [OF assms(2)] by simp
next
  case (Cons x pre)
  obtain b r where br: "pre @ ''--socket'' # p # post = b # r" by (cases pre) auto
  have "x \<noteq> ''--socket''" using Cons.prems by auto
  then have "socket_arg d (x # b # r) = socket_arg d (b # r)" by simp
  then show ?case using Cons br by (simp del: socket_arg.simps)
qed

end
