(* ===== verification/Kernel_Config.thy ===== *)
theory Kernel_Config
  imports Prelude
begin

text \<open>
  Results, configuration and log lines (\<open>include/heidi-kernel/result.h\<close>, \<open>src/config.cpp\<close>,
  \<open>src/logger.cpp\<close>) and what the kernel's \<open>main\<close> makes of its arguments (\<open>src/kernel/main.cpp\<close>; \<open>app/main.cpp\<close>
  is the same up to the order of the shutdown).
\<close>

section \<open>Results\<close>

datatype ErrorCode = Success | InvalidArgument | ConfigNotFound | ConfigParseError | ShutdownRequested
  | EventLoopError | Unknown

datatype 'a Result = Ok_Result 'a | Error_Result ErrorCode string

fun result_ok :: "'a Result \<Rightarrow> bool" where
  "result_ok (Ok_Result _) = True"
| "result_ok (Error_Result _ _) = False"

section \<open>Configuration\<close>

record Config =
  config_path :: string
  log_level :: string
  socket_path :: string
  show_version :: bool
  show_help :: bool

definition no_config :: Config where
  "no_config = \<lparr>config_path = [], log_level = [], socket_path = [], show_version = False, show_help = False\<rparr>"

text \<open>The loop over \<open>argv[1]\<close>, \<open>argv[2]\<close> and so on: an option that takes a value takes the next one.\<close>

fun parse_args :: "string list \<Rightarrow> Config \<Rightarrow> Config Result" where
  "parse_args [] c = Ok_Result c"
| "parse_args (a # as) c =
     (if a = ''--help'' \<or> a = ''-h'' then parse_args as (c\<lparr>show_help := True\<rparr>)
      else if a = ''--version'' \<or> a = ''-v'' then parse_args as (c\<lparr>show_version := True\<rparr>)
      else (case as of
          v # r \<Rightarrow>
            if a = ''--log-level'' then parse_args r (c\<lparr>log_level := v\<rparr>)
            else if a = ''--config'' then parse_args r (c\<lparr>config_path := v\<rparr>)
            else if a = ''--socket-path'' then parse_args r (c\<lparr>socket_path := v\<rparr>)
            else if take 1 a \<noteq> ''-'' then Error_Result InvalidArgument ''Unknown argument''
            else parse_args as c
        | [] \<Rightarrow> if take 1 a \<noteq> ''-'' then Error_Result InvalidArgument ''Unknown argument'' else parse_args as c))"

definition config_parse :: "string option \<Rightarrow> string list \<Rightarrow> Config Result" where
  "config_parse env args =
     parse_args args (no_config\<lparr>log_level := ''info'', socket_path := (case env of None \<Rightarrow> [] | Some s \<Rightarrow> s)\<rparr>)"

definition parser_version :: string where
  "parser_version = ''0.1.0''"

section \<open>The start of the kernel\<close>

datatype startup = Help | Version | Serve string

definition kernel_startup :: "string option \<Rightarrow> string option \<Rightarrow> string list \<Rightarrow> startup" where
  "kernel_startup env xdg args =
     (let config = (case config_parse env args of Ok_Result c \<Rightarrow> c | Error_Result _ _ \<Rightarrow> no_config) in
      if show_help config then Help
      else if show_version config then Version
      else Serve (if socket_path config \<noteq> [] then socket_path config
                  else (case xdg of
                          Some x \<Rightarrow> x @ ''/heidi-kernel.sock''
                        | None \<Rightarrow> ''/run/heidi-kernel/heidi-kernel.sock'')))"

section \<open>Log lines\<close>

datatype LogLevel = Debug | Info | Warn | Error_Level

fun level_rank :: "LogLevel \<Rightarrow> nat" where
  "level_rank Debug = 0"
| "level_rank Info = 1"
| "level_rank Warn = 2"
| "level_rank Error_Level = 3"

instantiation LogLevel :: linorder
begin

definition less_eq_LogLevel :: "LogLevel \<Rightarrow> LogLevel \<Rightarrow> bool" where
  "less_eq_LogLevel a b \<longleftrightarrow> level_rank a \<le> level_rank b"

definition less_LogLevel :: "LogLevel \<Rightarrow> LogLevel \<Rightarrow> bool" where
  "less_LogLevel a b \<longleftrightarrow> level_rank a < level_rank b"

instance
proof
  fix a b :: LogLevel
  show "a \<le> b \<Longrightarrow> b \<le> a \<Longrightarrow> a = b"
    by (cases a; cases b) (simp_all add: less_eq_LogLevel_def)
qed (auto simp: less_eq_LogLevel_def less_LogLevel_def)

end

fun level_to_string :: "LogLevel \<Rightarrow> string" where
  "level_to_string Debug = ''DEBUG''"
| "level_to_string Info = ''INFO''"
| "level_to_string Warn = ''WARN''"
| "level_to_string Error_Level = ''ERROR''"

text \<open>
  The stream gets one line or nothing; \<open>date\<close> is the local time as \<open>put_time\<close> prints it, \<open>ms\<close> the
  milliseconds of the second.
\<close>

definition pad3 :: "nat \<Rightarrow> string" where
  "pad3 n = replicate (3 - length (show_nat n)) (CHR ''0'') @ show_nat n"

definition log_line :: "LogLevel \<Rightarrow> string \<Rightarrow> nat \<Rightarrow> LogLevel \<Rightarrow> string \<Rightarrow> string" where
  "log_line min_level date ms level msg =
     (if level < min_level then []
      else date @ ''.'' @ pad3 ms @ '' ['' @ level_to_string level @ ''] '' @ msg @ [CHR 0x0A])"

text \<open>The logger of a stream, here the text written to it so far.\<close>

record logger =
  lg_out :: string
  min_level :: LogLevel

definition new_logger :: "string \<Rightarrow> LogLevel \<Rightarrow> logger" where
  "new_logger out l = \<lparr>lg_out = out, min_level = l\<rparr>"

definition set_level :: "LogLevel \<Rightarrow> logger \<Rightarrow> logger" where
  "set_level l lg = lg\<lparr>min_level := l\<rparr>"

definition log_at :: "LogLevel \<Rightarrow> string \<times> nat \<Rightarrow> string \<Rightarrow> logger \<Rightarrow> logger" where
  "log_at level = (\<lambda>(date, ms) msg lg. lg\<lparr>lg_out := lg_out lg @ log_line (min_level lg) date ms level msg\<rparr>)"

definition log_debug :: "string \<times> nat \<Rightarrow> string \<Rightarrow> logger \<Rightarrow> logger" where
  "log_debug = log_at Debug"

definition log_info :: "string \<times> nat \<Rightarrow> string \<Rightarrow> logger \<Rightarrow> logger" where
  "log_info = log_at Info"

definition log_warn :: "string \<times> nat \<Rightarrow> string \<Rightarrow> logger \<Rightarrow> logger" where
  "log_warn = log_at Warn"

definition log_error :: "string \<times> nat \<Rightarrow> string \<Rightarrow> logger \<Rightarrow> logger" where
  "log_error = log_at Error_Level"

datatype log_op = Level_Set LogLevel | Logged LogLevel "string \<times> nat" string

fun logger_step :: "log_op \<Rightarrow> logger \<Rightarrow> logger" where
  "logger_step (Level_Set l) = set_level l"
| "logger_step (Logged Debug t msg) = log_debug t msg"
| "logger_step (Logged Info t msg) = log_info t msg"
| "logger_step (Logged Warn t msg) = log_warn t msg"
| "logger_step (Logged Error_Level t msg) = log_error t msg"

section \<open>Facts\<close>

text \<open>The level in force after some operations, and the messages that get through.\<close>

definition level_after :: "log_op list \<Rightarrow> LogLevel \<Rightarrow> LogLevel" where
  "level_after ops l = last (l # [l'. Level_Set l' \<leftarrow> ops])"

lemma logger_step_logged: "logger_step (Logged l t msg) = log_at l t msg"
  by (cases l) (simp_all add: log_debug_def log_info_def log_warn_def log_error_def)

text \<open>What operation \<open>k\<close> writes.\<close>

definition written :: "LogLevel \<Rightarrow> log_op list \<Rightarrow> nat \<Rightarrow> string" where
  "written l ops k = (case ops ! k of
       Logged lev (date, ms) msg \<Rightarrow>
         if level_after (take k ops) l \<le> lev
         then date @ ''.'' @ pad3 ms @ '' ['' @ level_to_string lev @ ''] '' @ msg @ [CHR 0x0A] else []
     | Level_Set _ \<Rightarrow> [])"

lemma level_after_snoc [simp]:
  "level_after (ops @ [Level_Set l']) l = l'"
  "level_after (ops @ [Logged lev t msg]) l = level_after ops l"
  by (simp_all add: level_after_def)

lemma written_snoc: "map (written l (ops @ [op])) [0..<length ops] = map (written l ops) [0..<length ops]"
proof (rule map_cong [OF refl])
  fix k assume "k \<in> set [0..<length ops]"
  then have "take k (ops @ [op]) = take k ops" "(ops @ [op]) ! k = ops ! k" by (simp_all add: nth_append)
  then show "written l (ops @ [op]) k = written l ops k" by (simp only: written_def)
qed

text \<open>
  a logger writes one line for each message whose level is at least the last one that was set, in order,
  and nothing else.
\<close>

theorem logger_output:
  "lg_out (fold logger_step ops (new_logger out l)) = out @ concat (map (written l ops) [0..<length ops]) \<and>
   min_level (fold logger_step ops (new_logger out l)) = level_after ops l"
proof (induction ops rule: rev_induct)
  case Nil
  then show ?case by (simp add: new_logger_def level_after_def)
next
  case (snoc op ops)
  show ?case
  proof (cases op)
    case (Level_Set l')
    then show ?thesis using snoc by (simp add: set_level_def written_snoc) (simp add: written_def)
  next
    case (Logged lev t msg)
    then show ?thesis using snoc logger_step_logged [of lev t msg]
      by (cases t) (simp add: log_at_def log_line_def written_snoc, auto simp: written_def)
  qed
qed

text \<open>A configuration as arguments.\<close>

definition config_args :: "Config \<Rightarrow> string list" where
  "config_args c = (if show_help c then [''--help''] else []) @ (if show_version c then [''-v''] else []) @
     [''--log-level'', log_level c, ''--config'', config_path c, ''--socket-path'', socket_path c]"

lemma parse_option_args:
  "parse_args [''--log-level'', l, ''--config'', p, ''--socket-path'', s] c =
     Ok_Result (c\<lparr>log_level := l, config_path := p, socket_path := s\<rparr>)"
  by simp

lemma parse_flags:
  "parse_args (''--help'' # r) c = parse_args r (c\<lparr>show_help := True\<rparr>)"
  "parse_args (''-v'' # r) c = parse_args r (c\<lparr>show_version := True\<rparr>)"
  by simp_all

text \<open>
  a configuration written as arguments is parsed back to itself, whatever its texts are and
  whatever the environment holds.
\<close>

theorem config_roundtrip: "config_parse env (config_args c) = Ok_Result c"
proof -
  have "parse_args (config_args \<lparr>config_path = p, log_level = l, socket_path = s, show_version = v, show_help = h\<rparr>)
      \<lparr>config_path = a, log_level = b, socket_path = e, show_version = False, show_help = False\<rparr> =
    Ok_Result \<lparr>config_path = p, log_level = l, socket_path = s, show_version = v, show_help = h\<rparr>"
    for p l s v h a b e
    by (cases v; cases h; simp add: config_args_def parse_flags parse_option_args del: parse_args.simps)
  then show ?thesis
    unfolding config_parse_def no_config_def by (cases c, simp only: Config.update_convs)
qed

lemma parse_args_positional:
  assumes "list_all (\<lambda>a. a \<notin> {''--log-level'', ''--config'', ''--socket-path''}) pre" and "take 1 a \<noteq> ''-''"
  shows "parse_args (pre @ a # post) c = Error_Result InvalidArgument ''Unknown argument''"
  using assms(1)
proof (induction pre arbitrary: c)
  case Nil
  have "a \<notin> {''--help'', ''-h'', ''--version'', ''-v'', ''--log-level'', ''--config'', ''--socket-path''}"
    using assms(2) by auto
  then show ?case using assms(2) by (simp split: list.split)
next
  case (Cons x pre)
  define rest where "rest = pre @ a # post"
  have IH: "parse_args rest c = Error_Result InvalidArgument ''Unknown argument''" for c
    unfolding rest_def by (rule Cons.IH) (use Cons.prems in simp)
  have "x \<notin> {''--log-level'', ''--config'', ''--socket-path''}" using Cons.prems by simp
  then have "parse_args (x # rest) c = Error_Result InvalidArgument ''Unknown argument''"
    unfolding parse_args.simps(2) [of x rest] IH by (cases rest) simp_all
  then show ?case by (simp add: rest_def)
qed

text \<open>
  a wrong argument is not reported: with an argument that is no option anywhere after the flags,
  the kernel starts on the default socket; the request for help, the version or another socket
  before it and the environment are all dropped.
\<close>

theorem wrong_argument_starts_kernel:
  assumes "list_all (\<lambda>a. a \<notin> {''--log-level'', ''--config'', ''--socket-path''}) pre" and "take 1 a \<noteq> ''-''"
  shows "kernel_startup env xdg (pre @ a # post) =
    Serve (case xdg of Some x \<Rightarrow> x @ ''/heidi-kernel.sock'' | None \<Rightarrow> ''/run/heidi-kernel/heidi-kernel.sock'')"
  using parse_args_positional [OF assms]
  by (simp add: kernel_startup_def config_parse_def no_config_def)

theorem wrong_argument_starts_kernel_witness:
  "kernel_startup (Some ''/my.sock'') None [''--help'', ''start''] = Serve ''/run/heidi-kernel/heidi-kernel.sock''"
  using wrong_argument_starts_kernel [of "[''--help'']" "''start''" "Some ''/my.sock''" None "[]"] by simp

end
