(* ===== verification/Event_Loop.thy ===== *)
theory Event_Loop
  imports Prelude
begin

text \<open>
  \<open>EventLoop\<close> (\<open>src/event_loop.cpp\<close>, \<open>include/heidi-kernel/event_loop.h\<close>): the two atomic flags, the
  worker thread and the ticks it delivers. Times are nanoseconds of the steady clock, the interval
  and the argument of the callback milliseconds. The client and the worker interleave at the
  operations on the flags.
\<close>

section \<open>The loop\<close>

text \<open>
  The worker is absent, about to test the stop flag with the time of the last tick, or has left its
  function; in the last two cases the thread object is joinable until it is joined.
\<close>

datatype worker = No_Thread | Looping int | Left_Loop

record event_loop =
  tick_interval :: int
  el_running :: bool
  el_stop :: bool
  has_callback :: bool
  el_worker :: worker
  ticks :: "(int \<times> int) list"

text \<open>\<open>ticks\<close> are the calls of the callback so far: the time and the argument.\<close>

definition new_loop :: "int \<Rightarrow> event_loop" where
  "new_loop i = \<lparr>tick_interval = i, el_running = False, el_stop = False, has_callback = False,
     el_worker = No_Thread, ticks = []\<rparr>"

definition set_tick_callback :: "event_loop \<Rightarrow> event_loop" where
  "set_tick_callback l = l\<lparr>has_callback := True\<rparr>"

text \<open>Assigning a new thread to a joinable one terminates the process.\<close>

definition el_run :: "int \<Rightarrow> event_loop \<Rightarrow> event_loop outcome" where
  "el_run now l =
     (if el_running l then Inr l
      else if el_worker l \<noteq> No_Thread then Inl Terminate
      else Inr (l\<lparr>el_running := True, el_worker := Looping now\<rparr>))"

definition request_stop :: "event_loop \<Rightarrow> event_loop" where
  "request_stop l = l\<lparr>el_stop := True\<rparr>"

text \<open>One iteration of \<open>tick_loop\<close>: the test of the flag, then at most one tick.\<close>

definition elapsed_ms :: "int \<Rightarrow> int \<Rightarrow> int" where
  "elapsed_ms now last_tick = (now - last_tick) div 1000000"

definition loop_iteration :: "int \<Rightarrow> event_loop \<Rightarrow> event_loop" where
  "loop_iteration now l = (case el_worker l of
      Looping last_tick \<Rightarrow>
        if el_stop l then l\<lparr>el_running := False, el_worker := Left_Loop\<rparr>
        else let elapsed = elapsed_ms now last_tick in
          if tick_interval l \<le> elapsed
          then l\<lparr>ticks := (if has_callback l then ticks l @ [(now, elapsed)] else ticks l), el_worker := Looping now\<rparr>
          else l
    | _ \<Rightarrow> l)"

text \<open>
  The destructor asks for the stop and waits for the worker, which is gone afterwards; the flag says
  whether the wait is over.
\<close>

definition el_destroy :: "event_loop \<Rightarrow> bool \<times> event_loop" where
  "el_destroy l =
     (let l' = request_stop l in (case el_worker l' of
        Looping t \<Rightarrow> (False, l')
      | _ \<Rightarrow> (True, l'\<lparr>el_worker := No_Thread\<rparr>)))"

section \<open>Runs\<close>

datatype loop_op = Set_Callback | Run | Request_Stop | Iteration

text \<open>Each step with the time at which it happens.\<close>

inductive loop_step :: "event_loop \<Rightarrow> int \<times> loop_op \<Rightarrow> event_loop \<Rightarrow> bool" where
  sets: "loop_step l (now, Set_Callback) (set_tick_callback l)"
| runs: "el_run now l = Inr l' \<Longrightarrow> loop_step l (now, Run) l'"
| stops: "loop_step l (now, Request_Stop) (request_stop l)"
| iterates: "loop_step l (now, Iteration) (loop_iteration now l)"

inductive_cases loop_stepE: "loop_step l (now, op) l'"

inductive loop_run :: "event_loop \<Rightarrow> (int \<times> loop_op) list \<Rightarrow> event_loop \<Rightarrow> bool" where
  no_ops: "loop_run l [] l"
| step: "loop_run l ops l1 \<Longrightarrow> loop_step l1 (now, op) l2 \<Longrightarrow> loop_run l (ops @ [(now, op)]) l2"

section \<open>Ticks\<close>

text \<open>Each argument is at least the interval and at most the time since the tick before.\<close>

definition spaced :: "int \<Rightarrow> (int \<times> int) list \<Rightarrow> bool" where
  "spaced i ts \<longleftrightarrow> (\<forall>(now, e) \<in> set ts. i \<le> e) \<and>
     successively (\<lambda>(t, d) (now, e). e * 1000000 \<le> now - t) ts"

lemma spaced_snoc:
  "spaced i (ts @ [(now, e)]) \<longleftrightarrow>
     spaced i ts \<and> i \<le> e \<and> (ts \<noteq> [] \<longrightarrow> e * 1000000 \<le> now - fst (last ts))"
  by (auto simp: spaced_def successively_append_iff split: prod.splits)

definition loop_inv :: "int \<Rightarrow> event_loop \<Rightarrow> bool" where
  "loop_inv i l \<longleftrightarrow> tick_interval l = i \<and> (el_running l \<longleftrightarrow> (\<exists>t. el_worker l = Looping t)) \<and>
     (el_worker l = Left_Loop \<longrightarrow> el_stop l) \<and> (el_worker l = No_Thread \<longrightarrow> ticks l = []) \<and> spaced i (ticks l) \<and>
     (\<forall>t. el_worker l = Looping t \<and> ticks l \<noteq> [] \<longrightarrow> fst (last (ticks l)) \<le> t)"

lemma elapsed_bound: "elapsed_ms now t * 1000000 \<le> now - t"
proof -
  have "elapsed_ms now t * 1000000 = now - t - (now - t) mod 1000000"
    by (simp add: elapsed_ms_def minus_mod_eq_div_mult)
  then show ?thesis by simp
qed

lemma iteration_inv:
  assumes "loop_inv i l" and "0 \<le> i"
  shows "loop_inv i (loop_iteration now l)"
proof (cases "el_worker l")
  case (Looping t)
  have tick: "spaced i (ticks l @ [(now, elapsed_ms now t)])" and later: "ticks l \<noteq> [] \<longrightarrow> fst (last (ticks l)) \<le> now"
    if "i \<le> elapsed_ms now t"
  proof -
    have "0 \<le> elapsed_ms now t * 1000000" using that assms(2) by simp
    with elapsed_bound [of now t] have "t \<le> now" by linarith
    moreover have "ticks l \<noteq> [] \<longrightarrow> fst (last (ticks l)) \<le> t" using assms(1) Looping by (simp add: loop_inv_def)
    ultimately show "spaced i (ticks l @ [(now, elapsed_ms now t)])" "ticks l \<noteq> [] \<longrightarrow> fst (last (ticks l)) \<le> now"
      using that elapsed_bound [of now t] assms(1) by (auto simp: spaced_snoc loop_inv_def)
  qed
  then show ?thesis
    using assms(1) Looping by (auto simp: loop_inv_def loop_iteration_def Let_def)
qed (use assms in \<open>auto simp: loop_iteration_def\<close>)

lemma loop_step_inv: "loop_step l (now, op) l' \<Longrightarrow> loop_inv i l \<Longrightarrow> 0 \<le> i \<Longrightarrow> loop_inv i l'"
proof (erule loop_stepE)
  assume "loop_inv i l" "0 \<le> i" "l' = loop_iteration now l"
  then show "loop_inv i l'" using iteration_inv by simp
qed (auto simp: loop_inv_def set_tick_callback_def request_stop_def el_run_def split: if_splits)

lemma loop_run_inv: "loop_run l ops l' \<Longrightarrow> loop_inv i l \<Longrightarrow> 0 \<le> i \<Longrightarrow> loop_inv i l'"
  by (induction rule: loop_run.induct) (auto intro: loop_step_inv)

lemma new_loop_inv: "loop_inv i (new_loop i)"
  by (simp add: loop_inv_def new_loop_def spaced_def)

text \<open>
  in every interleaving with the client each tick comes with an elapsed time of at least the
  interval, and no more than the time that really passed since the tick before, so ticks are never
  closer than the interval.
\<close>

theorem ticks_spaced:
  assumes "loop_run (new_loop i) ops l" and "0 \<le> i"
  shows "\<forall>k < length (ticks l). i \<le> snd (ticks l ! k) \<and>
    (0 < k \<longrightarrow> snd (ticks l ! k) * 1000000 \<le> fst (ticks l ! k) - fst (ticks l ! (k - 1)))"
proof (intro allI impI)
  fix k assume k: "k < length (ticks l)"
  have sp: "spaced i (ticks l)"
    using loop_run_inv [OF assms(1) new_loop_inv assms(2)] by (simp add: loop_inv_def)
  have in_ticks: "ticks l ! k \<in> set (ticks l)" using k by simp
  then have "i \<le> snd (ticks l ! k)" using sp by (fastforce simp: spaced_def)
  moreover have "snd (ticks l ! k) * 1000000 \<le> fst (ticks l ! k) - fst (ticks l ! (k - 1))" if "0 < k"
  proof -
    have "Suc (k - 1) < length (ticks l)" using k that by simp
    then have "(\<lambda>(t, d) (now, e). e * 1000000 \<le> now - t) (ticks l ! (k - 1)) (ticks l ! Suc (k - 1))"
      using sp unfolding spaced_def successively_conv_nth by metis
    then show ?thesis using that by (simp add: split_beta)
  qed
  ultimately show "i \<le> snd (ticks l ! k) \<and>
    (0 < k \<longrightarrow> snd (ticks l ! k) * 1000000 \<le> fst (ticks l ! k) - fst (ticks l ! (k - 1)))" by blast
qed

definition demo_ops :: "(int \<times> loop_op) list" where
  "demo_ops = [(0, Set_Callback), (0, Run), (150000000, Iteration)]"

lemma demo_run:
  "loop_run (new_loop 100) demo_ops
     (loop_iteration 150000000 ((set_tick_callback (new_loop 100))\<lparr>el_running := True, el_worker := Looping 0\<rparr>))"
proof -
  let ?l1 = "set_tick_callback (new_loop 100)"
  have r: "loop_run (new_loop 100) [(0, Set_Callback)] ?l1"
    using step [OF no_ops sets, of "new_loop 100" 0] by simp
  have "el_run 0 ?l1 = Inr (?l1\<lparr>el_running := True, el_worker := Looping 0\<rparr>)"
    by (simp add: el_run_def set_tick_callback_def new_loop_def)
  from step [OF step [OF r runs [OF this]] iterates, of 150000000] show ?thesis
    by (simp add: demo_ops_def)
qed

theorem ticks_spaced_witness:
  "\<exists>l. loop_run (new_loop 100) demo_ops l \<and> length (ticks l) = 1 \<and> 100 \<le> snd (ticks l ! 0)"
proof -
  let ?l = "loop_iteration 150000000 ((set_tick_callback (new_loop 100))\<lparr>el_running := True, el_worker := Looping 0\<rparr>)"
  have "length (ticks ?l) = 1" by code_simp
  then show ?thesis using ticks_spaced [OF demo_run] demo_run by (intro exI [of _ ?l]) simp
qed

section \<open>Stopping\<close>

lemma stopped_step:
  "loop_step l (now, op) l' \<Longrightarrow> el_stop l \<Longrightarrow> el_stop l' \<and> ticks l' = ticks l"
  by (erule loop_stepE)
    (auto simp: set_tick_callback_def request_stop_def el_run_def loop_iteration_def split: if_splits worker.splits)

lemma stopped_run: "loop_run l ops l' \<Longrightarrow> el_stop l \<Longrightarrow> el_stop l' \<and> ticks l' = ticks l"
  by (induction rule: loop_run.induct) (auto dest: stopped_step)

text \<open>
  a stop is final: once requested no tick is delivered whatever follows, the next iteration of the
  worker ends it, and starting the loop again after that terminates the process, since the finished
  thread was never joined.
\<close>

theorem stop_is_final:
  assumes "loop_run (new_loop i) ops l" and "0 \<le> i" and "el_stop l" and "loop_run l ops' l'"
  shows "ticks l' = ticks l \<and> \<not> el_running (loop_iteration now l') \<and>
    (el_worker l' \<noteq> No_Thread \<longrightarrow> el_run now (loop_iteration now l') = Inl Terminate)"
proof -
  have st: "el_stop l'" "ticks l' = ticks l" using stopped_run [OF assms(4,3)] by simp_all
  have "loop_inv i l'" using loop_run_inv [OF assms(4) loop_run_inv [OF assms(1) new_loop_inv assms(2)] assms(2)] .
  then show ?thesis
    using st by (cases "el_worker l'") (auto simp: loop_iteration_def loop_inv_def el_run_def)
qed

theorem stop_is_final_witness:
  "\<exists>l. loop_run (new_loop 100) (demo_ops @ [(1, Request_Stop)]) l \<and>
     el_run 2 (loop_iteration 2 l) = Inl Terminate"
proof -
  let ?l = "loop_iteration 150000000 ((set_tick_callback (new_loop 100))\<lparr>el_running := True, el_worker := Looping 0\<rparr>)"
  have r: "loop_run (new_loop 100) (demo_ops @ [(1, Request_Stop)]) (request_stop ?l)"
    by (rule step [OF demo_run stops])
  have w: "el_stop (request_stop ?l)" "el_worker (request_stop ?l) \<noteq> No_Thread" by code_simp+
  from stop_is_final [OF r _ w(1) no_ops, of 2] w(2) show ?thesis using r by auto
qed

end
