(* ===== verification/Kernel_Main.thy ===== *)
theory Kernel_Main
  imports Kernel_Config Event_Loop Status_Socket
begin

text \<open>
  The two entry points of the kernel (\<open>src/kernel/main.cpp\<close>, \<open>app/main.cpp\<close>): the main thread is a list
  of statements still to be executed, next to it run the thread of the status socket and the worker
  of the event loop, and signals arrive at any time. One step is one statement, one iteration of a
  thread, or one signal; every system call is taken to return.
\<close>

section \<open>Statements and state\<close>

datatype stmt = Say string | Install_Handlers | Bind_Socket | Spawn_Server | Set_Tick_Callback | Run_Loop
  | Await_Signal | Stop_Loop | Stop_Socket | Await_Loop | Join_Server | End_Loop | End_Socket

text \<open>What follows the creation of the socket's directory, with the destructors at the end.\<close>

definition kernel_program :: "string \<Rightarrow> stmt list" where
  "kernel_program path =
     [Say ''heidi-kernel starting'', Say (''socket: '' @ path), Install_Handlers, Bind_Socket,
      Say ''status socket bound'', Spawn_Server, Set_Tick_Callback, Run_Loop, Say ''event loop running'',
      Await_Signal, Say ''shutdown requested'', Stop_Loop, Await_Loop, Stop_Socket, Join_Server,
      Say ''heidi-kernel stopped'', End_Loop, End_Socket]"

definition app_program :: "string \<Rightarrow> stmt list" where
  "app_program path =
     [Say ''heidi-kernel starting'', Say (''socket: '' @ path), Install_Handlers, Bind_Socket,
      Say ''status socket bound, starting accept loop'', Spawn_Server, Set_Tick_Callback, Run_Loop,
      Say ''event loop running'', Await_Signal, Say ''shutdown requested'', Stop_Socket, Stop_Loop, Await_Loop,
      Join_Server, Say ''heidi-kernel stopped'', End_Loop, End_Socket]"

text \<open>The thread object of the status socket: its function has not returned, has, or was joined.\<close>

datatype server_thread = Not_Spawned | Serving | Served | Joined

record 'w kernel =
  k_todo :: "stmt list"
  k_handlers :: bool
  k_signal :: int
  k_socket :: status_socket
  k_server :: server_thread
  k_loop :: event_loop
  k_tick_count :: int
  k_out :: string
  k_world :: 'w

text \<open>The steady clock, and the local date and the milliseconds that the logger prints.\<close>

type_synonym moment = "int \<times> string \<times> nat"

fun say :: "moment \<Rightarrow> LogLevel \<Rightarrow> string \<Rightarrow> 'w kernel \<Rightarrow> 'w kernel" where
  "say (now, date, ms) level msg k = k\<lparr>k_out := k_out k @ log_line Info date ms level msg\<rparr>"

definition launch :: "stmt list \<Rightarrow> string \<Rightarrow> int \<Rightarrow> int \<Rightarrow> 'w \<Rightarrow> 'w kernel" where
  "launch prog path pid now w = \<lparr>k_todo = prog, k_handlers = False, k_signal = 0,
     k_socket = new_socket path pid now, k_server = Not_Spawned, k_loop = new_loop 100, k_tick_count = 0,
     k_out = [], k_world = w\<rparr>"

section \<open>Steps\<close>

text \<open>
  A statement leaves the state as it is while it has to wait. Joining and destroying take the thread
  object away; a destructor of a joinable \<open>std::thread\<close> does not occur, since both are joined.
\<close>

definition next_stmt :: "'w kernel \<Rightarrow> 'w kernel" where
  "next_stmt k = k\<lparr>k_todo := tl (k_todo k)\<rparr>"

definition on_socket :: "(status_socket \<times> 'w \<Rightarrow> status_socket \<times> 'w) \<Rightarrow> 'w kernel \<Rightarrow> 'w kernel" where
  "on_socket f k = (let (s, w) = f (k_socket k, k_world k) in k\<lparr>k_socket := s, k_world := w\<rparr>)"

fun exec_stmt :: "'w status_os \<Rightarrow> moment \<Rightarrow> stmt \<Rightarrow> 'w kernel \<Rightarrow> 'w kernel outcome" where
  "exec_stmt os m (Say msg) k = Inr (next_stmt (say m Info msg k))"
| "exec_stmt os m Install_Handlers k = Inr (next_stmt (k\<lparr>k_handlers := True\<rparr>))"
| "exec_stmt os m Bind_Socket k = Inr (next_stmt (on_socket (ss_bind os) k))"
| "exec_stmt os m Spawn_Server k = Inr (next_stmt (k\<lparr>k_server := Serving\<rparr>))"
| "exec_stmt os m Set_Tick_Callback k = Inr (next_stmt (k\<lparr>k_loop := set_tick_callback (k_loop k)\<rparr>))"
| "exec_stmt os m Run_Loop k =
     (case el_run (fst m) (k_loop k) of Inl e \<Rightarrow> Inl e | Inr l \<Rightarrow> Inr (next_stmt (k\<lparr>k_loop := l\<rparr>)))"
| "exec_stmt os m Await_Signal k = Inr (if k_signal k = 0 then k else next_stmt k)"
| "exec_stmt os m Stop_Loop k = Inr (next_stmt (k\<lparr>k_loop := request_stop (k_loop k)\<rparr>))"
| "exec_stmt os m Stop_Socket k = Inr (next_stmt (k\<lparr>k_socket := set_stop (k_socket k)\<rparr>))"
| "exec_stmt os m Await_Loop k = Inr (if el_running (k_loop k) then k else next_stmt k)"
| "exec_stmt os m Join_Server k = Inr (if k_server k = Serving then k else next_stmt (k\<lparr>k_server := Joined\<rparr>))"
| "exec_stmt os m End_Loop k =
     Inr (case el_destroy (k_loop k) of (joined, l) \<Rightarrow>
       if joined then next_stmt (k\<lparr>k_loop := l\<rparr>) else k\<lparr>k_loop := l\<rparr>)"
| "exec_stmt os m End_Socket k = Inr (next_stmt (on_socket (ss_close os) k))"

definition main_step :: "'w status_os \<Rightarrow> moment \<Rightarrow> 'w kernel \<Rightarrow> 'w kernel outcome" where
  "main_step os m k = (case k_todo k of [] \<Rightarrow> Inr k | st # rest \<Rightarrow> exec_stmt os m st k)"

text \<open>One iteration of the status thread; the test of the socket is made before the loop.\<close>

definition server_step :: "'w status_os \<Rightarrow> 'w kernel \<Rightarrow> 'w kernel outcome" where
  "server_step os k =
     (if k_server k \<noteq> Serving then Inr k
      else if server_fd (k_socket k) < 0 \<or> stop_requested (k_socket k) then Inr (k\<lparr>k_server := Served\<rparr>)
      else (case serve_iter os (k_socket k, k_world k) of
          Inl e \<Rightarrow> Inl e
        | Inr (go_on, s, w) \<Rightarrow>
            Inr (k\<lparr>k_socket := s, k_world := w, k_server := (if go_on then Serving else Served)\<rparr>)))"

text \<open>The callback of the event loop; the counter is an \<open>int\<close>.\<close>

definition on_tick :: "moment \<Rightarrow> 'w kernel \<Rightarrow> 'w kernel outcome" where
  "on_tick m k =
     (if k_tick_count k = 2 ^ 31 - 1 then Inl Undefined_Behaviour
      else let k' = k\<lparr>k_tick_count := k_tick_count k + 1\<rparr> in
        Inr (if k_tick_count k' mod 100 = 0 then say m Debug (''tick '' @ show_int (k_tick_count k')) k' else k'))"

definition worker_step :: "moment \<Rightarrow> 'w kernel \<Rightarrow> 'w kernel outcome" where
  "worker_step m k =
     (let l = loop_iteration (fst m) (k_loop k); k' = k\<lparr>k_loop := l\<rparr> in
      if length (ticks (k_loop k)) < length (ticks l) then on_tick m k' else Inr k')"

text \<open>Before the handlers are installed a signal ends the process.\<close>

datatype actor = Main_Thread | Server_Thread | Worker_Thread | Sigint | Sigterm

fun kernel_step :: "'w status_os \<Rightarrow> moment \<times> actor \<Rightarrow> 'w kernel \<Rightarrow> 'w kernel outcome" where
  "kernel_step os (m, Main_Thread) k = main_step os m k"
| "kernel_step os (m, Server_Thread) k = server_step os k"
| "kernel_step os (m, Worker_Thread) k = worker_step m k"
| "kernel_step os (m, Sigint) k = (if k_handlers k then Inr (k\<lparr>k_signal := 2\<rparr>) else Inl Killed)"
| "kernel_step os (m, Sigterm) k = (if k_handlers k then Inr (k\<lparr>k_signal := 15\<rparr>) else Inl Killed)"

fun kernel_run :: "'w status_os \<Rightarrow> (moment \<times> actor) list \<Rightarrow> 'w kernel \<Rightarrow> 'w kernel outcome" where
  "kernel_run os [] k = Inr k"
| "kernel_run os (a # as) k = (case kernel_step os a k of Inl e \<Rightarrow> Inl e | Inr k' \<Rightarrow> kernel_run os as k')"

section \<open>The start\<close>

text \<open>
  The directory of the socket as \<open>parent_path\<close> computes it; slashes alone name the root. What the file
  system answers is a parameter: \<open>fs_exists\<close> has no value when it throws, which nothing catches, and
  \<open>fs_create\<close> returns the text of the exception, if any.
\<close>

definition parent_path :: "string \<Rightarrow> string" where
  "parent_path p =
     (if CHR ''/'' \<notin> set p then []
      else let d = rev (dropWhile (\<lambda>c. c = CHR ''/'') (dropWhile (\<lambda>c. c \<noteq> CHR ''/'') (rev p)))
        in if d = [] then ''/'' else d)"

record 'w dir_os =
  fs_exists :: "string \<Rightarrow> 'w \<Rightarrow> bool option"
  fs_create :: "string \<Rightarrow> 'w \<Rightarrow> string option \<times> 'w"
  fs_chmod :: "string \<Rightarrow> 'w \<Rightarrow> 'w"

definition ensure_directory :: "'w dir_os \<Rightarrow> string \<Rightarrow> 'w \<Rightarrow> (string \<times> 'w) outcome" where
  "ensure_directory d path w =
     (let dir = parent_path path in
      if dir = [] then Inr ([], w)
      else (case fs_exists d dir w of
          None \<Rightarrow> Inl Terminate
        | Some True \<Rightarrow> Inr ([], w)
        | Some False \<Rightarrow> (case fs_create d dir w of
              (Some what, w1) \<Rightarrow> Inr (''Failed to create socket directory: '' @ what @ [CHR 0x0A], w1)
            | (None, w1) \<Rightarrow> Inr ([], fs_chmod d dir w1))))"

definition help_text :: string where
  "help_text =
     ''Usage: heidi-kernel [options]'' @ [CHR 0x0A] @ ''Options:'' @ [CHR 0x0A] @
     ''  -h, --help            Show this help message'' @ [CHR 0x0A] @
     ''  -v, --version         Show version information'' @ [CHR 0x0A] @
     ''  --log-level <level>   Set log level (debug, info, warn, error)'' @ [CHR 0x0A] @
     ''  --socket-path <path>  Set Unix domain socket path'' @ [CHR 0x0A]"

text \<open>What is printed before the return, or what is written to the error output and the state reached.\<close>

datatype 'w launched = Printed string | Started string "'w kernel"

definition kernel_main ::
  "'w dir_os \<Rightarrow> string option \<Rightarrow> string option \<Rightarrow> string list \<Rightarrow> int \<Rightarrow> int \<Rightarrow> 'w \<Rightarrow> 'w launched outcome" where
  "kernel_main d env xdg args pid now w = (case kernel_startup env xdg args of
      Help \<Rightarrow> Inr (Printed help_text)
    | Version \<Rightarrow> Inr (Printed (''heidi-kernel version '' @ parser_version @ [CHR 0x0A]))
    | Serve path \<Rightarrow> (case ensure_directory d path w of
          Inl e \<Rightarrow> Inl e
        | Inr (err, w') \<Rightarrow> Inr (Started err (launch (kernel_program path) path pid now w'))))"

definition app_main ::
  "'w dir_os \<Rightarrow> string option \<Rightarrow> string option \<Rightarrow> string list \<Rightarrow> int \<Rightarrow> int \<Rightarrow> 'w \<Rightarrow> 'w launched outcome" where
  "app_main d env xdg args pid now w = (case kernel_startup env xdg args of
      Help \<Rightarrow> Inr (Printed help_text)
    | Version \<Rightarrow> Inr (Printed (''heidi-kernel version '' @ parser_version @ [CHR 0x0A]))
    | Serve path \<Rightarrow> (case ensure_directory d path w of
          Inl e \<Rightarrow> Inl e
        | Inr (err, w') \<Rightarrow> Inr (Started err (launch (app_program path) path pid now w'))))"

section \<open>The order of the statements\<close>

text \<open>What has to be done before a statement, and programs that keep to it.\<close>

fun needs :: "stmt \<Rightarrow> stmt set" where
  "needs Await_Signal = {Install_Handlers}"
| "needs Stop_Loop = {Run_Loop}"
| "needs Await_Loop = {Run_Loop, Stop_Loop}"
| "needs Join_Server = {Spawn_Server, Stop_Socket}"
| "needs End_Loop = {Run_Loop, Await_Loop, Stop_Loop}"
| "needs End_Socket = {Bind_Socket, Join_Server, Stop_Socket}"
| "needs _ = {}"

fun in_order :: "stmt list \<Rightarrow> bool" where
  "in_order [] \<longleftrightarrow> True"
| "in_order (st # rest) \<longleftrightarrow>
     in_order rest \<and> ((\<exists>m. st = Say m) \<or> st \<notin> set rest) \<and> needs st \<inter> set rest = {}"

text \<open>Nothing that was executed still waits for something to be done before.\<close>

definition settled :: "stmt set \<Rightarrow> bool" where
  "settled todo \<longleftrightarrow> (\<forall>st. st \<notin> todo \<longrightarrow> needs st \<inter> todo = {})"

lemma settled_rest: "in_order (st # rest) \<Longrightarrow> settled (set (st # rest)) \<Longrightarrow> settled (set rest)"
proof (unfold settled_def, intro allI impI)
  fix x assume "in_order (st # rest)" "\<forall>x. x \<notin> set (st # rest) \<longrightarrow> needs x \<inter> set (st # rest) = {}" "x \<notin> set rest"
  then show "needs x \<inter> set rest = {}" by (cases "x = st") auto
qed

lemma settled_facts:
  assumes "settled todo"
  shows "Run_Loop \<in> todo \<Longrightarrow> Await_Loop \<in> todo \<and> Stop_Loop \<in> todo \<and> End_Loop \<in> todo"
    and "Spawn_Server \<in> todo \<Longrightarrow> Join_Server \<in> todo" and "Bind_Socket \<in> todo \<Longrightarrow> End_Socket \<in> todo"
    and "Install_Handlers \<in> todo \<Longrightarrow> Await_Signal \<in> todo"
  using assms unfolding settled_def by fastforce+

lemma programs_in_order: "in_order (kernel_program path)" "in_order (app_program path)"
  by (simp_all add: kernel_program_def app_program_def)

section \<open>The invariant\<close>

definition worker_ok :: "event_loop \<Rightarrow> bool" where
  "worker_ok l \<longleftrightarrow> (el_running l \<longleftrightarrow> (\<exists>t. el_worker l = Looping t))"

definition loop_ok :: "stmt set \<Rightarrow> event_loop \<Rightarrow> bool" where
  "loop_ok todo l \<longleftrightarrow> (Run_Loop \<in> todo \<longrightarrow> el_worker l = No_Thread) \<and>
     worker_ok l \<and> (Stop_Loop \<notin> todo \<longrightarrow> el_stop l) \<and>
     (Await_Loop \<notin> todo \<longrightarrow> \<not> el_running l) \<and> (End_Loop \<notin> todo \<longrightarrow> el_worker l = No_Thread)"

definition server_ok :: "stmt set \<Rightarrow> status_socket \<Rightarrow> server_thread \<Rightarrow> bool" where
  "server_ok todo s t \<longleftrightarrow> (Spawn_Server \<in> todo \<longrightarrow> t = Not_Spawned) \<and>
     (Stop_Socket \<notin> todo \<longrightarrow> stop_requested s) \<and> (Join_Server \<notin> todo \<longrightarrow> t = Joined) \<and>
     (End_Socket \<notin> todo \<longrightarrow> server_fd s < 0)"

definition signal_ok :: "stmt set \<Rightarrow> bool \<Rightarrow> int \<Rightarrow> bool" where
  "signal_ok todo h n \<longleftrightarrow> (Await_Signal \<notin> todo \<longrightarrow> n \<noteq> 0) \<and> (n \<noteq> 0 \<longrightarrow> h)"

definition thread_inv :: "'w kernel \<Rightarrow> bool" where
  "thread_inv k \<longleftrightarrow> loop_ok (set (k_todo k)) (k_loop k) \<and>
     server_ok (set (k_todo k)) (k_socket k) (k_server k) \<and>
     signal_ok (set (k_todo k)) (k_handlers k) (k_signal k)"

definition kernel_inv :: "'w kernel \<Rightarrow> bool" where
  "kernel_inv k \<longleftrightarrow> in_order (k_todo k) \<and> settled (set (k_todo k)) \<and> thread_inv k"

lemma say_simps [simp]:
  "k_todo (say m lv msg k) = k_todo k" "k_handlers (say m lv msg k) = k_handlers k"
  "k_signal (say m lv msg k) = k_signal k" "k_socket (say m lv msg k) = k_socket k"
  "k_server (say m lv msg k) = k_server k" "k_loop (say m lv msg k) = k_loop k"
  "k_tick_count (say m lv msg k) = k_tick_count k" "k_world (say m lv msg k) = k_world k"
  by (cases m; simp)+

lemma on_socket_simps [simp]:
  "k_todo (on_socket f k) = k_todo k" "k_handlers (on_socket f k) = k_handlers k"
  "k_signal (on_socket f k) = k_signal k" "k_socket (on_socket f k) = fst (f (k_socket k, k_world k))"
  "k_server (on_socket f k) = k_server k" "k_loop (on_socket f k) = k_loop k" "k_out (on_socket f k) = k_out k"
  by (simp_all add: on_socket_def split_beta)

lemma ss_close_closes:
  "server_fd (fst (ss_close os c)) < 0" "stop_requested (fst (ss_close os c))"
  by (simp_all add: ss_close_def split_beta Let_def)

lemma ss_bind_stop: "stop_requested (fst (ss_bind os c)) = stop_requested (fst c)"
  by (simp add: ss_bind_def split_beta Let_def)

lemma el_destroy_cases:
  "\<not> el_running l \<Longrightarrow> worker_ok l \<Longrightarrow> el_destroy l = (True, (request_stop l)\<lparr>el_worker := No_Thread\<rparr>)"
  by (cases "el_worker l") (auto simp: el_destroy_def request_stop_def worker_ok_def)

lemma worker_ok_simps [simp]:
  "worker_ok (l\<lparr>el_stop := b\<rparr>) = worker_ok l" "worker_ok (l\<lparr>has_callback := b\<rparr>) = worker_ok l"
  "worker_ok (l\<lparr>el_running := True, el_worker := Looping t\<rparr>)"
  by (simp_all add: worker_ok_def)

lemmas loop_defs = el_run_def request_stop_def set_tick_callback_def set_stop_def next_stmt_def

lemma exec_stmt_todo:
  assumes "exec_stmt os m st k = Inr k'" and "k_todo k = st # rest"
  shows "k_todo k' = rest \<or> k_todo k' = st # rest"
  using assms by (cases st) (auto simp: next_stmt_def split: if_splits sum.splits prod.splits)

lemma loop_ok_rest:
  "loop_ok (insert st todo) l \<Longrightarrow> st \<notin> {Run_Loop, Stop_Loop, Await_Loop, End_Loop} \<Longrightarrow> loop_ok todo l"
  unfolding loop_ok_def by auto

lemma server_ok_rest:
  "server_ok (insert st todo) s t \<Longrightarrow> st \<notin> {Spawn_Server, Stop_Socket, Join_Server, End_Socket} \<Longrightarrow>
   server_ok todo s t"
  unfolding server_ok_def by auto

lemma exec_stmt_loop_ok:
  assumes "exec_stmt os m st k = Inr k'" and "k_todo k = st # rest" and "in_order (st # rest)"
    and "settled (set (st # rest))" and "loop_ok (set (st # rest)) (k_loop k)"
  shows "loop_ok (set (k_todo k')) (k_loop k')"
proof (cases st)
  case End_Loop
  have "\<not> el_running (k_loop k)" "worker_ok (k_loop k)"
    using assms(3,5) End_Loop unfolding loop_ok_def by auto
  from el_destroy_cases [OF this] this show ?thesis
    using assms(1-3,5) End_Loop by (auto simp: loop_ok_def loop_defs worker_ok_def)
next
  case Run_Loop
  have "\<not> el_running (k_loop k)" using assms(5) Run_Loop by (simp add: loop_ok_def worker_ok_def)
  then show ?thesis
    using assms(1-3,5) settled_facts(1) [OF assms(4)] Run_Loop by (auto simp: loop_ok_def loop_defs)
next
  case Set_Tick_Callback
  then have "loop_ok (set rest) (k_loop k)" using assms(5) by (auto intro: loop_ok_rest)
  then show ?thesis using assms(1,2) Set_Tick_Callback by (auto simp: loop_defs loop_ok_def)
next
  case Stop_Loop
  then show ?thesis using assms(1-3,5) by (auto simp: loop_ok_def loop_defs)
next
  case Await_Loop
  then show ?thesis using assms(1-3,5) by (auto simp: loop_ok_def loop_defs split: if_splits)
qed (use assms(1,2,5) in \<open>auto simp: loop_defs split: if_splits intro: loop_ok_rest\<close>)

lemma exec_stmt_server_ok:
  assumes "exec_stmt os m st k = Inr k'" and "k_todo k = st # rest" and "in_order (st # rest)"
    and "settled (set (st # rest))" and "server_ok (set (st # rest)) (k_socket k) (k_server k)"
  shows "server_ok (set (k_todo k')) (k_socket k') (k_server k')"
proof (cases st)
  case Bind_Socket
  then have "server_ok (set rest) (k_socket k) (k_server k)" using assms(5) by (auto intro: server_ok_rest)
  then show ?thesis
    using assms(1,2) Bind_Socket settled_facts(3) [OF assms(4)] by (auto simp: loop_defs server_ok_def ss_bind_stop)
next
  case Spawn_Server
  then show ?thesis
    using assms(1-3,5) settled_facts(2) [OF assms(4)] by (auto simp: loop_defs server_ok_def)
next
  case Stop_Socket
  then show ?thesis using assms(1-3,5) by (auto simp: loop_defs server_ok_def)
next
  case Join_Server
  then show ?thesis using assms(1-3,5) by (auto simp: loop_defs server_ok_def split: if_splits)
next
  case End_Socket
  then show ?thesis using assms(1-3,5) by (auto simp: loop_defs server_ok_def ss_close_closes)
qed (use assms(1,2,5) in \<open>auto simp: loop_defs split: if_splits sum.splits prod.splits intro: server_ok_rest\<close>)

lemma exec_stmt_signal_ok:
  assumes "exec_stmt os m st k = Inr k'" and "k_todo k = st # rest" and "in_order (st # rest)"
    and "settled (set (st # rest))" and "signal_ok (set (st # rest)) (k_handlers k) (k_signal k)"
  shows "signal_ok (set (k_todo k')) (k_handlers k') (k_signal k')"
  using assms(1-3,5) settled_facts(4) [OF assms(4)]
  by (cases st) (auto simp: signal_ok_def loop_defs split: if_splits sum.splits prod.splits)

lemma exec_stmt_inv:
  assumes "exec_stmt os m st k = Inr k'" and "k_todo k = st # rest" and "kernel_inv k"
  shows "kernel_inv k'"
proof -
  have inv: "in_order (st # rest)" "settled (set (st # rest))" "thread_inv k"
    using assms(2,3) by (auto simp: kernel_inv_def)
  then have "thread_inv k'"
    using exec_stmt_loop_ok [OF assms(1,2) inv(1,2)] exec_stmt_server_ok [OF assms(1,2) inv(1,2)]
      exec_stmt_signal_ok [OF assms(1,2) inv(1,2)] assms(2) unfolding thread_inv_def by simp
  then show ?thesis
    using exec_stmt_todo [OF assms(1,2)] settled_rest [of st rest] assms(2,3) by (auto simp: kernel_inv_def)
qed

text \<open>What the other threads and signals leave as it is, and what they can only end.\<close>

definition others_keep :: "'w kernel \<Rightarrow> 'w kernel \<Rightarrow> bool" where
  "others_keep k k' \<longleftrightarrow> k_todo k' = k_todo k \<and> k_out k' = k_out k \<and> k_handlers k' = k_handlers k \<and>
     (k_signal k \<noteq> 0 \<longrightarrow> k_signal k' \<noteq> 0) \<and> (k_signal k' \<noteq> 0 \<longrightarrow> k_signal k \<noteq> 0 \<or> k_handlers k) \<and>
     server_fd (k_socket k') = server_fd (k_socket k) \<and>
     stop_requested (k_socket k') = stop_requested (k_socket k) \<and>
     (k_server k' = k_server k \<or> k_server k = Serving \<and> k_server k' = Served) \<and>
     el_stop (k_loop k') = el_stop (k_loop k) \<and>
     (el_worker (k_loop k') = No_Thread \<longleftrightarrow> el_worker (k_loop k) = No_Thread) \<and>
     (el_running (k_loop k') \<longrightarrow> el_running (k_loop k)) \<and>
     (worker_ok (k_loop k) \<longrightarrow> worker_ok (k_loop k'))"

lemma respond_frame:
  "respond os fd r (s, w) = Inr (t, s', w') \<Longrightarrow>
   server_fd s' = server_fd s \<and> stop_requested s' = stop_requested s"
  by (auto simp: respond_def split: if_splits sum.splits)

lemma handle_client_frame:
  "handle_client os fd (s, w) = Inr (s', w') \<Longrightarrow>
   server_fd s' = server_fd s \<and> stop_requested s' = stop_requested s"
  by (auto simp: handle_client_def Let_def split: if_splits prod.splits sum.splits dest: respond_frame)

lemma serve_iter_frame:
  "serve_iter os (s, w) = Inr (b, s', w') \<Longrightarrow>
   server_fd s' = server_fd s \<and> stop_requested s' = stop_requested s"
  unfolding serve_iter_def
  by (auto simp: Let_def split: if_splits prod.splits sum.splits dest!: handle_client_frame)

lemma server_step_keeps: "server_step os k = Inr k' \<Longrightarrow> others_keep k k'"
  by (auto simp: server_step_def others_keep_def split: if_splits sum.splits prod.splits dest!: serve_iter_frame)

lemma level_below: "Debug < Info" by (simp add: less_LogLevel_def)

lemma debug_silent [simp]: "say m Debug msg k = k"
  by (cases m) (simp add: log_line_def level_below)

lemma iteration_keeps:
  "others_keep k (k\<lparr>k_loop := loop_iteration now (k_loop k)\<rparr>)"
  by (cases "el_worker (k_loop k)") (auto simp: others_keep_def loop_iteration_def Let_def worker_ok_def)

lemma on_tick_frame: "on_tick m k = Inr k' \<Longrightarrow> \<exists>n. k' = k\<lparr>k_tick_count := n\<rparr>"
  by (auto simp: on_tick_def Let_def split: if_splits)

lemma worker_step_keeps:
  assumes "worker_step m k = Inr k'"
  shows "others_keep k k'"
proof -
  let ?k = "k\<lparr>k_loop := loop_iteration (fst m) (k_loop k)\<rparr>"
  have "k' = ?k \<or> on_tick m ?k = Inr k'"
    using assms by (auto simp: worker_step_def Let_def split: if_splits)
  then have "k' = ?k \<or> (\<exists>n. k' = ?k\<lparr>k_tick_count := n\<rparr>)" using on_tick_frame by blast
  then show ?thesis using iteration_keeps [of k "fst m"] by (elim disjE exE) (simp_all add: others_keep_def)
qed

lemma signal_keeps:
  "k_handlers k \<Longrightarrow> n \<noteq> 0 \<Longrightarrow> others_keep k (k\<lparr>k_signal := n\<rparr>)"
  by (simp add: others_keep_def)

lemma others_step_keep:
  assumes "kernel_step os (m, a) k = Inr k'" and "a \<noteq> Main_Thread"
  shows "others_keep k k'"
proof (cases a)
  case Server_Thread
  then show ?thesis using assms(1) server_step_keeps by simp
next
  case Worker_Thread
  then show ?thesis using assms(1) by (intro worker_step_keeps) simp
qed (use assms in \<open>auto intro: signal_keeps split: if_splits\<close>)

lemma loop_ok_keep:
  "loop_ok todo l \<Longrightarrow> el_stop l' = el_stop l \<Longrightarrow> (el_worker l' = No_Thread \<longleftrightarrow> el_worker l = No_Thread) \<Longrightarrow>
   (el_running l' \<longrightarrow> el_running l) \<Longrightarrow> (worker_ok l \<longrightarrow> worker_ok l') \<Longrightarrow> loop_ok todo l'"
  unfolding loop_ok_def by blast

lemma server_ok_keep:
  "server_ok todo s t \<Longrightarrow> server_fd s' = server_fd s \<Longrightarrow> stop_requested s' = stop_requested s \<Longrightarrow>
   t' = t \<or> t = Serving \<and> t' = Served \<Longrightarrow> server_ok todo s' t'"
  unfolding server_ok_def by auto

lemma signal_ok_keep:
  "signal_ok todo h n \<Longrightarrow> (n \<noteq> 0 \<longrightarrow> n' \<noteq> 0) \<Longrightarrow> (n' \<noteq> 0 \<longrightarrow> n \<noteq> 0 \<or> h) \<Longrightarrow> signal_ok todo h n'"
  unfolding signal_ok_def by blast

lemma others_keep_inv:
  assumes "others_keep k k'" and "kernel_inv k"
  shows "kernel_inv k'"
proof -
  have inv: "thread_inv k" using assms(2) by (simp add: kernel_inv_def)
  have "loop_ok (set (k_todo k)) (k_loop k')"
    by (rule loop_ok_keep [of _ "k_loop k"]) (use assms(1) inv in \<open>simp_all add: others_keep_def thread_inv_def\<close>)
  moreover have "server_ok (set (k_todo k)) (k_socket k') (k_server k')"
    by (rule server_ok_keep [of _ "k_socket k" "k_server k"])
      (use assms(1) inv in \<open>simp_all add: others_keep_def thread_inv_def\<close>)
  moreover have "signal_ok (set (k_todo k)) (k_handlers k) (k_signal k')"
    by (rule signal_ok_keep [of _ _ "k_signal k"])
      (use assms(1) inv in \<open>simp_all add: others_keep_def thread_inv_def\<close>)
  ultimately show ?thesis using assms by (simp add: others_keep_def kernel_inv_def thread_inv_def)
qed

lemma main_step_inv: "main_step os m k = Inr k' \<Longrightarrow> kernel_inv k \<Longrightarrow> kernel_inv k'"
  by (auto simp: main_step_def split: list.splits dest: exec_stmt_inv)

lemma kernel_step_inv:
  assumes "kernel_step os (m, a) k = Inr k'" and "kernel_inv k"
  shows "kernel_inv k'"
proof (cases "a = Main_Thread")
  case True
  then show ?thesis using assms by (auto intro: main_step_inv)
next
  case False
  then show ?thesis using others_keep_inv [OF others_step_keep [OF assms(1)]] assms(2) by blast
qed

section \<open>Faults\<close>

lemma buf_fault: "string_of_buf t = Inl e \<Longrightarrow> e = Undefined_Behaviour"
  by (simp add: string_of_buf_def split: if_splits)

lemma rss_fault: "get_rss_kb x = Inl e \<Longrightarrow> e = Undefined_Behaviour"
  by (cases "Option.bind x second_number"; cases x; simp add: get_rss_kb_def split: if_split_asm)

lemma format_fault: "format_status os k w = Inl e \<Longrightarrow> e = Undefined_Behaviour"
  unfolding format_status_def Let_def
  by (cases "get_rss_kb (so_statm os w)") (auto dest: buf_fault rss_fault)

lemma respond_fault:
  assumes "respond os fd r (s, w) = Inl e"
  shows "e = Undefined_Behaviour"
proof -
  have "format_status os (ks s) w = Inl e" using assms by (auto simp: respond_def split: if_splits sum.splits)
  then show ?thesis by (rule format_fault)
qed

lemma handle_client_fault: "handle_client os fd (s, w) = Inl e \<Longrightarrow> e \<in> {Undefined_Behaviour, Killed}"
  by (auto simp: handle_client_def Let_def split: if_splits prod.splits sum.splits dest: respond_fault)

lemma serve_iter_fault:
  assumes "serve_iter os (s, w) = Inl e"
  shows "e \<in> {Undefined_Behaviour, Killed}"
proof -
  have "e = Undefined_Behaviour \<or> (\<exists>fd w'. handle_client os fd (s, w') = Inl e)"
    using assms unfolding serve_iter_def
    by (simp add: Let_def split_beta split: if_splits sum.splits) blast
  then show ?thesis by (auto dest: handle_client_fault)
qed

lemma main_step_fault:
  assumes "main_step os m k = Inl e" and "kernel_inv k"
  shows False
proof -
  obtain st rest where st: "k_todo k = st # rest" "exec_stmt os m st k = Inl e"
    using assms(1) by (auto simp: main_step_def split: list.splits)
  then have "st = Run_Loop" by (cases st) (auto split: if_splits sum.splits prod.splits)
  moreover from this have "loop_ok (set (Run_Loop # rest)) (k_loop k)"
    using assms(2) st(1) by (simp add: kernel_inv_def thread_inv_def)
  ultimately show False using st(2) by (auto simp: loop_ok_def el_run_def split: if_splits)
qed

lemma kernel_step_fault:
  assumes "kernel_step os (m, a) k = Inl e" and "kernel_inv k"
  shows "e \<in> {Undefined_Behaviour, Killed}"
  using assms
  by (cases a) (auto simp: server_step_def worker_step_def on_tick_def Let_def split: if_splits sum.splits prod.splits
      dest: main_step_fault serve_iter_fault)

section \<open>Progress\<close>

definition rank :: "'w kernel \<Rightarrow> nat" where
  "rank k = 2 * length (k_todo k) + of_bool (el_running (k_loop k)) + of_bool (k_server k = Serving)"

definition same_point :: "'w kernel \<Rightarrow> 'w kernel \<Rightarrow> bool" where
  "same_point k k' \<longleftrightarrow> k_todo k' = k_todo k \<and> el_running (k_loop k') = el_running (k_loop k) \<and>
     (k_server k' = Serving \<longleftrightarrow> k_server k = Serving)"

text \<open>The thread whose step brings the shutdown on.\<close>

definition helper :: "'w kernel \<Rightarrow> actor" where
  "helper k = (case k_todo k of
      Await_Loop # _ \<Rightarrow> if el_running (k_loop k) then Worker_Thread else Main_Thread
    | Join_Server # _ \<Rightarrow> if k_server k = Serving then Server_Thread else Main_Thread
    | _ \<Rightarrow> Main_Thread)"

lemma same_point_helper: "same_point k k' \<Longrightarrow> helper k' = helper k \<and> rank k' = rank k"
  by (auto simp: same_point_def helper_def rank_def split: list.splits stmt.splits)

lemma helper_Cons:
  "k_todo k = st # rest \<Longrightarrow> helper k =
     (if st = Await_Loop \<and> el_running (k_loop k) then Worker_Thread
      else if st = Join_Server \<and> k_server k = Serving then Server_Thread else Main_Thread)"
  by (cases st) (simp_all add: helper_def)

lemma exec_stmt_frame:
  "exec_stmt os m st k = Inr k' \<Longrightarrow>
   st \<notin> {Run_Loop, Await_Signal, Await_Loop, Join_Server, End_Loop, Spawn_Server} \<Longrightarrow>
   k_todo k' = tl (k_todo k) \<and> el_running (k_loop k') = el_running (k_loop k) \<and> k_server k' = k_server k"
  by (cases st) (auto simp: loop_defs)

lemma exec_stmt_rank:
  assumes "exec_stmt os m st k = Inr k'" and "k_todo k = st # rest" and "kernel_inv k"
  shows "rank k' < rank k \<or> k' = k \<and> (k_signal k \<noteq> 0 \<longrightarrow> helper k \<noteq> Main_Thread)"
proof -
  note h = helper_Cons [OF assms(2)]
  consider "st = Run_Loop" | "st = Spawn_Server" | "st = Await_Signal" | "st = Await_Loop" | "st = Join_Server"
    | "st = End_Loop" | "st \<notin> {Run_Loop, Await_Signal, Await_Loop, Join_Server, End_Loop, Spawn_Server}"
    by blast
  then show ?thesis
  proof cases
    case 1
    then show ?thesis using assms(1,2) by (auto simp: rank_def el_run_def next_stmt_def split: if_splits)
  next
    case 3
    then show ?thesis using assms(1,2) by (cases "k_signal k = 0") (auto simp: rank_def next_stmt_def)
  next
    case 4
    then show ?thesis using assms(1,2) h by (cases "el_running (k_loop k)") (auto simp: rank_def next_stmt_def)
  next
    case 5
    then show ?thesis using assms(1,2) h by (cases "k_server k = Serving") (auto simp: rank_def next_stmt_def)
  next
    case 6
    have "loop_ok (set (End_Loop # rest)) (k_loop k)" "Await_Loop \<notin> set (End_Loop # rest)"
      using assms(2,3) 6 by (auto simp: kernel_inv_def thread_inv_def)
    then have "el_destroy (k_loop k) = (True, (request_stop (k_loop k))\<lparr>el_worker := No_Thread\<rparr>)"
      by (intro el_destroy_cases) (auto simp: loop_ok_def)
    then show ?thesis using assms(1,2) 6 by (auto simp: rank_def loop_defs)
  next
    case 7
    then show ?thesis using exec_stmt_frame [OF assms(1)] assms(2) by (simp add: rank_def)
  qed (use assms(1,2) in \<open>auto simp: rank_def next_stmt_def\<close>)
qed

lemma main_step_rank:
  "main_step os m k = Inr k' \<Longrightarrow> kernel_inv k \<Longrightarrow>
   rank k' < rank k \<or> k' = k \<and> (k_signal k \<noteq> 0 \<and> k_todo k \<noteq> [] \<longrightarrow> helper k \<noteq> Main_Thread)"
  using exec_stmt_rank [of os m _ k k'] by (auto simp: main_step_def split: list.splits)

lemma others_rank: "others_keep k k' \<Longrightarrow> rank k' < rank k \<or> same_point k k'"
  by (auto simp: others_keep_def rank_def same_point_def)

lemma worker_helps:
  assumes "worker_step m k = Inr k'" and "kernel_inv k" and "helper k = Worker_Thread"
  shows "\<not> same_point k k'"
proof -
  obtain rest where r: "k_todo k = Await_Loop # rest" "el_running (k_loop k)"
    using assms(3) by (auto simp: helper_def split: list.splits stmt.splits if_splits)
  then have "loop_ok (set (Await_Loop # rest)) (k_loop k)" "Stop_Loop \<notin> set (Await_Loop # rest)"
    using assms(2) by (auto simp: kernel_inv_def thread_inv_def)
  then have "el_stop (k_loop k)" "\<exists>t. el_worker (k_loop k) = Looping t"
    using r(2) by (auto simp: loop_ok_def worker_ok_def)
  then have "\<not> el_running (k_loop k')"
    using assms(1) by (auto simp: worker_step_def loop_iteration_def)
  then show ?thesis using r(2) by (simp add: same_point_def)
qed

lemma server_helps:
  assumes "server_step os k = Inr k'" and "kernel_inv k" and "helper k = Server_Thread"
  shows "\<not> same_point k k'"
proof -
  obtain rest where r: "k_todo k = Join_Server # rest" "k_server k = Serving"
    using assms(3) by (auto simp: helper_def split: list.splits stmt.splits if_splits)
  then have "server_ok (set (Join_Server # rest)) (k_socket k) Serving" "Stop_Socket \<notin> set (Join_Server # rest)"
    using assms(2) by (auto simp: kernel_inv_def thread_inv_def)
  then have "stop_requested (k_socket k)" by (simp add: server_ok_def)
  then show ?thesis using assms(1) r(2) by (auto simp: server_step_def same_point_def)
qed

text \<open>Every step keeps the rank or lowers it; after a signal the helper's step lowers it.\<close>

lemma kernel_step_rank:
  assumes "kernel_step os (m, a) k = Inr k'" and "kernel_inv k"
  shows "rank k' < rank k \<or> same_point k k' \<and> (k_signal k \<noteq> 0 \<and> k_todo k \<noteq> [] \<longrightarrow> a \<noteq> helper k)"
proof (cases "a = Main_Thread")
  case True
  then have "main_step os m k = Inr k'" using assms(1) by simp
  from main_step_rank [OF this assms(2)] show ?thesis using True by (auto simp: same_point_def)
next
  case False
  have "rank k' < rank k \<or> same_point k k'" by (rule others_rank [OF others_step_keep [OF assms(1) False]])
  moreover have "helper k \<noteq> Sigint" "helper k \<noteq> Sigterm"
    by (auto simp: helper_def split: list.splits stmt.splits if_splits)
  ultimately show ?thesis
    using assms False worker_helps [of m k k'] server_helps [of os k k'] by (cases a) auto
qed

section \<open>Runs\<close>

lemma kernel_run_append:
  "kernel_run os (as @ bs) k = (case kernel_run os as k of Inl e \<Rightarrow> Inl e | Inr k' \<Rightarrow> kernel_run os bs k')"
  by (induction as arbitrary: k) (auto split: sum.split)

lemma kernel_run_inv: "kernel_run os as k = Inr k' \<Longrightarrow> kernel_inv k \<Longrightarrow> kernel_inv k'"
  by (induction as arbitrary: k) (auto split: sum.splits dest: kernel_step_inv)

lemma kernel_run_fault: "kernel_run os as k = Inl e \<Longrightarrow> kernel_inv k \<Longrightarrow> e \<in> {Undefined_Behaviour, Killed}"
proof (induction as arbitrary: k)
  case (Cons a as)
  obtain m b where a: "a = (m, b)" by fastforce
  show ?case
  proof (cases "kernel_step os a k")
    case (Inl f)
    then show ?thesis using Cons.prems kernel_step_fault [of os m b k f] a by simp
  next
    case (Inr k1)
    then show ?thesis using Cons.prems Cons.IH [of k1] kernel_step_inv [of os m b k k1] a by simp
  qed
qed simp

lemma launch_inv:
  assumes "in_order prog" and "{Run_Loop, Await_Loop, Stop_Loop, End_Loop, Spawn_Server, Join_Server, Stop_Socket,
    End_Socket, Await_Signal} \<subseteq> set prog"
  shows "kernel_inv (launch prog path pid now w)"
proof -
  have "needs st = {}" if "st \<notin> set prog" for st using assms(2) that by (cases st) auto
  then have "settled (set prog)" by (auto simp: settled_def)
  then show ?thesis
    using assms by (simp add: kernel_inv_def launch_def thread_inv_def loop_ok_def server_ok_def signal_ok_def
        worker_ok_def new_loop_def)
qed

text \<open>The state in which either entry point starts.\<close>

definition entry_programs :: "string \<Rightarrow> stmt list set" where
  "entry_programs path = {kernel_program path, app_program path}"

lemma entry_inv: "prog \<in> entry_programs path \<Longrightarrow> kernel_inv (launch prog path pid now w)"
  by (rule launch_inv) (auto simp: entry_programs_def programs_in_order, auto simp: kernel_program_def app_program_def)

lemma signal_stays: "kernel_step os (m, a) k = Inr k' \<Longrightarrow> k_signal k \<noteq> 0 \<Longrightarrow> k_signal k' \<noteq> 0"
proof (cases "a = Main_Thread")
  case True
  assume "kernel_step os (m, a) k = Inr k'" "k_signal k \<noteq> 0"
  then show ?thesis using True
    by (cases "k_todo k"; cases "hd (k_todo k)")
      (auto simp: main_step_def next_stmt_def split: if_splits sum.splits prod.splits)
next
  case False
  assume "kernel_step os (m, a) k = Inr k'" "k_signal k \<noteq> 0"
  then show ?thesis using others_step_keep [of os m a k k'] False by (simp add: others_keep_def)
qed

lemma kernel_run_rank:
  "kernel_run os as k = Inr k' \<Longrightarrow> kernel_inv k \<Longrightarrow> k_signal k \<noteq> 0 \<Longrightarrow>
   k_signal k' \<noteq> 0 \<and>
   (rank k' < rank k \<or> same_point k k' \<and> (k_todo k \<noteq> [] \<longrightarrow> helper k \<notin> snd ` set as))"
proof (induction as arbitrary: k)
  case Nil
  then show ?case by (simp add: same_point_def)
next
  case (Cons a as)
  obtain m b where a: "a = (m, b)" by fastforce
  obtain k1 where k1: "kernel_step os (m, b) k = Inr k1" "kernel_run os as k1 = Inr k'"
    using Cons.prems(1) a by (auto split: sum.splits)
  note IH = Cons.IH [OF k1(2) kernel_step_inv [OF k1(1) Cons.prems(2)] signal_stays [OF k1(1) Cons.prems(3)]]
  have "rank k' \<le> rank k1" using IH same_point_helper [of k1 k'] by auto
  moreover have "rank k1 < rank k \<or> same_point k k1 \<and> (k_todo k \<noteq> [] \<longrightarrow> b \<noteq> helper k)"
    using kernel_step_rank [OF k1(1) Cons.prems(2)] Cons.prems(3) by simp
  moreover have ?case if "same_point k k1" "same_point k1 k'" "k_todo k \<noteq> [] \<longrightarrow> b \<noteq> helper k"
      "k_todo k1 \<noteq> [] \<longrightarrow> helper k1 \<notin> snd ` set as"
  proof -
    have "k_todo k \<noteq> [] \<longrightarrow> helper k \<notin> snd ` set (a # as)"
      using that same_point_helper [OF that(1)] a by (simp add: same_point_def eq_commute)
    then show ?thesis using that(1,2) IH by (simp add: same_point_def)
  qed
  ultimately show ?case
    using IH same_point_helper [of k k1] by (cases "rank k' < rank k") auto
qed

text \<open>A round in which each thread gets at least one step.\<close>

definition fair_round :: "(moment \<times> actor) list \<Rightarrow> bool" where
  "fair_round as \<longleftrightarrow> {Main_Thread, Server_Thread, Worker_Thread} \<subseteq> snd ` set as"

lemma fair_rounds_finish:
  "kernel_run os (concat rounds) k = Inr k' \<Longrightarrow> kernel_inv k \<Longrightarrow> k_signal k \<noteq> 0 \<Longrightarrow> list_all fair_round rounds \<Longrightarrow>
   rank k < length rounds \<Longrightarrow> k_todo k' = []"
proof (induction rounds arbitrary: k)
  case Nil
  then show ?case by simp
next
  case (Cons r rounds)
  obtain k1 where k1: "kernel_run os r k = Inr k1" "kernel_run os (concat rounds) k1 = Inr k'"
    using Cons.prems(1) by (auto simp: kernel_run_append split: sum.splits)
  note st = kernel_run_rank [OF k1(1) Cons.prems(2,3)]
  have "helper k \<in> {Main_Thread, Server_Thread, Worker_Thread}"
    by (auto simp: helper_def split: list.splits stmt.splits)
  moreover have "{Main_Thread, Server_Thread, Worker_Thread} \<subseteq> snd ` set r"
    using Cons.prems(4) by (simp only: list.pred_inject fair_round_def)
  ultimately have "helper k \<in> snd ` set r" by blast
  then have "rank k1 < rank k \<or> k_todo k = [] \<and> same_point k k1" using st by auto
  then show ?case
  proof
    assume "rank k1 < rank k"
    then show ?thesis
      using Cons.IH [OF k1(2) kernel_run_inv [OF k1(1) Cons.prems(2)]] st Cons.prems(4,5) by simp
  next
    assume "k_todo k = [] \<and> same_point k k1"
    then show ?thesis
      using kernel_run_rank [OF Cons.prems(1,2,3)] by (cases "k_todo k'") (auto simp: rank_def same_point_def)
  qed
qed

lemma main_launches:
  assumes "kernel_main d env xdg args pid now w = Inr (Started err k) \<or> app_main d env xdg args pid now w = Inr (Started err k)"
  shows "\<exists>path w'. \<exists>prog \<in> entry_programs path. k = launch prog path pid now w'"
  using assms by (auto simp: kernel_main_def app_main_def entry_programs_def split: startup.splits sum.splits)

section \<open>What the kernel says\<close>

fun said :: "stmt list \<Rightarrow> string list" where
  "said [] = []"
| "said (Say msg # rest) = msg # said rest"
| "said (_ # rest) = said rest"

definition info_line :: "string \<Rightarrow> string \<Rightarrow> bool" where
  "info_line msg line \<longleftrightarrow> (\<exists>date ms. line = log_line Info date ms Info msg)"

definition adds_lines :: "'w kernel \<Rightarrow> 'w kernel \<Rightarrow> bool" where
  "adds_lines k k' \<longleftrightarrow> (\<exists>msgs lines. said (k_todo k) = msgs @ said (k_todo k') \<and>
     list_all2 info_line msgs lines \<and> k_out k' = k_out k @ concat lines)"

lemma adds_nothing: "k_todo k' = k_todo k \<Longrightarrow> k_out k' = k_out k \<Longrightarrow> adds_lines k k'"
  unfolding adds_lines_def by (intro exI [of _ "[]"]) simp

lemma adds_lines_trans: "adds_lines a b \<Longrightarrow> adds_lines b c \<Longrightarrow> adds_lines a c"
  unfolding adds_lines_def by (elim exE conjE, rule exI, rule exI) (auto intro: list_all2_appendI)

lemma exec_stmt_lines:
  assumes "exec_stmt os m st k = Inr k'" and "k_todo k = st # rest"
  shows "adds_lines k k'"
proof (cases "\<exists>msg. st = Say msg")
  case True
  then obtain msg where msg: "st = Say msg" by blast
  obtain now date ms where m: "m = (now, date, ms)" by (cases m)
  have "info_line msg (log_line Info date ms Info msg)" by (auto simp: info_line_def)
  then show ?thesis
    using assms msg m unfolding adds_lines_def
    by (intro exI [of _ "[msg]"] exI [of _ "[log_line Info date ms Info msg]"]) (auto simp: next_stmt_def)
next
  case False
  then have "said (st # rest) = said rest" by (cases st) auto
  moreover have "k_out k' = k_out k"
    using assms(1) False by (cases st) (auto simp: next_stmt_def split: if_splits sum.splits prod.splits)
  moreover have "said (k_todo k') = said (k_todo k)"
    using exec_stmt_todo [OF assms] assms(2) calculation(1) by auto
  ultimately show ?thesis unfolding adds_lines_def by (intro exI [of _ "[]"]) simp
qed

lemma kernel_step_lines: "kernel_step os (m, a) k = Inr k' \<Longrightarrow> adds_lines k k'"
proof (cases "a = Main_Thread")
  case True
  assume "kernel_step os (m, a) k = Inr k'"
  then show ?thesis
    using True exec_stmt_lines [of os m _ k k'] by (auto simp: main_step_def adds_nothing split: list.splits)
next
  case False
  assume "kernel_step os (m, a) k = Inr k'"
  then show ?thesis using others_step_keep [of os m a k k'] False by (simp add: others_keep_def adds_nothing)
qed

lemma kernel_run_lines: "kernel_run os as k = Inr k' \<Longrightarrow> adds_lines k k'"
proof (induction as arbitrary: k)
  case (Cons a as)
  obtain m b where "a = (m, b)" by fastforce
  then obtain k1 where "kernel_step os (m, b) k = Inr k1" "kernel_run os as k1 = Inr k'"
    using Cons.prems by (auto split: sum.splits)
  then show ?case using Cons.IH kernel_step_lines adds_lines_trans by blast
qed (simp add: adds_nothing)

section \<open>The properties\<close>

text \<open>
  C21: when \<open>main\<close> of either entry point has returned, a signal was received, the worker and the thread of the
  status socket are joined, the socket is closed, and the output consists of one INFO line for each
  of the messages of the program in their order; the ticks, logged below the fixed level INFO, never
  show, whatever was given as \<open>--log-level\<close>.
\<close>

theorem kernel_exit_is_clean:
  assumes "prog \<in> entry_programs path" and "kernel_run os as (launch prog path pid now w) = Inr k" and "k_todo k = []"
  shows "k_signal k \<noteq> 0 \<and> el_worker (k_loop k) = No_Thread \<and> k_server k = Joined \<and> server_fd (k_socket k) < 0 \<and>
    (\<exists>lines. list_all2 info_line (said prog) lines \<and> k_out k = concat lines)"
proof -
  have "kernel_inv k" by (rule kernel_run_inv [OF assms(2) entry_inv [OF assms(1)]])
  then have "k_signal k \<noteq> 0 \<and> el_worker (k_loop k) = No_Thread \<and> k_server k = Joined \<and> server_fd (k_socket k) < 0"
    using assms(3) by (simp add: kernel_inv_def thread_inv_def loop_ok_def server_ok_def signal_ok_def)
  then show ?thesis
    using kernel_run_lines [OF assms(2)] assms(3) by (simp add: adds_lines_def launch_def)
qed

text \<open>
  C15: once a signal has arrived the kernel ends, from whatever state it has reached and however its threads
  are scheduled, as long as each of them gets a step in every round: after at most two rounds for each
  statement left and two more \<open>main\<close> has returned, unless the status thread runs into undefined
  behaviour or is killed by a client that hung up.
\<close>

theorem shutdown_completes:
  assumes "prog \<in> entry_programs path" and "kernel_run os as (launch prog path pid now w) = Inr k"
    and "k_signal k \<noteq> 0" and "list_all fair_round rounds" and "2 * length (k_todo k) + 3 \<le> length rounds"
  shows "case kernel_run os (concat rounds) k of
      Inl e \<Rightarrow> e \<in> {Undefined_Behaviour, Killed} | Inr k' \<Rightarrow> k_todo k' = []"
proof (cases "kernel_run os (concat rounds) k")
  case (Inl e)
  then show ?thesis
    using kernel_run_fault [OF Inl kernel_run_inv [OF assms(2) entry_inv [OF assms(1)]]] by simp
next
  case (Inr k')
  have "rank k < length rounds" using assms(5) by (simp add: rank_def of_bool_def split: if_splits)
  then show ?thesis
    using fair_rounds_finish [OF Inr kernel_run_inv [OF assms(2) entry_inv [OF assms(1)]] assms(3,4)] Inr by simp
qed

text \<open>A run of the system \<open>echo_os\<close> up to the signal, and the rounds that follow.\<close>

definition demo_moment :: moment where
  "demo_moment = (0, ''2024-01-01 00:00:00'', 7)"

definition demo_start :: "(moment \<times> actor) list" where
  "demo_start = replicate 9 (demo_moment, Main_Thread) @ [(demo_moment, Sigterm)]"

definition demo_round :: "(moment \<times> actor) list" where
  "demo_round = [(demo_moment, Main_Thread), (demo_moment, Server_Thread), (demo_moment, Worker_Thread)]"

lemma demo_signal:
  "\<exists>k. kernel_run echo_os demo_start (launch (kernel_program ''/s'') ''/s'' 7 0 []) = Inr k \<and> k_signal k = 15 \<and>
     length (k_todo k) = 9"
proof -
  have "case kernel_run echo_os demo_start (launch (kernel_program ''/s'') ''/s'' 7 0 []) of
      Inl e \<Rightarrow> False | Inr k \<Rightarrow> k_signal k = 15 \<and> length (k_todo k) = 9"
    by code_simp
  then show ?thesis by (auto split: sum.splits)
qed

theorem shutdown_completes_witness:
  "\<exists>k k'. kernel_run echo_os demo_start (launch (kernel_program ''/s'') ''/s'' 7 0 []) = Inr k \<and>
     kernel_run echo_os (concat (replicate 21 demo_round)) k = Inr k' \<and> k_todo k' = []"
proof -
  obtain k where k: "kernel_run echo_os demo_start (launch (kernel_program ''/s'') ''/s'' 7 0 []) = Inr k"
    "k_signal k = 15" "length (k_todo k) = 9" using demo_signal by blast
  have fault: "case kernel_run echo_os (demo_start @ concat (replicate 21 demo_round))
      (launch (kernel_program ''/s'') ''/s'' 7 0 []) of Inl e \<Rightarrow> False | Inr k \<Rightarrow> True"
    by code_simp
  have fair: "list_all fair_round (replicate 21 demo_round)"
    by (simp add: list_all_iff fair_round_def demo_round_def)
  have "kernel_program ''/s'' \<in> entry_programs ''/s''" by (simp add: entry_programs_def)
  from shutdown_completes [OF this k(1) _ fair] k(2,3) fault show ?thesis
    using k(1) by (auto simp: kernel_run_append split: sum.splits)
qed

theorem kernel_exit_is_clean_witness:
  "\<exists>k. kernel_run echo_os (demo_start @ concat (replicate 21 demo_round)) (launch (kernel_program ''/s'') ''/s'' 7 0 []) = Inr k \<and>
     el_worker (k_loop k) = No_Thread \<and> server_fd (k_socket k) < 0"
proof -
  let ?as = "demo_start @ concat (replicate 21 demo_round)"
  have fin: "case kernel_run echo_os ?as (launch (kernel_program ''/s'') ''/s'' 7 0 []) of
      Inl e \<Rightarrow> False | Inr k \<Rightarrow> k_todo k = []"
    by code_simp
  then obtain k where k: "kernel_run echo_os ?as (launch (kernel_program ''/s'') ''/s'' 7 0 []) = Inr k" "k_todo k = []"
    by (auto split: sum.splits)
  have "kernel_program ''/s'' \<in> entry_programs ''/s''" by (simp add: entry_programs_def)
  from kernel_exit_is_clean [OF this k] show ?thesis using k(1) by blast
qed

end
