(* ===== verification/Cap_Debug.thy ===== *)
theory Cap_Debug
  imports Job_Limits Double_Text
begin

unbundle bit_operations_syntax

text \<open>
  The debug instruments of the process cap: the recorder of decisions in \<open>src/job/job.cpp\<close> and the
  line that \<open>src/job/process_inspector_procfs.cpp\<close> writes for every count. Both are kept beside the
  operations that they observe, which they are shown not to change.
\<close>

section \<open>The recorder\<close>

record ProcCapEntry =
  pc_job_id :: string
  pc_tick :: "64 word"
  pc_count :: int
  pc_limit :: int
  pc_decision :: nat
  pc_skip :: nat
  pc_errno :: int
  pc_status :: nat

fun status_number :: "JobStatus \<Rightarrow> nat" where
  "status_number QUEUED = 0"
| "status_number STARTING = 1"
| "status_number RUNNING = 2"
| "status_number COMPLETED = 3"
| "status_number FAILED = 4"
| "status_number CANCELLED = 5"
| "status_number TIMEOUT = 6"
| "status_number PROC_LIMIT = 7"

text \<open>The two flags are read from the environment once; \<open>rc_out\<close> is what goes to the error output.\<close>

record recorder =
  rc_enabled :: bool
  rc_dump :: bool
  rc_buf :: "ProcCapEntry list"
  rc_idx :: "32 word"
  rc_out :: string

definition no_entry :: ProcCapEntry where
  "no_entry = \<lparr>pc_job_id = [], pc_tick = 0, pc_count = 0, pc_limit = 0, pc_decision = 0, pc_skip = 0, pc_errno = 0,
     pc_status = 0\<rparr>"

definition new_recorder :: "bool \<Rightarrow> bool \<Rightarrow> recorder" where
  "new_recorder enabled dump = \<lparr>rc_enabled = enabled, rc_dump = dump, rc_buf = replicate 256 no_entry, rc_idx = 0, rc_out = []\<rparr>"

definition entry_text :: "ProcCapEntry \<Rightarrow> string" where
  "entry_text e = ''PROC_CAP_DBG id='' @ c_str (pc_job_id e) @ '' tick='' @ show_nat (unat (pc_tick e)) @
     '' count='' @ show_int (pc_count e) @ '' limit='' @ show_int (pc_limit e) @
     '' decision='' @ show_nat (pc_decision e) @ '' skip='' @ show_nat (pc_skip e) @
     '' kill_errno='' @ show_int (pc_errno e) @ '' status='' @ show_nat (pc_status e) @ [CHR 0x0A]"

text \<open>The name of the job is cut to 31 characters.\<close>

definition cap_entry :: "Job \<Rightarrow> 64 word \<Rightarrow> int \<Rightarrow> nat \<Rightarrow> nat \<Rightarrow> int \<Rightarrow> ProcCapEntry" where
  "cap_entry j now num dec skip errno =
     \<lparr>pc_job_id = take 31 (j_id j), pc_tick = now, pc_count = num, pc_limit = j_max_child_processes j,
      pc_decision = dec, pc_skip = skip, pc_errno = errno, pc_status = status_number (j_status j)\<rparr>"

definition record_proc_cap :: "ProcCapEntry \<Rightarrow> recorder \<Rightarrow> recorder" where
  "record_proc_cap e r =
     (if \<not> rc_enabled r then r
      else r\<lparr>rc_idx := rc_idx r + 1, rc_buf := (rc_buf r)[unat (rc_idx r AND 255) := e],
             rc_out := (if rc_dump r then rc_out r @ entry_text e else rc_out r)\<rparr>)"

section \<open>The process cap with its recorder\<close>

text \<open>\<open>err\<close> is \<open>errno\<close> after a call that failed; the probes of the first debug line have no effect.\<close>

definition probe_text :: "Job \<Rightarrow> (int \<Rightarrow> int \<times> int) \<Rightarrow> (int \<Rightarrow> int \<times> int) \<Rightarrow> string" where
  "probe_text j getpgid kill0 =
     (let g = j_process_group j;
          (pg_res, pg_errno) = (if 0 < g then (let (r, e) = getpgid g in (r, if r = - 1 then e else 0)) else (- 1, 0));
          (kill_res, kill_errno) = (if 0 < g then (let (r, e) = kill0 (- g) in (r, if r = - 1 then e else 0)) else (- 1, 0))
      in ''PROC_CAP_GOV_DBG job='' @ c_str (j_id j) @ '' stored_pgid='' @ show_int g @ '' getpgid='' @ show_int pg_res @
         '' getpgid_errno='' @ show_int pg_errno @ '' kill_exist_res='' @ show_int kill_res @
         '' kill_errno='' @ show_int kill_errno @ '' limit='' @ show_int (j_max_child_processes j) @ [CHR 0x0A])"

definition mismatch_text :: "Job \<Rightarrow> nat \<Rightarrow> string" where
  "mismatch_text j observed = ''PROC_CAP_GOV_DBG leader_start_time_mismatch job='' @ c_str (j_id j) @
     '' pgid='' @ show_int (j_process_group j) @ '' expected='' @ show_nat (j_leader_start_time j) @
     '' observed='' @ show_nat observed @ [CHR 0x0A]"

definition cap_counted ::
  "'w job_os \<Rightarrow> ('w \<Rightarrow> int) \<Rightarrow> 64 word \<Rightarrow> recorder \<Rightarrow> Job \<times> 'w \<Rightarrow> recorder \<times> bool \<times> Job \<times> 'w" where
  "cap_counted os err now r = (\<lambda>(j, w).
     (let num = os_count os (j_process_group j) w in
      if num < 0 then (record_proc_cap (cap_entry j now num 3 2 0) r, False, j, w)
      else if j_max_child_processes j < num then
        (let r1 = record_proc_cap (cap_entry j now num 1 0 0) r;
             (e, w') = (if 0 < j_process_group j
                        then (let (res, w1) = os_kill os (- j_process_group j) SIGTERM w in (if res \<noteq> 0 then err w1 else 0, w1))
                        else (0, w));
             j' = j\<lparr>j_status := PROC_LIMIT, j_finished_at := os_clock os w', j_ended_at_ms := now\<rparr>
         in (record_proc_cap (cap_entry j' now num 2 0 e) r1, True, j', w'))
      else (record_proc_cap (cap_entry j now num 0 0 0) r, False, j, w)))"

definition cap_recorded ::
  "'w job_os \<Rightarrow> ('w \<Rightarrow> int) \<Rightarrow> 64 word \<Rightarrow> recorder \<Rightarrow> Job \<times> 'w \<Rightarrow> recorder \<times> bool \<times> Job \<times> 'w" where
  "cap_recorded os err now r = (\<lambda>(j, w).
     (case (if j_leader_start_time j \<noteq> 0 \<and> 0 < j_process_group j
            then read_proc_start_time_ticks (os_stat os w) (j_process_group j) else None) of
        Some st \<Rightarrow>
          if st \<noteq> j_leader_start_time j
          then (let r1 = (if rc_enabled r then r\<lparr>rc_out := rc_out r @ mismatch_text j st\<rparr> else r)
                in (record_proc_cap (cap_entry j now 0 3 2 0) r1, False, j, w))
          else cap_counted os err now r (j, w)
      | None \<Rightarrow> cap_counted os err now r (j, w)))"

text \<open>
  The whole function: the debug line of the probes comes first, when the variable \<open>HK_DEBUG_PROC_CAP\<close> is
  set at the time of the call (\<open>probing\<close>). \<open>inspector\<close> says that an inspector is there.
\<close>

definition traced_process_cap ::
  "'w job_os \<Rightarrow> ('w \<Rightarrow> int) \<Rightarrow> (int \<Rightarrow> int \<times> int) \<Rightarrow> (int \<Rightarrow> int \<times> int) \<Rightarrow> bool \<Rightarrow> bool \<Rightarrow> 64 word \<Rightarrow>
   recorder \<Rightarrow> Job \<times> 'w \<Rightarrow> recorder \<times> bool \<times> Job \<times> 'w" where
  "traced_process_cap os err getpgid kill0 inspector probing now r = (\<lambda>(j, w).
     (if \<not> inspector then (record_proc_cap (cap_entry j now 0 3 1 0) r, False, j, w)
      else cap_recorded os err now
        (if probing then r\<lparr>rc_out := rc_out r @ probe_text j getpgid kill0\<rparr> else r) (j, w)))"

text \<open>The entries of one enforcement, in the order in which they are recorded.\<close>

definition recorded_as :: "ProcCapEntry list \<Rightarrow> recorder \<Rightarrow> recorder \<Rightarrow> bool" where
  "recorded_as es r r' \<longleftrightarrow> rc_buf r' = rc_buf (fold record_proc_cap es r) \<and> rc_idx r' = rc_idx (fold record_proc_cap es r)"

lemma cap_recorded_observes:
  assumes "cap_recorded os err now r (j, w) = (r', ended, j', w')"
  shows "(ended, j', w') = enforce_job_process_cap os now (j, w) \<and>
    (\<exists>es. recorded_as es r r' \<and> (\<forall>e \<in> set es. pc_limit e = j_max_child_processes j \<and> pc_tick e = now) \<and>
      pc_status (last es) = status_number (j_status j') \<and>
      map pc_decision es = (if ended then [1, 2] else if leader_replaced os j w \<or> os_count os (j_process_group j) w < 0 then [3] else [0]) \<and>
      (\<forall>e \<in> set es. pc_decision e \<noteq> 3 \<longrightarrow> pc_count e = os_count os (j_process_group j) w))"
proof (cases "leader_replaced os j w")
  case True
  then obtain st where st: "j_leader_start_time j \<noteq> 0 \<and> 0 < j_process_group j"
    "read_proc_start_time_ticks (os_stat os w) (j_process_group j) = Some st" "st \<noteq> j_leader_start_time j"
    by (auto simp: leader_replaced_def split: option.splits)
  then have "recorded_as [cap_entry j now 0 3 2 0] r r'" "\<not> ended" "j' = j" "w' = w"
    using assms by (auto simp: cap_recorded_def recorded_as_def record_proc_cap_def Let_def)
  then show ?thesis using True
    by (intro conjI exI [of _ "[cap_entry j now 0 3 2 0]"]) (simp_all add: enforce_job_process_cap_def cap_entry_def)
next
  case False
  let ?c = "os_count os (j_process_group j) w"
  have cnt: "cap_counted os err now r (j, w) = (r', ended, j', w')"
    using assms False by (auto simp: cap_recorded_def leader_replaced_def split: if_splits option.splits)
  consider "?c < 0" | "0 \<le> ?c" "j_max_child_processes j < ?c" | "0 \<le> ?c" "?c \<le> j_max_child_processes j" by linarith
  then show ?thesis
  proof cases
    case 1
    then show ?thesis using cnt False
      by (intro conjI exI [of _ "[cap_entry j now ?c 3 2 0]"])
        (auto simp: cap_counted_def enforce_job_process_cap_def recorded_as_def cap_entry_def)
  next
    case 2
    define e where "e = (if 0 < j_process_group j \<and> fst (os_kill os (- j_process_group j) SIGTERM w) \<noteq> 0
      then err (snd (os_kill os (- j_process_group j) SIGTERM w)) else 0)"
    show ?thesis using cnt False 2
      by (intro conjI exI [of _ "[cap_entry j now ?c 1 0 0, cap_entry j' now ?c 2 0 e]"])
        (auto simp: cap_counted_def enforce_job_process_cap_def recorded_as_def cap_entry_def group_signal_def e_def
          Let_def split_beta split: if_splits)
  next
    case 3
    then show ?thesis using cnt False
      by (intro conjI exI [of _ "[cap_entry j now ?c 0 0 0]"])
        (auto simp: cap_counted_def enforce_job_process_cap_def recorded_as_def cap_entry_def)
  qed
qed

lemma recorded_as_out [simp]: "recorded_as es (r\<lparr>rc_out := out\<rparr>) r' \<longleftrightarrow> recorded_as es r r'"
proof -
  have "rc_buf (fold record_proc_cap es (r\<lparr>rc_out := out\<rparr>)) = rc_buf (fold record_proc_cap es r) \<and>
        rc_idx (fold record_proc_cap es (r\<lparr>rc_out := out\<rparr>)) = rc_idx (fold record_proc_cap es r)" for r out
  proof (induction es arbitrary: r out)
    case (Cons e es)
    have "\<exists>out'. record_proc_cap e (r\<lparr>rc_out := out\<rparr>) = (record_proc_cap e r)\<lparr>rc_out := out'\<rparr>"
      by (rule exI [of _ "rc_out (record_proc_cap e (r\<lparr>rc_out := out\<rparr>))"]) (simp add: record_proc_cap_def)
    then obtain out' where "record_proc_cap e (r\<lparr>rc_out := out\<rparr>) = (record_proc_cap e r)\<lparr>rc_out := out'\<rparr>" ..
    then show ?case using Cons.IH by simp
  qed simp
  then show ?thesis by (simp add: recorded_as_def)
qed

text \<open>
  C37: the recorder only observes: with it the process cap does what it does without, and what it records
  explains the outcome: a job that is ended leaves the decisions 1 and 2, the second with its new status, a job
  that is kept the decision 0, a skipped one the decision 3, each with the count and the limit compared.
\<close>

theorem recorder_observes:
  assumes "traced_process_cap os err getpgid kill0 True probing now r (j, w) = (r', ended, j', w')"
  shows "(ended, j', w') = enforce_job_process_cap os now (j, w) \<and>
    (\<exists>es. recorded_as es r r' \<and> (\<forall>e \<in> set es. pc_limit e = j_max_child_processes j \<and> pc_tick e = now) \<and>
      pc_status (last es) = status_number (j_status j') \<and>
      map pc_decision es = (if ended then [1, 2] else if leader_replaced os j w \<or> os_count os (j_process_group j) w < 0 then [3] else [0]) \<and>
      (\<forall>e \<in> set es. pc_decision e \<noteq> 3 \<longrightarrow> pc_count e = os_count os (j_process_group j) w))"
proof -
  let ?r = "if probing then r\<lparr>rc_out := rc_out r @ probe_text j getpgid kill0\<rparr> else r"
  have "cap_recorded os err now ?r (j, w) = (r', ended, j', w')"
    using assms by (simp add: traced_process_cap_def)
  moreover have "recorded_as es ?r r' = recorded_as es r r'" for es by simp
  ultimately show ?thesis using cap_recorded_observes [of os err now ?r j w r' ended j' w'] by simp
qed

theorem recorder_observes_witness:
  "let (r', ended, j', w') = traced_process_cap chatty_os (\<lambda>w. 3) (\<lambda>g. (g, 0)) (\<lambda>g. (0, 0)) True True 7
         (new_recorder True False) (sample_job, (3, 0))
   in ended \<and> j_status j' = PROC_LIMIT \<and>
      (\<exists>es. recorded_as es (new_recorder True False) r' \<and> map pc_decision es = [1, 2])"
proof -
  obtain r' ended j' w' where r: "traced_process_cap chatty_os (\<lambda>w. 3) (\<lambda>g. (g, 0)) (\<lambda>g. (0, 0)) True True 7
      (new_recorder True False) (sample_job, (3, 0)) = (r', ended, j', w')" by (metis prod_cases4)
  have "fst (enforce_job_process_cap chatty_os 7 (sample_job, (3, 0)))"
    "j_status (fst (snd (enforce_job_process_cap chatty_os 7 (sample_job, (3, 0))))) = PROC_LIMIT" by code_simp+
  moreover note recorder_observes [OF r]
  ultimately have "ended" "j_status j' = PROC_LIMIT"
    "\<exists>es. recorded_as es (new_recorder True False) r' \<and> map pc_decision es = [1, 2]"
    by (metis fst_conv snd_conv)+
  then show ?thesis unfolding r by simp
qed

section \<open>The window of the recorder\<close>

definition recorder_holds :: "recorder \<Rightarrow> ProcCapEntry list \<Rightarrow> bool" where
  "recorder_holds r es \<longleftrightarrow> length (rc_buf r) = 256 \<and> rc_enabled r \<and> rc_idx r = of_nat (length es) \<and>
     (\<forall>k < length es. length es \<le> k + 256 \<longrightarrow> rc_buf r ! (k mod 256) = es ! k)"

lemma index_mask: "unat (of_nat n AND (255 :: 32 word)) = n mod 256"
proof -
  have "(255 :: 32 word) = mask 8" by (simp add: mask_eq_exp_minus_1)
  then have "unat (of_nat n AND (255 :: 32 word)) = unat (take_bit 8 (of_nat n :: 32 word))"
    by (simp only: take_bit_eq_mask)
  also have "\<dots> = take_bit 8 (take_bit 32 n)"
    by (simp add: unsigned_take_bit_eq unsigned_of_nat)
  finally show ?thesis by (simp add: take_bit_eq_mod mod_mod_cancel)
qed

lemma record_holds:
  assumes "recorder_holds r es"
  shows "recorder_holds (record_proc_cap e r) (es @ [e])"
proof -
  have idx: "unat (rc_idx r AND 255) = length es mod 256"
    using assms index_mask by (simp add: recorder_holds_def)
  have "((rc_buf r)[length es mod 256 := e]) ! (k mod 256) = (es @ [e]) ! k"
    if "k < Suc (length es)" "Suc (length es) \<le> k + 256" for k
  proof (cases "k = length es")
    case True
    then show ?thesis using assms by (simp add: recorder_holds_def)
  next
    case False
    then have "k < length es" "length es - k < 256" using that by simp_all
    then have "length es mod 256 \<noteq> k mod 256"
      using mod_eq_dvd_iff_nat [of k "length es" 256] by (auto dest: dvd_imp_le)
    then show ?thesis using assms \<open>k < length es\<close> that by (simp add: recorder_holds_def nth_append)
  qed
  then show ?thesis using assms idx by (simp add: recorder_holds_def record_proc_cap_def)
qed

text \<open>
  an enabled recorder holds the last 256 entries, each at its number modulo 256, for any number of
  them, also when its 32-bit index has wrapped around.
\<close>

theorem recorder_window:
  "recorder_holds (fold record_proc_cap es (new_recorder True dump)) es"
proof (induction es rule: rev_induct)
  case Nil
  then show ?case by (simp add: recorder_holds_def new_recorder_def)
next
  case (snoc e es)
  then show ?case using record_holds by simp
qed

section \<open>The line of the inspector\<close>

text \<open>What the scan of \<open>/proc\<close> keeps for its line beside the count: at most eight ids and two raw lines.\<close>

record scan_trace =
  sc_scanned :: nat
  sc_matched :: int
  sc_pids :: "int list"
  sc_child :: int
  sc_leader_raw :: string
  sc_child_raw :: string

definition no_trace :: scan_trace where
  "no_trace = \<lparr>sc_scanned = 0, sc_matched = 0, sc_pids = [], sc_child = 0, sc_leader_raw = [], sc_child_raw = []\<rparr>"

definition trace_match :: "int \<Rightarrow> int \<Rightarrow> string \<Rightarrow> scan_trace \<Rightarrow> scan_trace" where
  "trace_match pgid pid buf t =
     (let t1 = t\<lparr>sc_matched := sc_matched t + 1,
                 sc_pids := (if length (sc_pids t) < 8 then sc_pids t @ [pid] else sc_pids t)\<rparr>
      in if pid = pgid then t1\<lparr>sc_leader_raw := take 4095 (c_str buf)\<rparr>
         else if sc_child t = 0 then t1\<lparr>sc_child := pid, sc_child_raw := take 4095 (c_str buf)\<rparr>
         else t1)"

fun trace_loop :: "(int \<Rightarrow> string option) \<Rightarrow> int \<Rightarrow> (bool \<times> string) list \<Rightarrow> scan_trace \<Rightarrow> scan_trace" where
  "trace_loop stat pgid [] t = t"
| "trace_loop stat pgid (e # es) t =
     (if max_scans \<le> sc_scanned t then t
      else case entry_pid e of
        None \<Rightarrow> trace_loop stat pgid es t
      | Some pid \<Rightarrow>
          let t1 = t\<lparr>sc_scanned := sc_scanned t + 1\<rparr> in
          (case Option.bind (stat pid) fgets of
             None \<Rightarrow> trace_loop stat pgid es t1
           | Some buf \<Rightarrow>
               trace_loop stat pgid es (if stat_pgrp buf = Some pgid then trace_match pgid pid buf t1 else t1)))"

text \<open>
  The loop over \<open>snprintf\<close> into the rest of 256 bytes: what fits with the terminator is written, the
  offset grows by the whole length, and the loop stops once the buffer is full.
\<close>

fun pid_list :: "int list \<Rightarrow> string \<Rightarrow> string" where
  "pid_list [] buf = buf"
| "pid_list (p # ps) buf =
     (let txt = show_int p @ (if ps = [] then [] else '','');
          buf' = buf @ take (256 - length buf - 1) txt
      in if 255 \<le> length buf + length txt then buf' else pid_list ps buf')"

definition blank_newlines :: "string \<Rightarrow> string" where
  "blank_newlines s = map (\<lambda>c. if c = CHR 0x0A then CHR '' '' else c) s"

definition or_missing :: "string \<Rightarrow> string" where
  "or_missing s = (if s = [] then ''<missing>'' else blank_newlines s)"

definition inspector_text :: "int \<Rightarrow> scan_trace \<Rightarrow> string" where
  "inspector_text pgid t =
     ''PROC_CAP_INSPECTOR_DBG scan_pgid='' @ show_int pgid @ '' scanned='' @ show_nat (sc_scanned t) @
     '' matched='' @ show_int (sc_matched t) @
     '' matched_pids='' @ (if sc_pids t = [] then ''<none>'' else pid_list (sc_pids t) []) @
     '' first_child_pid='' @ show_int (sc_child t) @
     '' leader_stat='' @ [CHR 0x27] @ or_missing (sc_leader_raw t) @ [CHR 0x27] @
     '' child_stat='' @ [CHR 0x27] @ or_missing (sc_child_raw t) @ [CHR 0x27] @ [CHR 0x0A]"

text \<open>The line is written after every scan of \<open>/proc\<close>, whatever the environment holds.\<close>

definition inspector_output ::
  "(bool \<times> string) list option \<Rightarrow> (int \<Rightarrow> string option) \<Rightarrow> int \<Rightarrow> string" where
  "inspector_output proc_dir stat pgid =
     (case proc_dir of None \<Rightarrow> [] | Some es \<Rightarrow>
        let t = trace_loop stat pgid es no_trace in if 0 \<le> sc_matched t then inspector_text pgid t else [])"

section \<open>What the line says\<close>

lemma trace_match_simps [simp]:
  "sc_scanned (trace_match pgid pid buf t) = sc_scanned t"
  "sc_matched (trace_match pgid pid buf t) = sc_matched t + 1"
  "sc_pids (trace_match pgid pid buf t) = (if length (sc_pids t) < 8 then sc_pids t @ [pid] else sc_pids t)"
  by (simp_all add: trace_match_def Let_def)

lemma trace_counts: "sc_matched (trace_loop stat pgid es t) = count_loop stat pgid es (sc_scanned t) (sc_matched t)"
proof (induction es arbitrary: t)
  case (Cons e es)
  then show ?case
    by (cases "entry_pid e") (auto simp: process_pgrp_def Let_def bind_eq_Some_conv split: option.split)
qed simp

definition trace_ok :: "scan_trace \<Rightarrow> bool" where
  "trace_ok t \<longleftrightarrow> length (sc_pids t) = nat (min 8 (sc_matched t)) \<and> 0 \<le> sc_matched t \<and> (\<forall>p \<in> set (sc_pids t). 0 < p \<and> p < 2 ^ 31)"

lemma entry_pid_range: "entry_pid e = Some pid \<Longrightarrow> 0 < pid \<and> pid < 2 ^ 31"
  using as_int32_range by (auto simp: entry_pid_def Let_def split: if_splits prod.splits)

lemma trace_loop_ok: "trace_ok t \<Longrightarrow> trace_ok (trace_loop stat pgid es t)"
proof (induction es arbitrary: t)
  case (Cons e es)
  show ?case
  proof (cases "max_scans \<le> sc_scanned t \<or> entry_pid e = None")
    case True
    then show ?thesis using Cons by auto
  next
    case False
    then obtain pid where pid: "entry_pid e = Some pid" by auto
    let ?t = "t\<lparr>sc_scanned := sc_scanned t + 1\<rparr>"
    have "trace_ok ?t" "trace_ok (trace_match pgid pid buf ?t)" for buf
      using Cons.prems entry_pid_range [OF pid] by (auto simp: trace_ok_def)
    then show ?thesis using Cons.IH pid False by (auto simp: Let_def split: option.split)
  qed
qed simp

lemma pid_text_length: "0 < p \<Longrightarrow> p < 2 ^ 31 \<Longrightarrow> length (show_int p) \<le> 10"
proof -
  assume p: "0 < p" "p < 2 ^ 31"
  have "10 ^ (length (show_nat (nat p)) - 1) \<le> nat p" using show_nat_range [of "nat p"] p(1) by simp
  also have "nat p < 10 ^ 10" using p(2) by (simp add: nat_less_iff)
  finally have "length (show_nat (nat p)) - 1 < 10" by (rule power_less_imp_less_exp [rotated]) simp
  then show ?thesis using p(1) by (simp add: show_int_def)
qed

fun comma_join :: "string list \<Rightarrow> string" where
  "comma_join [] = []"
| "comma_join [x] = x"
| "comma_join (x # xs) = x @ '','' @ comma_join xs"

text \<open>Eight ids always fit: the loop neither cuts an id nor stops early.\<close>

lemma pid_list_complete:
  "\<forall>p \<in> set ps. 0 < p \<and> p < 2 ^ 31 \<Longrightarrow> length buf + 11 * length ps < 255 \<Longrightarrow>
   pid_list ps buf = buf @ comma_join (map show_int ps)"
proof (induction ps arbitrary: buf)
  case (Cons p ps)
  have short: "length (show_int p) \<le> 10" using Cons.prems(1) by (intro pid_text_length) auto
  show ?case
  proof (cases ps)
    case Nil
    then show ?thesis using Cons.prems(2) short by (simp add: Let_def)
  next
    case ps: (Cons q qs)
    let ?buf = "buf @ show_int p @ '',''"
    have "pid_list (p # ps) buf = pid_list ps ?buf"
      using Cons.prems(2) short ps by (simp only: pid_list.simps(2)) (simp add: Let_def del: pid_list.simps)
    also have "\<dots> = ?buf @ comma_join (map show_int ps)"
      using Cons.prems short by (intro Cons.IH) auto
    finally show ?thesis using ps by simp
  qed
qed simp

text \<open>
  the line of the inspector agrees with its result: the number of matches it shows is the count that is
  returned, and the list of ids is never cut off: it holds the first eight matching ids, separated
  by commas.
\<close>

theorem inspector_line_agrees:
  "\<exists>t. inspector_output (Some es) stat pgid = inspector_text pgid t \<and>
     sc_matched t = count_processes_in_pgid (Some es) stat pgid \<and>
     int (length (sc_pids t)) = min 8 (sc_matched t) \<and> pid_list (sc_pids t) [] = comma_join (map show_int (sc_pids t))"
proof -
  let ?t = "trace_loop stat pgid es no_trace"
  have ok: "trace_ok ?t" by (rule trace_loop_ok) (simp add: trace_ok_def no_trace_def)
  then have "length (sc_pids ?t) \<le> 8" by (simp add: trace_ok_def)
  then have "pid_list (sc_pids ?t) [] = comma_join (map show_int (sc_pids ?t))"
    using pid_list_complete [of "sc_pids ?t" "[]"] ok by (simp add: trace_ok_def)
  moreover have "sc_matched ?t = count_processes_in_pgid (Some es) stat pgid"
    using trace_counts [of stat pgid es no_trace] by (simp add: count_processes_in_pgid_def no_trace_def)
  ultimately show ?thesis
    using ok by (intro exI [of _ ?t]) (simp add: inspector_output_def trace_ok_def Let_def)
qed

end
