(* ===== verification/Job_Leftovers.thy ===== *)
theory Job_Leftovers
  imports Job_Limits
begin

text \<open>
  What remains of a job that a limit has ended (\<open>src/job/job.cpp\<close>, \<open>enforce_job_timeout\<close> and
  \<open>enforce_job_process_cap\<close>): the process was asked to end, but nothing waits for it, kills it when it
  does not end, or closes the descriptors of its output.
\<close>

section \<open>The scan that ends it\<close>

lemma timeout_descriptors:
  "enforce_job_timeout os now (j, w) = (b, j', w') \<Longrightarrow>
   j_stdout_fd j' = j_stdout_fd j \<and> j_stderr_fd j' = j_stderr_fd j \<and> (b \<longrightarrow> w' = group_signal os j w)"
  by (auto simp: enforce_job_timeout_def Let_def split: if_splits)

lemma process_cap_descriptors:
  "enforce_job_process_cap os now (j, w) = (b, j', w') \<Longrightarrow>
   j_stdout_fd j' = j_stdout_fd j \<and> j_stderr_fd j' = j_stderr_fd j \<and> (b \<longrightarrow> w' = group_signal os j w)"
  by (auto simp: enforce_job_process_cap_def Let_def split: if_splits)

text \<open>
  a scan that ends a running job with TIMEOUT or PROC_LIMIT has found it not to have exited; it sends one
  SIGTERM to the group and leaves both descriptors as the reads left them.
\<close>

theorem ended_scan_leaves_open:
  assumes "scan_job os now (j, w) = (j', w')" and "j_status j = RUNNING" and "j_status j' \<in> {TIMEOUT, PROC_LIMIT}"
    and "read_stderr os (read_stdout os (j, w)) = (j1, w1)"
  shows "\<exists>w2. reap os (j1, w1) = (False, j1, w2) \<and> w' = group_signal os j1 w2 \<and>
    j_stdout_fd j' = j_stdout_fd j1 \<and> j_stderr_fd j' = j_stderr_fd j1"
proof -
  have run: "j_status j1 = RUNNING" using reads_frame [OF assms(4)] assms(2) by simp
  from assms(1) show ?thesis
  proof (cases rule: scan_job_cases)
    case (reaped j2 w2)
    then have "j_status j' \<in> {COMPLETED, FAILED}" using reap_frame by fastforce
    then show ?thesis using assms(3) by auto
  next
    case (late j2 w2 w3)
    then show ?thesis using timeout_descriptors [OF late(3)] assms(4) by auto
  next
    case (cut j2 w2)
    then have "j_status j' = RUNNING" using log_cap_frame [OF cut(4)] run assms(4) by simp
    then show ?thesis using assms(3) by auto
  next
    case (capped j2 w2 w3 b)
    then have "b" using process_cap_frame [OF capped(5)] run assms(3,4) by (auto split: if_splits)
    then show ?thesis using process_cap_descriptors [OF capped(5)] capped(1,2) assms(4) by auto
  qed
qed

theorem ended_scan_leaves_open_witness:
  "\<exists>j' w'. scan_job chatty_os 7 (sample_job\<lparr>j_started_at_ms := 5, j_stdout_fd := 3\<rparr>, (3, 0)) = (j', w') \<and> j_stdout_fd j' = 3"
proof -
  let ?j = "sample_job\<lparr>j_started_at_ms := 5, j_stdout_fd := 3\<rparr>"
  let ?k = "?j\<lparr>j_output := replicate 10 (CHR ''x''), j_bytes_written := 10\<rparr>"
  obtain j' w' where s: "scan_job chatty_os 7 (?j, (3, 0)) = (j', w')" by (metis surj_pair)
  have rd: "read_stderr chatty_os (read_stdout chatty_os (?j, (3, 0))) = (?k, (3, 0))"
    by (simp add: read_stdout_def read_stderr_def chatty_os_def sample_job_def new_job_def read_size_def)
  have "j_status (fst (scan_job chatty_os 7 (?j, (3, 0)))) = PROC_LIMIT" by code_simp
  then have st: "j_status j' \<in> {TIMEOUT, PROC_LIMIT}" by (simp add: s)
  have "j_status ?j = RUNNING" by (simp add: sample_job_def)
  from ended_scan_leaves_open [OF s this st rd] show ?thesis using s by auto
qed

section \<open>Afterwards\<close>

lemma final_stays:
  assumes "placing os" and "job_run os (r, w) ops (r', w')"
    and "runner_inv r" and "jobs r i = Some j" and "terminal (j_status j)" and "j_status j \<noteq> CANCELLED"
  shows "runner_inv r' \<and> jobs r' i = Some j"
  using assms(2)
proof (induction "(r, w)" ops "(r', w')" arbitrary: r' w' rule: job_run.induct)
  case run_start
  then show ?case using assms(3,4) by simp
next
  case (run_step ops r1 w1 op r2 w2)
  then have inv: "runner_inv r1" "jobs r1 i = Some j" by simp_all
  then have "i \<notin> set (job_queue r1)"
    using assms(5,6) by (auto simp: runner_inv_def job_queue_inv_def terminal_def)
  then show ?case
    using step_inv [OF assms(1) inv(1) run_step(3)] step_moves [OF inv(1) run_step(3) inv(2)] assms(5)
    by (auto simp: job_moves_def)
qed

text \<open>
  C13: a job that a limit has ended is abandoned: whatever the runner does later, the job keeps its status and its open
  descriptors, no check looks at it again, so its process is neither waited for nor killed, and a
  cancellation does nothing.
\<close>

theorem ended_job_is_abandoned:
  assumes "placing os" and "job_run os (new_runner n, w0) ops (r, w)"
    and "jobs r i = Some j" and "j_status j \<in> {TIMEOUT, PROC_LIMIT}" and "job_run os (r, w) ops' (r', w')"
  shows "jobs r' i = Some j \<and> i \<notin> set (running_ids r') \<and> cancel_job os i (r', w') = (True, (r', w'))"
proof -
  have "jobs r' i = Some j"
    using final_stays [OF assms(1,5) job_run_inv [OF assms(1,2)] assms(3)] assms(4) by (auto simp: terminal_def)
  then show ?thesis
    using assms(4) by (auto simp: running_ids_def has_status_def active_def cancel_job_def)
qed

theorem ended_job_is_abandoned_witness:
  "let c = sample_run (sample_ops @ [Check 700007 10]); c' = fold (perform quiet_os) [Check 700008 10, Cancel ''job_1''] c
   in has_status (\<lambda>j. j_status j = TIMEOUT \<and> j_stdout_fd j = 5) (fst c') ''job_1''"
proof -
  define c where "c = sample_run (sample_ops @ [Check 700007 10])"
  define c' where "c' = fold (perform quiet_os) [Check 700008 10, Cancel ''job_1''] c"
  have "has_status (\<lambda>j. j_status j = TIMEOUT \<and> j_stdout_fd j = 5) (fst c) ''job_1''" unfolding c_def by code_simp
  then obtain j where j: "jobs (fst c) ''job_1'' = Some j" "j_status j = TIMEOUT" "j_stdout_fd j = 5"
    by (auto simp: has_status_def split: option.splits)
  have st: "j_status j \<in> {TIMEOUT, PROC_LIMIT}" using j(2) by simp
  have "job_run quiet_os (fst c, snd c) [Check 700008 10, Cancel ''job_1''] (fst c', snd c')"
    using performed [of quiet_os c "[Check 700008 10, Cancel ''job_1'']"] unfolding c'_def prod.collapse by simp
  moreover have "job_run quiet_os (new_runner 2, []) (sample_ops @ [Check 700007 10]) (fst c, snd c)"
    unfolding c_def by (rule sample_run)
  ultimately have "job_run quiet_os (new_runner 2, []) (sample_ops @ [Check 700007 10]) (fst c, snd c)"
    "job_run quiet_os (fst c, snd c) [Check 700008 10, Cancel ''job_1''] (fst c', snd c')" by simp_all
  from ended_job_is_abandoned [OF quiet_placing this(1) j(1) st this(2)]
  have "jobs (fst c') ''job_1'' = Some j" by blast
  then have "has_status (\<lambda>j. j_status j = TIMEOUT \<and> j_stdout_fd j = 5) (fst c') ''job_1''"
    using j by (simp add: has_status_def)
  then show ?thesis by (simp only: c_def c'_def Let_def)
qed

end
