(* ===== verification/Spec2Isabelle.thy ===== *)
theory Spec2Isabelle
  imports Prelude Ring_Buffer Resource_Governor Governor_Queue Job_Scheduling Job_Limits Cgroup_Driver
    Group_Policy_Store Status_Socket Policy_File Metrics_Tail Daemon_Main Kernelctl Kernel_Main Cap_Debug Job_Leftovers
begin

text \<open>
  A verification development for heidi-kernel, a small resource-governing daemon in C++. Paths are
  relative to the repository's \<open>src/\<close> directory unless they start with \<open>include/\<close>.

  The program. A \<open>JobRunner\<close> (\<open>job/job.cpp\<close>) queues shell commands, starts them as process groups,
  reads their output and ends those that exceed a limit of time, output or processes; it reads
  \<open>/proc\<close> through \<open>job/procfs_starttime.cpp\<close> and \<open>job/process_inspector_procfs.cpp\<close>. Whether it may
  start a job is decided by the \<open>ResourceGovernor\<close> (\<open>governor/resource_governor.cpp\<close>). The
  \<open>ProcessGovernor\<close> (\<open>governor/process_governor.cpp\<close>) takes messages parsed by
  \<open>governor/gov_rule.cpp\<close> from a bounded queue and applies them to processes; the \<open>CgroupDriver\<close>
  and the \<open>GroupPolicyStore\<close> of the same directory are meant to go with it. The \<open>Daemon\<close>
  (\<open>daemon/daemon.cpp\<close>) owns a runner and a governor, answers the line protocol of \<open>ipc/ipc.cpp\<close>
  spoken by \<open>tools/kernelctl.cpp\<close>, and samples the machine (\<open>metrics/sampler.cpp\<close>); a policy can be
  kept in a file (\<open>config/policy_store.cpp\<close>). The second program, the kernel, consists of an
  \<open>EventLoop\<close>, a \<open>StatusSocket\<close> that replays events from a \<open>RingBuffer\<close>, a \<open>Logger\<close> and a
  \<open>ConfigParser\<close>.

  How the code is modelled. A class is a record of its members and an operation a function from the
  state to a result and the new state; what a system call or the clock answers is an argument, or a
  field of a record of functions over the state \<open>'w\<close> of the system, so every property holds for every
  behaviour of the system. An exception, undefined behaviour, \<open>std::terminate\<close> and the end of the process
  by a signal are values of the type \<open>fault\<close> (Prelude), and a call that may fail returns \<open>fault + 'a\<close>. A mutex makes the operation it
  protects one step; threads are the interleavings of such steps (\<open>gov_step\<close>, \<open>job_step\<close>, \<open>loop_step\<close>,
  \<open>status_step\<close>, \<open>daemon_step\<close>, \<open>process_step\<close>, \<open>kernel_step\<close>). Times and counters that wrap are 64-bit words; \<open>double\<close> is binary64 with
  rounding to nearest. A \<open>std::string\<close> is a list of bytes; \<open>c_str\<close> is the text before a NUL.

  The theories, with the code they model and what their lemmas show.
    Prelude: faults, conversions between integer widths, decimal numbers, \<open>std::stoi\<close> and its
  relatives, \<open>std::getline\<close>, list lemmas.
    Binary64, Double_Text: \<open>double\<close> arithmetic (monotone, exact on small integers), \<open>std::stod\<close> and
  the default output of a \<open>double\<close> (whole numbers below a million are printed and read exactly).
    Ring_Buffer (\<open>include/heidi-kernel/ring_buffer.h\<close>): the locale \<open>event_log\<close> is the contract of a
  log of the last \<open>cap\<close> items; the index arithmetic is shown to provide it.
    Resource_Governor: the decision equals the first exceeded limit, a policy is installed exactly when
  valid.
    Gov_Rule, Gov_Rule_Laws, Gov_Rule_Roundtrip (\<open>governor/gov_rule.cpp\<close>): the parser with its partial
  reads; fuel bounds its loops by the length of the text and never runs out; ranges of accepted
  messages, which are those of the C++ types and for nice wider than documented; the round trip with a printer.
    Process_Governor, Governor_Queue (\<open>governor/process_governor.cpp\<close>): CPU lists, the steps that apply
  a message, the queue (locale \<open>bounded_fifo\<close>), the apply thread as a step relation with its start, stop and
  restart, what the table of rules and the counters hold after any run, and that the loop drains its queue.
    Cgroup_Driver: detection and limits of cgroups; a system that notes every write shows which files are written and
  that a limit is marked exactly when its file was opened; the constructor makes no driver that is available.
    Slots, Group_Policy_Store: tables of slots with
  eviction (locales \<open>slot_table\<close> and \<open>keyed_table\<close>, interpreted on both tables of the store) and their
  refinement to a map from names to settings, whose update is stated without the operations of the store.
    Procfs: field 22 of the stat line, the number of processes of a group (at most 5000 entries).
    Job: the operations of the runner; Job_Laws: what one scan can do to a job; Job_Runs: the invariant of
  all reachable states; Job_Properties, Job_Scheduling, Job_Limits: life cycle, starts, queue, fairness,
  timeouts, output and process caps; Job_Spawner: the locale \<open>spawner\<close> and the real spawner.
    Job_Leftovers: what remains of a job that a limit has ended.
    Cap_Debug: the recorder of process cap decisions, which is shown to observe only and to hold the last
  256 of them, and the debug line of the inspector.
    Event, Status_Socket (\<open>include/heidi-kernel/event.h\<close>, \<open>kernel/status.cpp\<close>): JSON escaping against
  a reader of JSON, replies, subscribers, descriptors; what a subscriber receives is read off a system that records
  all that is written.
    Policy_File (\<open>config/policy_store.cpp\<close>): the reader of policy fields shared with the daemon, loading
  and saving.
    Metrics, Metrics_Tail (\<open>metrics/sampler.cpp\<close>): the load, rotation of the log, reading it back;
  Double_Stream: extraction of a \<open>double\<close> from a stream and the accuracy of six digits.
    Ipc, Kernelctl, Daemon: protocol, control tool, requests, monitor tick and sampling round.
    Daemon_Main (\<open>daemon/main.cpp\<close>, \<open>Daemon::run\<close>): start of the threads, the way of an exception out of
  the process, signals while serving, a signal before the serving loop, the shutdown that then waits for ever.
    Kernel_Config, Event_Loop: configuration, start of the kernel, log lines, ticks and stopping.
    Kernel_Main (\<open>kernel/main.cpp\<close>, \<open>app/main.cpp\<close> of the repository's root): the main thread, the status
  thread, the worker and signals as one step function over the components' states; an invariant that
  relates the statements left to the flags and threads, a rank that every fair round lowers.
  This theory holds the property that spans the control tool, the protocol and the daemon.

  Bounds and fuel. The only fuel is that of the message parser's field loops; it starts at the length
  of the text, every round consumes a character, and a theorem shows that it is never used up. All other
  loops are recursive functions with a termination proof. The endless loops of the servers are lists of
  what \<open>accept\<close> and \<open>read\<close> return, or single iterations.

  Not modelled. The child side of \<open>fork\<close> and the \<open>SPAWN_DBG\<close> lines of both sides; the unused helper \<open>check_controller\<close> of \<open>cgroup_driver.cpp\<close>; what is printed to
  the console by the daemon. \<open>group_policy_store.cpp\<close> is not part of the build and reads message
  fields that \<open>gov_rule.h\<close> does not declare: its message is a record of the fields read. The sign of
  zero and of not-a-number is not represented, so a load of 0/0 is printed \<open>nan\<close>. The counters of messages are natural
  numbers, and the static counter of job names is held with the runner, of which a process has one. Data races on members
  that the code reads without a lock are not modelled, and every system call is taken to return.
\<close>

section \<open>The control tool and the daemon\<close>

lemma c_str_prefix: "CHR 0x00 \<notin> set p \<Longrightarrow> c_str (p @ r) = p @ c_str r"
  by (simp add: c_str_def takeWhile_append)

lemma unknown_request:
  assumes "p = ''metrics '' \<or> p = ''job ''" and "take (length p) q = p"
  shows "ipc_client (Some handle_request) (Some (take 1023 q)) d = Inr (Some (''error'' @ nl), d)"
proof -
  have p: "CHR 0x00 \<notin> set p" "CHR 0x0A \<notin> set p" "p \<noteq> []" "length p \<le> 1023" using assms(1) by auto
  have "take 1023 q = p @ drop (length p) (take 1023 q)"
    using assms(2) p(4) by (metis append_take_drop_id min.absorb1 take_take)
  then obtain r where r: "take 1023 q = p @ r" by blast
  obtain m where m: "msg_type (deserialize (p @ c_str r)) = p @ m" using deserialize_prefix [OF p(2,3)] by blast
  have "handle_request (p @ m) d = Inr (''error'' @ nl, d)"
    using assms(1) by (auto simp: handle_request_def update_command_def)
  then show ?thesis
    using p(3) m by (simp add: ipc_client_def r c_str_prefix [OF p(1)])
qed

text \<open>
  C40: of everything the control tool can send the daemon understands \<open>ping\<close> and \<open>status\<close> only: these are answered
  with \<open>pong\<close> and the status, every other request, that is every \<open>metrics\<close> and \<open>job\<close> command with whatever
  arguments, with an error; none changes anything.
\<close>

theorem ctl_commands_unknown:
  assumes "ctl_action argv = Send path q"
  shows "ipc_client (Some handle_request) (Some (take 1023 q)) d =
    Inr (Some (if q = line ''ping'' then ''pong'' @ nl else if q = line ''status'' then status_reply d else ''error'' @ nl), d)"
proof -
  have "ctl_request argv = Inr q"
    using assms by (auto simp: ctl_action_def split: if_splits sum.splits)
  moreover have "length ''metrics '' = 8" "length ''job '' = 4" by simp_all
  ultimately have cases: "q = line ''ping'' \<or> q = line ''status'' \<or> q \<noteq> line ''ping'' \<and> q \<noteq> line ''status'' \<and>
      ipc_client (Some handle_request) (Some (take 1023 q)) d = Inr (Some (''error'' @ nl), d)"
    using ctl_request_shape [of argv q] unknown_request [of "''metrics ''" q d] unknown_request [of "''job ''" q d]
    by metis
  have understood: "ipc_client (Some handle_request) (Some (take 1023 (line ''ping''))) d = Inr (Some (''pong'' @ nl), d)"
    "ipc_client (Some handle_request) (Some (take 1023 (line ''status''))) d = Inr (Some (status_reply d), d)"
    using deserialize_line [of "''ping''" "[]"] deserialize_line [of "''status''" "[]"]
    by (simp_all add: ipc_client_def handle_request_def line_def c_str_def)
  from cases consider "q = line ''ping''" | "q = line ''status''"
    | "q \<noteq> line ''ping''" "q \<noteq> line ''status''" "ipc_client (Some handle_request) (Some (take 1023 q)) d = Inr (Some (''error'' @ nl), d)"
    by blast
  then show ?thesis
  proof cases
    case 1
    then show ?thesis using understood(1) by simp
  next
    case 2
    have "line ''status'' \<noteq> line ''ping''" by (simp add: line_def)
    then show ?thesis using 2 understood(2) by simp
  next
    case 3
    then show ?thesis by simp
  qed
qed

theorem ctl_commands_unknown_witness:
  "ipc_client (Some handle_request) (Some (take 1023 (line ''job run make''))) new_daemon =
     Inr (Some (''error'' @ nl), new_daemon)"
proof -
  have "ctl_action [''kernelctl'', ''job'', ''run'', ''make''] = Send default_socket (line ''job run make'')"
    by code_simp
  from ctl_commands_unknown [OF this, of new_daemon] show ?thesis by (simp add: line_def)
qed

end
